(* ===== verification/Prelude.thy ===== *)
theory Prelude
  imports Main "HOL-Library.Word" "HOL-Library.Code_Target_Nat"
begin

text \<open>
  What every component of the model of \<open>simply_ip_sync\<close> shares.

  \<^item> The names of the model's base types. A byte of a Rust buffer is a \<open>char\<close> (HOL's
    \<open>char\<close> is exactly an 8-bit value), so a \<open>Vec<u8>\<close> and the UTF-8 bytes of a \<open>str\<close> are
    both \<open>char list\<close>; a \<open>Uuid\<close> is a 128-bit word; an instant is a number of milliseconds.
  \<^item> The plumbing of the handlers: a handler returns its result (an \<open>Inl\<close> error or an
    \<open>Inr\<close> response) together with the state it leaves behind, and \<open>try_h\<close> is Rust's
    \<open>?\<close> operator on it: an error returns at once and keeps the effects made so far.
  \<^item> The collections of simplification rules the component proofs use.
\<close>

section \<open>Base types\<close>

type_synonym bytes = "char list"
type_synonym uuid = "128 word"
type_synonym instant = int

section \<open>Collections of rules\<close>

named_theorems str_simps \<open>evaluation and shape of the string operations of the standard library\<close>
named_theorems guard_simps \<open>what it means that an authorization guard passes\<close>
named_theorems step_simps \<open>what it means that a handler succeeds\<close>

section \<open>The question mark operator\<close>

definition ebind :: "'e + 'a \<Rightarrow> ('a \<Rightarrow> 'e + 'b) \<Rightarrow> 'e + 'b" where
  "ebind r k = (case r of Inl e \<Rightarrow> Inl e | Inr a \<Rightarrow> k a)"

definition map_err :: "('e \<Rightarrow> 'f) \<Rightarrow> 'e + 'a \<Rightarrow> 'f + 'a" where
  "map_err f r = (case r of Inl e \<Rightarrow> Inl (f e) | Inr a \<Rightarrow> Inr a)"

definition ok_or :: "'e \<Rightarrow> 'a option \<Rightarrow> 'e + 'a" where
  "ok_or e x = (case x of None \<Rightarrow> Inl e | Some a \<Rightarrow> Inr a)"

definition ok_opt :: "'e + 'a \<Rightarrow> 'a option" where
  "ok_opt r = (case r of Inl _ \<Rightarrow> None | Inr a \<Rightarrow> Some a)"

definition try_h :: "'e + 'a \<Rightarrow> 's \<Rightarrow> ('a \<Rightarrow> ('e + 'b) \<times> 's) \<Rightarrow> ('e + 'b) \<times> 's" where
  "try_h r s k = (case r of Inl e \<Rightarrow> (Inl e, s) | Inr a \<Rightarrow> k a)"

lemma ebind_simps [simp]:
  "ebind (Inl e) k = Inl e" "ebind (Inr a) k = k a"
  by (simp_all add: ebind_def)

lemma map_err_simps [simp]:
  "map_err f (Inl e) = Inl (f e)" "map_err f (Inr a) = Inr a"
  by (simp_all add: map_err_def)

lemma ok_or_simps [simp]:
  "ok_or e None = Inl e" "ok_or e (Some a) = Inr a"
  by (simp_all add: ok_or_def)

lemma ok_opt_simps [simp]:
  "ok_opt (Inl e) = None" "ok_opt (Inr a) = Some a"
  by (simp_all add: ok_opt_def)

lemma try_h_simps [simp]:
  "try_h (Inl e) s k = (Inl e, s)" "try_h (Inr a) s k = k a"
  by (simp_all add: try_h_def)

lemma ebind_eq_Inr [simp]: "ebind r k = Inr b \<longleftrightarrow> (\<exists>a. r = Inr a \<and> k a = Inr b)"
  by (cases r) auto

lemma map_err_eq_Inr [simp]: "map_err f r = Inr a \<longleftrightarrow> r = Inr a"
  by (cases r) auto

lemma ok_or_eq_Inr [simp]: "ok_or e x = Inr a \<longleftrightarrow> x = Some a"
  by (cases x) auto

lemma ok_opt_eq_Some [simp]: "ok_opt r = Some a \<longleftrightarrow> r = Inr a"
  by (cases r) auto

lemma try_h_eq_Inr [step_simps]:
  "try_h r s k = (Inr b, s') \<longleftrightarrow> (\<exists>a. r = Inr a \<and> k a = (Inr b, s'))"
  by (cases r) auto

text \<open>
  The state a handler leaves: what holds of the entry state and of the state every
  continuation leaves holds of the whole.
\<close>

lemma try_h_snd_cases:
  assumes "P s" and "\<And>a. r = Inr a \<Longrightarrow> P (snd (k a))"
  shows "P (snd (try_h r s k))"
  using assms by (cases r) auto

section \<open>Lists\<close>

lemma takeWhile_dropWhile_notin:
  "x \<notin> set xs \<Longrightarrow> takeWhile (\<lambda>y. y \<noteq> x) (xs @ x # ys) = xs"
  "x \<notin> set xs \<Longrightarrow> dropWhile (\<lambda>y. y \<noteq> x) (xs @ x # ys) = x # ys"
  by (induction xs) auto

lemma append_sep_inject:
  "x \<notin> set xs \<Longrightarrow> x \<notin> set ys \<Longrightarrow> xs @ x # us = ys @ x # vs \<longleftrightarrow> xs = ys \<and> us = vs"
proof (induction xs arbitrary: ys)
  case Nil
  then show ?case by (cases ys) auto
next
  case (Cons a xs)
  then show ?case by (cases ys) auto
qed

lemma find_eq_Some_D: "List.find P xs = Some x \<Longrightarrow> x \<in> set xs \<and> P x"
  by (auto simp: find_Some_iff)

text \<open>The cast \<open>as i32\<close> of an unsigned count.\<close>

definition as_i32 :: "nat \<Rightarrow> int" where
  "as_i32 n = (int n + 2 ^ 31) mod 2 ^ 32 - 2 ^ 31"

lemma as_i32_small: "n < 2 ^ 31 \<Longrightarrow> as_i32 n = int n"
  by (simp add: as_i32_def)

lemma set_replicate_sub: "set (replicate n x) \<subseteq> {x}"
  by (induction n) auto

end
