(* ===== verification/Text.thy ===== *)
theory Text
  imports Prelude
begin

text \<open>
  The operations of Rust's standard library on strings and numbers that the program uses:
  \<open>trim\<close>, \<open>split\<close>, \<open>split_whitespace\<close>, \<open>lines\<close>, \<open>strip_prefix\<close>, \<open>find\<close>,
  \<open>join\<close>, decimal \<open>Display\<close> and \<open>FromStr\<close> of the integer types, UTF-8 validation
  (\<open>String::from_utf8\<close>) and lossy decoding (\<open>String::from_utf8_lossy\<close>).

  A \<open>str\<close> is the list of its UTF-8 bytes. Whitespace is ASCII whitespace: the code points
  outside ASCII that Rust's \<open>char::is_whitespace\<close> also accepts (U+0085, U+00A0, U+1680 and
  the U+2000 block) are not recognised as such here.
\<close>

section \<open>Splitting and trimming\<close>

definition is_ws :: "char \<Rightarrow> bool" where
  "is_ws c \<longleftrightarrow> (let n = (of_char c :: nat) in n = 32 \<or> (9 \<le> n \<and> n \<le> 13))"

definition trim_start :: "string \<Rightarrow> string" where
  "trim_start s = dropWhile is_ws s"

definition trim_end :: "string \<Rightarrow> string" where
  "trim_end s = rev (dropWhile is_ws (rev s))"

definition trim :: "string \<Rightarrow> string" where
  "trim s = trim_end (trim_start s)"

text \<open>\<open>str::split\<close> with a predicate on the separator; the empty string gives one empty piece.\<close>

fun split_by :: "(char \<Rightarrow> bool) \<Rightarrow> string \<Rightarrow> string list" where
  "split_by p [] = [[]]"
| "split_by p (c # s) =
     (if p c then [] # split_by p s
      else (case split_by p s of [] \<Rightarrow> [[c]] | w # ws \<Rightarrow> (c # w) # ws))"

abbreviation split_char :: "char \<Rightarrow> string \<Rightarrow> string list" where
  "split_char d \<equiv> split_by (\<lambda>c. c = d)"

definition split_whitespace :: "string \<Rightarrow> string list" where
  "split_whitespace s = filter (\<lambda>w. w \<noteq> []) (split_by is_ws s)"

definition newline :: char where
  "newline = CHR 0x0A"

definition strip_cr :: "string \<Rightarrow> string" where
  "strip_cr l = (if l \<noteq> [] \<and> last l = CHR 0x0D then butlast l else l)"

text \<open>\<open>str::lines\<close>: no line for the text after a final newline, one trailing CR removed.\<close>

definition lines :: "string \<Rightarrow> string list" where
  "lines s = (let ps = split_char newline s in
     map strip_cr (if last ps = [] then butlast ps else ps))"

definition strip_prefix :: "string \<Rightarrow> string \<Rightarrow> string option" where
  "strip_prefix p s = (if take (length p) s = p then Some (drop (length p) s) else None)"

definition starts_with :: "string \<Rightarrow> string \<Rightarrow> bool" where
  "starts_with p s \<longleftrightarrow> take (length p) s = p"

text \<open>\<open>str::find\<close>: the first position where the pattern starts.\<close>

fun find_str :: "string \<Rightarrow> string \<Rightarrow> nat option" where
  "find_str p [] = (if p = [] then Some 0 else None)"
| "find_str p (c # s) =
     (if starts_with p (c # s) then Some 0 else map_option Suc (find_str p s))"

text \<open>\<open>str::split_once\<close> at a character.\<close>

definition split_once :: "char \<Rightarrow> string \<Rightarrow> (string \<times> string) option" where
  "split_once d s =
     (if d \<in> set s
      then Some (takeWhile (\<lambda>c. c \<noteq> d) s, tl (dropWhile (\<lambda>c. c \<noteq> d) s))
      else None)"

fun join :: "string \<Rightarrow> string list \<Rightarrow> string" where
  "join sep [] = []"
| "join sep [w] = w"
| "join sep (w # ws) = w @ sep @ join sep ws"

definition squoted :: "string \<Rightarrow> string" where
  "squoted s = CHR 0x27 # s @ [CHR 0x27]"

definition trim_end_matches :: "char \<Rightarrow> string \<Rightarrow> string" where
  "trim_end_matches d s = rev (dropWhile (\<lambda>c. c = d) (rev s))"

section \<open>Numbers\<close>

definition digit_char :: "nat \<Rightarrow> char" where
  "digit_char d = char_of (48 + d)"

fun dec :: "nat \<Rightarrow> string" where
  "dec n = (if n < 10 then [digit_char n] else dec (n div 10) @ [digit_char (n mod 10)])"

declare dec.simps [simp del]

definition dec_int :: "int \<Rightarrow> string" where
  "dec_int i = (if i < 0 then CHR ''-'' # dec (nat (- i)) else dec (nat i))"

text \<open>The value of a digit in the given radix, as \<open>char::to_digit\<close>.\<close>

definition to_digit :: "nat \<Rightarrow> char \<Rightarrow> nat option" where
  "to_digit radix c =
     (let n = (of_char c :: nat);
          d = (if 48 \<le> n \<and> n \<le> 57 then n - 48
               else if 97 \<le> n \<and> n \<le> 122 then n - 87
               else if 65 \<le> n \<and> n \<le> 90 then n - 55
               else radix)
      in if d < radix then Some d else None)"

fun digits_val :: "nat \<Rightarrow> nat \<Rightarrow> string \<Rightarrow> nat option" where
  "digits_val radix acc [] = Some acc"
| "digits_val radix acc (c # s) =
     (case to_digit radix c of
        None \<Rightarrow> None
      | Some d \<Rightarrow> digits_val radix (radix * acc + d) s)"

definition strip_plus :: "string \<Rightarrow> string" where
  "strip_plus s = (case s of c # t \<Rightarrow> if c = CHR ''+'' then t else s | [] \<Rightarrow> [])"

text \<open>\<open>FromStr\<close> of an unsigned integer type with the given greatest value.\<close>

definition parse_uint :: "nat \<Rightarrow> string \<Rightarrow> nat option" where
  "parse_uint hi s =
     (let t = strip_plus s in
      if t = [] then None
      else case digits_val 10 0 t of
             None \<Rightarrow> None
           | Some n \<Rightarrow> if n \<le> hi then Some n else None)"

text \<open>\<open>FromStr\<close> of a signed integer type with the given bounds.\<close>

definition parse_sint :: "int \<Rightarrow> int \<Rightarrow> string \<Rightarrow> int option" where
  "parse_sint lo hi s =
     (let neg = (s \<noteq> [] \<and> hd s = CHR ''-'');
          t = (if neg then tl s else strip_plus s) in
      if t = [] then None
      else case digits_val 10 0 t of
             None \<Rightarrow> None
           | Some n \<Rightarrow> (let i = (if neg then - int n else int n) in
                        if lo \<le> i \<and> i \<le> hi then Some i else None))"

abbreviation u8_max :: nat where "u8_max \<equiv> 255"
abbreviation u32_max :: nat where "u32_max \<equiv> 2 ^ 32 - 1"
abbreviation u64_max :: nat where "u64_max \<equiv> 2 ^ 64 - 1"

definition parse_i64 :: "string \<Rightarrow> int option" where
  "parse_i64 s = parse_sint (- (2 ^ 63)) (2 ^ 63 - 1) s"

definition is_ascii_digit :: "char \<Rightarrow> bool" where
  "is_ascii_digit c \<longleftrightarrow> (let n = (of_char c :: nat) in 48 \<le> n \<and> n \<le> 57)"

definition is_ascii_alphanumeric :: "char \<Rightarrow> bool" where
  "is_ascii_alphanumeric c \<longleftrightarrow> (let n = (of_char c :: nat) in
     (48 \<le> n \<and> n \<le> 57) \<or> (65 \<le> n \<and> n \<le> 90) \<or> (97 \<le> n \<and> n \<le> 122))"

definition is_ascii_hexdigit :: "char \<Rightarrow> bool" where
  "is_ascii_hexdigit c \<longleftrightarrow> (let n = (of_char c :: nat) in
     (48 \<le> n \<and> n \<le> 57) \<or> (65 \<le> n \<and> n \<le> 70) \<or> (97 \<le> n \<and> n \<le> 102))"

section \<open>UTF-8\<close>

definition cont_byte :: "nat \<Rightarrow> nat \<Rightarrow> string \<Rightarrow> bool" where
  "cont_byte lo hi s \<longleftrightarrow> (case s of [] \<Rightarrow> False | c # _ \<Rightarrow>
     (let n = (of_char c :: nat) in lo \<le> n \<and> n \<le> hi))"

text \<open>
  The next chunk of a byte string that starts with the given lead byte: its number of bytes
  after the lead, and whether it is a valid code point. An invalid chunk is the longest
  prefix of a valid one, which \<open>from_utf8_lossy\<close> replaces by one replacement character.
\<close>

definition utf8_chunk :: "nat \<Rightarrow> string \<Rightarrow> nat \<times> bool" where
  "utf8_chunk b s =
     (if b < 0x80 then (0, True)
      else if 0xC2 \<le> b \<and> b \<le> 0xDF then
        (if cont_byte 0x80 0xBF s then (1, True) else (0, False))
      else if 0xE0 \<le> b \<and> b \<le> 0xEF then
        (let lo = (if b = 0xE0 then 0xA0 else 0x80); hi = (if b = 0xED then 0x9F else 0xBF) in
         if \<not> cont_byte lo hi s then (0, False)
         else if \<not> cont_byte 0x80 0xBF (drop 1 s) then (1, False)
         else (2, True))
      else if 0xF0 \<le> b \<and> b \<le> 0xF4 then
        (let lo = (if b = 0xF0 then 0x90 else 0x80); hi = (if b = 0xF4 then 0x8F else 0xBF) in
         if \<not> cont_byte lo hi s then (0, False)
         else if \<not> cont_byte 0x80 0xBF (drop 1 s) then (1, False)
         else if \<not> cont_byte 0x80 0xBF (drop 2 s) then (2, False)
         else (3, True))
      else (0, False))"

definition replacement_char :: string where
  "replacement_char = [CHR 0xEF, CHR 0xBF, CHR 0xBD]"

function utf8_valid :: "string \<Rightarrow> bool" where
  "utf8_valid [] = True"
| "utf8_valid (c # s) =
     (case utf8_chunk (of_char c) s of (k, ok) \<Rightarrow> ok \<and> utf8_valid (drop k s))"
  by pat_completeness auto
termination
  by (relation "measure length") auto

function from_utf8_lossy :: "string \<Rightarrow> string" where
  "from_utf8_lossy [] = []"
| "from_utf8_lossy (c # s) =
     (case utf8_chunk (of_char c) s of (k, ok) \<Rightarrow>
        (if ok then c # take k s else replacement_char) @ from_utf8_lossy (drop k s))"
  by pat_completeness auto
termination
  by (relation "measure length") auto

text \<open>\<open>chars().take(n)\<close>, collected: the first code points of a string.\<close>

fun take_chars :: "nat \<Rightarrow> string \<Rightarrow> string" where
  "take_chars (Suc n) (c # s) =
     (case utf8_chunk (of_char c) s of (k, _) \<Rightarrow> c # take k s @ take_chars n (drop k s))"
| "take_chars _ _ = []"

lemma take_chars_code [code]:
  "take_chars n s = (if n = 0 then [] else case s of [] \<Rightarrow> []
     | c # s' \<Rightarrow> (case utf8_chunk (of_char c) s' of (k, _) \<Rightarrow> c # take k s' @ take_chars (n - 1) (drop k s')))"
  by (cases n; cases s) simp_all

text \<open>\<open>chars().count()\<close>.\<close>

function count_chars :: "string \<Rightarrow> nat" where
  "count_chars [] = 0"
| "count_chars (c # s) = (case utf8_chunk (of_char c) s of (k, _) \<Rightarrow> Suc (count_chars (drop k s)))"
  by pat_completeness auto
termination
  by (relation "measure length") auto

definition from_utf8 :: "bytes \<Rightarrow> string option" where
  "from_utf8 bs = (if utf8_valid bs then Some bs else None)"

section \<open>Lemmas\<close>

lemma strip_prefix_append [simp, str_simps]: "strip_prefix p (p @ s) = Some s"
  by (simp add: strip_prefix_def)

lemma strip_prefix_eq_Some [str_simps]: "strip_prefix p s = Some t \<longleftrightarrow> s = p @ t"
  by (auto simp: strip_prefix_def) (metis append_take_drop_id)

lemma split_by_not_Nil [simp]: "split_by p s \<noteq> []"
  by (induction s) (auto split: list.splits)

lemma split_by_pieces: "w \<in> set (split_by p s) \<Longrightarrow> c \<in> set w \<Longrightarrow> c \<in> set s \<and> \<not> p c"
proof (induction s arbitrary: w)
  case Nil
  then show ?case by simp
next
  case (Cons a s)
  show ?case
  proof (cases "p a")
    case True
    with Cons show ?thesis by auto
  next
    case False
    obtain v vs where v: "split_by p s = v # vs"
      by (cases "split_by p s") auto
    with False Cons.prems have "w = a # v \<or> w \<in> set vs" by auto
    then show ?thesis
      using Cons.IH [of v] Cons.IH [of w] Cons.prems False v by auto
  qed
qed

lemma split_by_no_sep: "(\<And>c. c \<in> set s \<Longrightarrow> \<not> p c) \<Longrightarrow> split_by p s = [s]"
  by (induction s) (auto split: list.splits)

lemma split_by_append:
  "(\<And>c. c \<in> set w \<Longrightarrow> \<not> p c) \<Longrightarrow> p d \<Longrightarrow> split_by p (w @ d # s) = w # split_by p s"
  by (induction w) auto

lemma split_once_eq_Some: "split_once d s = Some (a, b) \<longleftrightarrow> s = a @ d # b \<and> d \<notin> set a"
proof
  assume "split_once d s = Some (a, b)"
  then have ab: "d \<in> set s" "a = takeWhile (\<lambda>c. c \<noteq> d) s" "b = tl (dropWhile (\<lambda>c. c \<noteq> d) s)"
    by (auto simp: split_once_def split: if_splits)
  then have "dropWhile (\<lambda>c. c \<noteq> d) s \<noteq> []" by simp
  then have "dropWhile (\<lambda>c. c \<noteq> d) s = d # b"
    using hd_dropWhile [of "\<lambda>c. c \<noteq> d" s] ab(3) by (cases "dropWhile (\<lambda>c. c \<noteq> d) s") auto
  then show "s = a @ d # b \<and> d \<notin> set a"
    using ab(2) takeWhile_dropWhile_id [of "\<lambda>c. c \<noteq> d" s] by (auto dest: set_takeWhileD)
next
  assume "s = a @ d # b \<and> d \<notin> set a"
  then show "split_once d s = Some (a, b)"
    by (simp add: split_once_def takeWhile_dropWhile_notin)
qed

lemma set_trim: "set (trim s) \<subseteq> set s"
proof -
  have "set (dropWhile is_ws xs) \<subseteq> set xs" for xs
    by (auto dest: set_dropWhileD)
  then have "set (dropWhile is_ws (rev (dropWhile is_ws s))) \<subseteq> set s"
    by (metis order_trans set_rev)
  then show ?thesis
    by (simp add: trim_def trim_end_def trim_start_def)
qed

lemma trim_no_ws: "(\<And>c. c \<in> set s \<Longrightarrow> \<not> is_ws c) \<Longrightarrow> trim s = s"
proof -
  assume a: "\<And>c. c \<in> set s \<Longrightarrow> \<not> is_ws c"
  have d: "dropWhile is_ws xs = xs" if "\<And>c. c \<in> set xs \<Longrightarrow> \<not> is_ws c" for xs
    using that by (cases xs) auto
  from a have "dropWhile is_ws s = s" "dropWhile is_ws (rev s) = rev s"
    by (auto intro!: d)
  then show ?thesis by (simp add: trim_def trim_end_def trim_start_def)
qed

lemma of_char_digit_char [simp]: "d < 10 \<Longrightarrow> (of_char (digit_char d) :: nat) = 48 + d"
  by (simp add: digit_char_def)

lemma to_digit_digit_char [simp]: "d < 10 \<Longrightarrow> d < r \<Longrightarrow> to_digit r (digit_char d) = Some d"
  by (simp add: to_digit_def)

lemma dec_ne [simp]: "dec n \<noteq> []"
  by (subst dec.simps) simp

lemma dec_chars: "c \<in> set (dec n) \<Longrightarrow> \<exists>d < 10. c = digit_char d"
proof (induction n rule: dec.induct)
  case (1 n)
  show ?case
  proof (cases "n < 10")
    case True
    with "1.prems" show ?thesis by (auto simp: dec.simps [of n])
  next
    case False
    have "n mod 10 < 10" by simp
    with False 1 show ?thesis
      by (auto simp: dec.simps [of n] intro: exI [of _ "n mod 10"])
  qed
qed

lemma dec_digits: "c \<in> set (dec n) \<Longrightarrow> is_ascii_digit c"
  by (auto dest!: dec_chars simp: is_ascii_digit_def)

lemma digits_val_append:
  "digits_val r acc (s @ t) =
     (case digits_val r acc s of None \<Rightarrow> None | Some a \<Rightarrow> digits_val r a t)"
  by (induction s arbitrary: acc) (auto split: option.splits)

lemma digits_val_dec: "digits_val 10 acc (dec n) = Some (acc * 10 ^ length (dec n) + n)"
proof (induction n arbitrary: acc rule: dec.induct)
  case (1 n)
  show ?case
  proof (cases "n < 10")
    case True
    then show ?thesis by (simp add: dec.simps [of n])
  next
    case False
    have "n mod 10 < 10" by simp
    with False 1 show ?thesis
      by (simp add: dec.simps [of n] digits_val_append algebra_simps)
  qed
qed

lemma hd_dec_digit: "\<exists>d < 10. hd (dec n) = digit_char d"
  using dec_chars [of "hd (dec n)" n] by simp

lemma digit_char_neq:
  "d < 10 \<Longrightarrow> digit_char d \<noteq> CHR ''+''" "d < 10 \<Longrightarrow> digit_char d \<noteq> CHR ''-''"
  "d < 10 \<Longrightarrow> digit_char d \<noteq> CHR ''.''" "d < 10 \<Longrightarrow> digit_char d \<noteq> CHR ''/''"
  "d < 10 \<Longrightarrow> digit_char d \<noteq> CHR '':''"
  by (auto dest: arg_cong [where f = "of_char :: char \<Rightarrow> nat"])

lemma strip_plus_dec [simp]: "strip_plus (dec n) = dec n"
  using hd_dec_digit [of n]
  by (cases "dec n") (auto simp: strip_plus_def dest: digit_char_neq(1))

lemma parse_uint_dec [str_simps]: "n \<le> hi \<Longrightarrow> parse_uint hi (dec n) = Some n"
  by (simp add: parse_uint_def digits_val_dec)

lemma parse_uint_le: "parse_uint hi s = Some n \<Longrightarrow> n \<le> hi"
  by (auto simp: parse_uint_def Let_def split: if_splits option.splits)

lemma to_digit10_Some: "to_digit 10 c = Some d \<Longrightarrow> is_ascii_digit c"
  by (auto simp: to_digit_def is_ascii_digit_def Let_def split: if_splits)

lemma digits_val10_chars: "digits_val 10 acc s = Some n \<Longrightarrow> c \<in> set s \<Longrightarrow> is_ascii_digit c"
  by (induction s arbitrary: acc) (auto dest: to_digit10_Some split: option.splits)

lemma parse_sint_chars:
  assumes "parse_sint lo hi s = Some i" and "c \<in> set s"
  shows "is_ascii_digit c \<or> c = CHR ''+'' \<or> c = CHR ''-''"
proof -
  have "set s \<subseteq> insert (CHR ''+'') (insert (CHR ''-'') (set (if s \<noteq> [] \<and> hd s = CHR ''-'' then tl s else strip_plus s)))"
    by (cases s) (auto simp: strip_plus_def)
  then show ?thesis
    using assms digits_val10_chars
    by (auto simp: parse_sint_def Let_def split: if_splits option.splits)
qed

lemma parse_sint_bounds: "parse_sint lo hi s = Some i \<Longrightarrow> lo \<le> i \<and> i \<le> hi"
  by (auto simp: parse_sint_def Let_def split: if_splits option.splits)

text \<open>The lossy decoding of a valid string is the string, and every lossy decoding is valid.\<close>

lemma utf8_chunk_len: "utf8_chunk b s = (k, ok) \<Longrightarrow> k \<le> length s"
  by (cases s; cases "tl s"; cases "tl (tl s)")
     (auto simp: utf8_chunk_def cont_byte_def Let_def split: if_splits)

lemma from_utf8_lossy_valid: "utf8_valid s \<Longrightarrow> from_utf8_lossy s = s"
  by (induction s rule: utf8_valid.induct) (auto split: prod.splits)

lemma ascii_utf8_valid: "(\<And>c. c \<in> set s \<Longrightarrow> (of_char c :: nat) < 128) \<Longrightarrow> utf8_valid s"
  by (induction s) (auto simp: utf8_chunk_def)

end
