(* ===== verification/Retry.thy ===== *)
theory Retry
  imports Text
begin

text \<open>
  \<open>src/retry.rs\<close>, and the retry loop that \<open>client.rs\<close> and \<open>jobs/external_ingestion.rs\<close>
  wrap around a single attempt. The world outside the process (the remote hosts, the clocks, the
  random generator) is a type variable \<open>'w\<close>; an attempt is a function of the world that
  returns its result and the world it leaves. \<open>world_ops\<close> holds the operations that
  reach it.
\<close>

section \<open>The outside world\<close>

record http_request =
  req_method :: string
  req_url :: string
  req_headers :: "(string \<times> string) list"
  req_body :: bytes

text \<open>
  A response: its status, its text (\<open>None\<close> when reading it fails), and the chunks of its
  body as they arrive, the last of which may be a failed read.
\<close>

record http_response =
  resp_status :: nat
  resp_content_length :: "nat option"
  resp_chunks :: "(string + bytes) list"

record 'w world_ops =
  http_send :: "http_request \<Rightarrow> 'w \<Rightarrow> (string + http_response) \<times> 'w"
  utc_now :: "'w \<Rightarrow> instant"
  monotonic_now :: "'w \<Rightarrow> instant"
  sleep :: "nat \<Rightarrow> 'w \<Rightarrow> 'w"
  random_range :: "nat \<Rightarrow> 'w \<Rightarrow> nat \<times> 'w"

definition timestamp :: "instant \<Rightarrow> int" where
  "timestamp t = t div 1000"

definition is_success :: "nat \<Rightarrow> bool" where
  "is_success status \<longleftrightarrow> 200 \<le> status \<and> status < 300"

fun whole_body :: "(string + bytes) list \<Rightarrow> string + bytes" where
  "whole_body [] = Inr []"
| "whole_body (Inl e # _) = Inl e"
| "whole_body (Inr b # cs) = ebind (whole_body cs) (\<lambda>r. Inr (b @ r))"

definition text_or_default :: "http_response \<Rightarrow> string" where
  "text_or_default r = (case whole_body (resp_chunks r) of Inl _ \<Rightarrow> [] | Inr b \<Rightarrow> from_utf8_lossy b)"

text \<open>The tuning values of \<open>config.rs\<close> the loops read.\<close>

record retry_config =
  outbound_max_retries :: nat
  outbound_retry_backoff_ms :: nat

section \<open>The code\<close>

definition is_transient_status :: "nat \<Rightarrow> bool" where
  "is_transient_status status \<longleftrightarrow> status = 429 \<or> status = 502 \<or> status = 503 \<or> status = 504"

text \<open>\<open>Duration::MAX\<close>, in whole milliseconds, where \<open>saturating_mul\<close> stops.\<close>

definition duration_max_ms :: nat where
  "duration_max_ms = (2 ^ 64 - 1) * 1000 + 999"

definition backoff_capped :: "retry_config \<Rightarrow> nat \<Rightarrow> nat" where
  "backoff_capped cfg attempt =
     (let shift = min (attempt - 1) 10;
          multiplier = (if 2 ^ shift \<le> u32_max then 2 ^ shift else u32_max);
          exp = min (outbound_retry_backoff_ms cfg * multiplier) duration_max_ms
      in min exp 30000)"

definition backoff_with_jitter :: "'w world_ops \<Rightarrow> retry_config \<Rightarrow> nat \<Rightarrow> 'w \<Rightarrow> nat \<times> 'w" where
  "backoff_with_jitter env cfg attempt w =
     (let capped = backoff_capped cfg attempt;
          jitter_ceiling_ms = max (capped div 2) 1
      in case random_range env jitter_ceiling_ms w of (jitter_ms, w') \<Rightarrow> (capped + jitter_ms, w'))"

text \<open>
  The loop: \<open>status_of\<close> picks the status out of an error that carries one. An attempt that
  fails with a transient status is followed by a sleep and another attempt, at most
  \<open>outbound_max_retries\<close> times.
\<close>

function retry_loop ::
  "'w world_ops \<Rightarrow> retry_config \<Rightarrow> ('e \<Rightarrow> nat option) \<Rightarrow> ('w \<Rightarrow> ('e + 'a) \<times> 'w) \<Rightarrow> nat \<Rightarrow> 'w \<Rightarrow> ('e + 'a) \<times> 'w"
where
  "retry_loop env cfg status_of once attempt w =
     (case once w of
        (Inr r, w1) \<Rightarrow> (Inr r, w1)
      | (Inl e, w1) \<Rightarrow>
          if (\<exists>s \<in> set_option (status_of e). is_transient_status s) \<and> attempt < outbound_max_retries cfg
          then case backoff_with_jitter env cfg (attempt + 1) w1 of (delay, w2) \<Rightarrow>
                 retry_loop env cfg status_of once (attempt + 1) (sleep env delay w2)
          else (Inl e, w1))"
  by pat_completeness auto
termination
  by (relation "measure (\<lambda>(env, cfg, st, once, attempt, w). outbound_max_retries cfg - attempt)") auto

declare retry_loop.simps [simp del]

section \<open>Lemmas\<close>

lemma backoff_capped_le: "backoff_capped cfg attempt \<le> 30000"
  by (simp add: backoff_capped_def Let_def)

lemma backoff_capped_mono:
  assumes "m \<le> n" shows "backoff_capped cfg m \<le> backoff_capped cfg n"
proof -
  have s: "min (m - 1) 10 \<le> min (n - 1) (10::nat)" using assms by auto
  have p: "(2::nat) ^ min (k - 1) 10 \<le> 2 ^ 10" for k by (rule power_increasing) auto
  have "(2::nat) ^ min (m - 1) 10 \<le> 2 ^ min (n - 1) 10" using s by (rule power_increasing) simp
  moreover have "(2::nat) ^ min (k - 1) 10 \<le> u32_max" for k using p [of k] by simp
  ultimately show ?thesis
    by (auto simp: backoff_capped_def Let_def min_le_iff_disj intro!: min.mono mult_le_mono)
qed

lemma backoff_capped_first:
  assumes "outbound_retry_backoff_ms cfg \<le> 30000"
  shows "outbound_retry_backoff_ms cfg \<le> backoff_capped cfg attempt"
proof -
  have "outbound_retry_backoff_ms cfg \<le> backoff_capped cfg 0"
    using assms by (simp add: backoff_capped_def duration_max_ms_def)
  also have "\<dots> \<le> backoff_capped cfg attempt"
    by (rule backoff_capped_mono) simp
  finally show ?thesis .
qed

text \<open>
  What one attempt keeps, and a backoff keeps, the loop keeps: the rule behind every statement
  about a retried operation.
\<close>

lemma retry_loop_induct:
  assumes once: "\<And>w r w1. P w \<Longrightarrow> once w = (Inr r, w1) \<Longrightarrow> Q r w1"
    and fail: "\<And>w e w1. P w \<Longrightarrow> once w = (Inl e, w1) \<Longrightarrow> R e w1"
    and slept: "\<And>w e w1 k d w2. P w \<Longrightarrow> once w = (Inl e, w1) \<Longrightarrow>
        backoff_with_jitter env cfg k w1 = (d, w2) \<Longrightarrow> P (sleep env d w2)"
    and "P w"
  shows "case retry_loop env cfg st once attempt w of (Inr r, w') \<Rightarrow> Q r w' | (Inl e, w') \<Rightarrow> R e w'"
  using assms(4)
proof (induction "outbound_max_retries cfg - attempt" arbitrary: attempt w rule: less_induct)
  case less
  obtain x w1 where o: "once w = (x, w1)" by fastforce
  obtain d w2 where b: "backoff_with_jitter env cfg (attempt + 1) w1 = (d, w2)" by fastforce
  show ?case
  proof (cases x)
    case (Inl e)
    show ?thesis
    proof (cases "(\<exists>s \<in> set_option (st e). is_transient_status s) \<and> attempt < outbound_max_retries cfg")
      case True
      then have "case retry_loop env cfg st once (attempt + 1) (sleep env d w2) of
          (Inr r, w') \<Rightarrow> Q r w' | (Inl e, w') \<Rightarrow> R e w'"
        using less.prems o Inl b by (intro less.hyps) (auto intro: slept)
      then show ?thesis
        using True Inl o b by (subst retry_loop.simps) simp
    next
      case False
      then show ?thesis
        using Inl o fail less.prems by (subst retry_loop.simps) auto
    qed
  next
    case (Inr r)
    then show ?thesis
      using o once less.prems by (subst retry_loop.simps) auto
  qed
qed

text \<open>The worlds in which the attempts of the loop are made.\<close>

fun attempt_world :: "'w world_ops \<Rightarrow> retry_config \<Rightarrow> ('w \<Rightarrow> ('e + 'a) \<times> 'w) \<Rightarrow> nat \<Rightarrow> nat \<Rightarrow> 'w \<Rightarrow> 'w" where
  "attempt_world env cfg once a 0 w = w"
| "attempt_world env cfg once a (Suc k) w =
     (case backoff_with_jitter env cfg (a + 1) (snd (once w)) of (delay, w2) \<Rightarrow>
        attempt_world env cfg once (a + 1) k (sleep env delay w2))"

definition transient_failure :: "('e \<Rightarrow> nat option) \<Rightarrow> ('e + 'a) \<times> 'w \<Rightarrow> bool" where
  "transient_failure st r \<longleftrightarrow>
     (case fst r of Inr _ \<Rightarrow> False | Inl e \<Rightarrow> \<exists>s \<in> set_option (st e). is_transient_status s)"

lemma retry_loop_step:
  "retry_loop env cfg st once a w =
     (if transient_failure st (once w) \<and> a < outbound_max_retries cfg
      then retry_loop env cfg st once (a + 1) (attempt_world env cfg once a 1 w)
      else once w)"
  by (subst retry_loop.simps)
    (auto simp: transient_failure_def split: sum.splits prod.splits)

lemma retry_loop_once:
  "\<not> transient_failure st (once w) \<Longrightarrow> retry_loop env cfg st once a w = once w"
  by (subst retry_loop_step) simp

lemma retry_loop_attempts:
  "\<exists>k. a + k \<le> max a (outbound_max_retries cfg)
     \<and> retry_loop env cfg st once a w = once (attempt_world env cfg once a k w)
     \<and> (\<forall>j < k. transient_failure st (once (attempt_world env cfg once a j w)))
     \<and> (transient_failure st (once (attempt_world env cfg once a k w)) \<longrightarrow>
          a + k = max a (outbound_max_retries cfg))"
proof (induction "outbound_max_retries cfg - a" arbitrary: a w)
  case 0
  then show ?case
    by (intro exI [of _ 0]) (simp add: retry_loop_step [of _ _ _ _ a])
next
  case (Suc n)
  show ?case
  proof (cases "transient_failure st (once w)")
    case False
    then show ?thesis
      by (intro exI [of _ 0]) (simp add: retry_loop_step [of _ _ _ _ a])
  next
    case True
    let ?w = "attempt_world env cfg once a 1 w"
    have n: "n = outbound_max_retries cfg - (a + 1)" using Suc.hyps(2) by simp
    obtain k where k: "a + 1 + k \<le> max (a + 1) (outbound_max_retries cfg)"
      "retry_loop env cfg st once (a + 1) ?w = once (attempt_world env cfg once (a + 1) k ?w)"
      "\<forall>j < k. transient_failure st (once (attempt_world env cfg once (a + 1) j ?w))"
      "transient_failure st (once (attempt_world env cfg once (a + 1) k ?w)) \<longrightarrow>
          a + 1 + k = max (a + 1) (outbound_max_retries cfg)"
      using Suc.hyps(1) [OF n] by blast
    have shift: "attempt_world env cfg once (a + 1) j ?w = attempt_world env cfg once a (Suc j) w" for j
      by (simp split: prod.splits)
    have "retry_loop env cfg st once a w = once (attempt_world env cfg once a (Suc k) w)"
    proof -
      have "a < outbound_max_retries cfg" using Suc.hyps(2) by simp
      with True k(2) show ?thesis unfolding shift by (subst retry_loop_step) simp
    qed
    moreover have "\<forall>j < Suc k. transient_failure st (once (attempt_world env cfg once a j w))"
      using True k(3) unfolding shift by (auto simp: All_less_Suc2 simp del: attempt_world.simps(2))
    ultimately show ?thesis
      using k(1,4) Suc.hyps(2) unfolding shift by (intro exI [of _ "Suc k"]) auto
  qed
qed

section \<open>Properties\<close>

text \<open>
  The delay before a retry is at most 45 seconds whatever the configured base and the
  attempt number, at least the configured base (when that is at most 30 seconds), and its
  part without jitter never shrinks from one attempt to the next.
\<close>

theorem backoff_bounds:
  assumes "\<And>c w. fst (random_range env c w) \<le> c"
  shows "fst (backoff_with_jitter env cfg attempt w) \<le> 45000
    \<and> (outbound_retry_backoff_ms cfg \<le> 30000 \<longrightarrow>
         outbound_retry_backoff_ms cfg \<le> fst (backoff_with_jitter env cfg attempt w))
    \<and> (m \<le> n \<longrightarrow> backoff_capped cfg m \<le> backoff_capped cfg n)"
proof (intro conjI impI)
  let ?c = "backoff_capped cfg attempt"
  have "fst (random_range env (max (?c div 2) 1) w) \<le> max (?c div 2) 1" by (rule assms)
  then show "fst (backoff_with_jitter env cfg attempt w) \<le> 45000"
    using backoff_capped_le [of cfg attempt]
    by (auto simp: backoff_with_jitter_def Let_def split: prod.splits)
  show "outbound_retry_backoff_ms cfg \<le> fst (backoff_with_jitter env cfg attempt w)"
    if "outbound_retry_backoff_ms cfg \<le> 30000"
    using backoff_capped_first [OF that, of attempt]
    by (auto simp: backoff_with_jitter_def Let_def split: prod.splits)
  show "backoff_capped cfg m \<le> backoff_capped cfg n" if "m \<le> n"
    using backoff_capped_mono [OF that] .
qed

definition still_world :: "unit world_ops" where
  "still_world = \<lparr>http_send = (\<lambda>_ w. (Inl ''offline'', w)), utc_now = (\<lambda>_. 0), monotonic_now = (\<lambda>_. 0),
     sleep = (\<lambda>_ w. w), random_range = (\<lambda>c w. (c div 3, w))\<rparr>"

theorem backoff_bounds_witness:
  "500 \<le> fst (backoff_with_jitter still_world \<lparr>outbound_max_retries = 3, outbound_retry_backoff_ms = 500\<rparr> 50 ())
   \<and> fst (backoff_with_jitter still_world \<lparr>outbound_max_retries = 3, outbound_retry_backoff_ms = 500\<rparr> 50 ()) \<le> 45000
   \<and> backoff_capped \<lparr>outbound_max_retries = 3, outbound_retry_backoff_ms = 500\<rparr> 1
     \<le> backoff_capped \<lparr>outbound_max_retries = 3, outbound_retry_backoff_ms = 500\<rparr> 2"
proof -
  let ?cfg = "\<lparr>outbound_max_retries = 3, outbound_retry_backoff_ms = 500\<rparr>"
  have r: "fst (random_range still_world c w) \<le> c" for c w
    by (simp add: still_world_def)
  show ?thesis
    using backoff_bounds [OF r, of ?cfg 50 "()" 1 2] by simp
qed

text \<open>
  C15. The retry loop always returns: it makes at most one attempt more than the configured
  number of retries, every attempt but the last failed with a transient status (429, 502, 503
  or 504), its result is the result of the last attempt, and it gives up on a transient failure
  only when the retries are used up.
\<close>

theorem retry_loop_bounded:
  "\<exists>k \<le> outbound_max_retries cfg.
     retry_loop env cfg st once 0 w = once (attempt_world env cfg once 0 k w)
     \<and> (\<forall>j. j < k \<longrightarrow> transient_failure st (once (attempt_world env cfg once 0 j w)))
     \<and> (transient_failure st (once (attempt_world env cfg once 0 k w)) \<longrightarrow> k = outbound_max_retries cfg)"
  using retry_loop_attempts [of 0 cfg env st once w] by auto

theorem retry_loop_bounded_witness:
  "\<exists>k \<le> 2. retry_loop still_world \<lparr>outbound_max_retries = 2, outbound_retry_backoff_ms = 1\<rparr>
      Some (\<lambda>w. (Inl 503 :: nat + unit, w)) 0 () = (Inl 503, ()) \<and> k = (2 :: nat)"
  using retry_loop_bounded [of "\<lparr>outbound_max_retries = 2, outbound_retry_backoff_ms = 1\<rparr>" still_world
      Some "\<lambda>w. (Inl 503 :: nat + unit, w)" "()"]
  by (auto simp: transient_failure_def is_transient_status_def)

end
