(* ===== verification/IpAddr.thy ===== *)
theory IpAddr
  imports Text
begin

text \<open>
  \<open>std::net::IpAddr\<close> as the program uses it: the two address families over 32- and 128-bit
  words, \<open>FromStr\<close> (the standard library's recursive-descent address parser, with its rules
  on leading zeros, group counts, the double colon and an embedded IPv4 tail), \<open>Display\<close>
  (dotted decimal; RFC 5952 compression with the mapped form printed as \<open>::ffff:a.b.c.d\<close>) and
  \<open>Ipv6Addr::to_ipv4_mapped\<close>. The main lemma is that parsing what was printed gives the
  address back.
\<close>

section \<open>Addresses and their digits\<close>

datatype ip_addr = V4 "32 word" | V6 "128 word"

fun base_digits :: "nat \<Rightarrow> nat \<Rightarrow> nat \<Rightarrow> nat list" where
  "base_digits b 0 n = []"
| "base_digits b (Suc k) n = base_digits b k (n div b) @ [n mod b]"

definition of_digits :: "nat \<Rightarrow> nat list \<Rightarrow> nat" where
  "of_digits b ds = foldl (\<lambda>a d. a * b + d) 0 ds"

definition octets :: "32 word \<Rightarrow> nat list" where
  "octets w = base_digits 256 4 (unat w)"

definition segments :: "128 word \<Rightarrow> nat list" where
  "segments w = base_digits 65536 8 (unat w)"

definition v4_of_octets :: "nat list \<Rightarrow> 32 word" where
  "v4_of_octets ds = of_nat (of_digits 256 ds)"

definition v6_of_segments :: "nat list \<Rightarrow> 128 word" where
  "v6_of_segments gs = of_nat (of_digits 65536 gs)"

text \<open>\<open>Ipv6Addr::to_ipv4_mapped\<close>: five zero segments, then \<open>ffff\<close>.\<close>

definition to_ipv4_mapped :: "128 word \<Rightarrow> 32 word option" where
  "to_ipv4_mapped w =
     (if unat w div 2 ^ 32 = 65535 then Some (of_nat (unat w mod 2 ^ 32)) else None)"

section \<open>Parsing\<close>

definition read_char :: "char \<Rightarrow> string \<Rightarrow> string option" where
  "read_char c s = (case s of [] \<Rightarrow> None | d # r \<Rightarrow> if d = c then Some r else None)"

definition read_number :: "nat \<Rightarrow> nat \<Rightarrow> bool \<Rightarrow> nat \<Rightarrow> string \<Rightarrow> (nat \<times> string) option" where
  "read_number radix max_digits allow_zero_prefix hi s =
     (let ds = takeWhile (\<lambda>c. to_digit radix c \<noteq> None) s in
      if ds = [] \<or> max_digits < length ds
         \<or> (\<not> allow_zero_prefix \<and> hd ds = CHR ''0'' \<and> 1 < length ds)
      then None
      else case digits_val radix 0 ds of
             None \<Rightarrow> None
           | Some n \<Rightarrow> if n \<le> hi then Some (n, drop (length ds) s) else None)"

text \<open>\<open>read_separator\<close>: the separator comes first except before the first item.\<close>

definition read_separator ::
  "char \<Rightarrow> nat \<Rightarrow> (string \<Rightarrow> ('a \<times> string) option) \<Rightarrow> string \<Rightarrow> ('a \<times> string) option" where
  "read_separator c i p s =
     (if i = 0 then p s else case read_char c s of None \<Rightarrow> None | Some r \<Rightarrow> p r)"

fun read_octets :: "nat \<Rightarrow> nat \<Rightarrow> string \<Rightarrow> (nat list \<times> string) option" where
  "read_octets 0 i s = Some ([], s)"
| "read_octets (Suc k) i s =
     (case read_separator (CHR ''.'') i (read_number 10 3 False 255) s of
        None \<Rightarrow> None
      | Some (d, r) \<Rightarrow> (case read_octets k (Suc i) r of
            None \<Rightarrow> None
          | Some (ds, r') \<Rightarrow> Some (d # ds, r')))"

definition read_ipv4 :: "string \<Rightarrow> (nat list \<times> string) option" where
  "read_ipv4 s = read_octets 4 0 s"

text \<open>
  \<open>read_groups\<close> with the number of groups still wanted: the groups read, whether they ended
  with an embedded IPv4 address, and the rest of the input.
\<close>

fun read_groups :: "nat \<Rightarrow> nat \<Rightarrow> string \<Rightarrow> nat list \<times> bool \<times> string" where
  "read_groups 0 i s = ([], False, s)"
| "read_groups (Suc n) i s =
     (case (if 0 < n then read_separator (CHR '':'') i read_ipv4 s else None) of
        Some (ds, r) \<Rightarrow> ([of_digits 256 (take 2 ds), of_digits 256 (drop 2 ds)], True, r)
      | None \<Rightarrow>
         (case read_separator (CHR '':'') i (read_number 16 4 True 65535) s of
            None \<Rightarrow> ([], False, s)
          | Some (g, r) \<Rightarrow> (case read_groups n (Suc i) r of (gs, v4, r') \<Rightarrow> (g # gs, v4, r'))))"

definition read_ipv6 :: "string \<Rightarrow> (nat list \<times> string) option" where
  "read_ipv6 s =
     (case read_groups 8 0 s of (hs, v4, r) \<Rightarrow>
        if length hs = 8 then Some (hs, r)
        else if v4 then None
        else case Option.bind (read_char (CHR '':'') r) (read_char (CHR '':'')) of
               None \<Rightarrow> None
             | Some r2 \<Rightarrow>
                (case read_groups (7 - length hs) 0 r2 of (ts, _, r3) \<Rightarrow>
                   Some (hs @ replicate (8 - length hs - length ts) 0 @ ts, r3)))"

definition parse_ip :: "string \<Rightarrow> ip_addr option" where
  "parse_ip s =
     (case read_ipv4 s of
        Some (ds, r) \<Rightarrow> if r = [] then Some (V4 (v4_of_octets ds)) else None
      | None \<Rightarrow>
         (case read_ipv6 s of
            Some (gs, r) \<Rightarrow> if r = [] then Some (V6 (v6_of_segments gs)) else None
          | None \<Rightarrow> None))"

section \<open>Printing\<close>

definition hex_char :: "nat \<Rightarrow> char" where
  "hex_char d = (if d < 10 then digit_char d else char_of (87 + d))"

fun hexs :: "nat \<Rightarrow> string" where
  "hexs n = (if n < 16 then [hex_char n] else hexs (n div 16) @ [hex_char (n mod 16)])"

declare hexs.simps [simp del]

text \<open>The first longest run of zero segments, as the loop of \<open>Display\<close> finds it.\<close>

fun longest_zeros :: "nat \<Rightarrow> nat \<times> nat \<Rightarrow> nat \<times> nat \<Rightarrow> nat list \<Rightarrow> nat \<times> nat" where
  "longest_zeros i cur best [] = best"
| "longest_zeros i cur best (g # gs) =
     (if g = 0 then
        (let cur' = (if snd cur = 0 then (i, 1) else (fst cur, Suc (snd cur))) in
         longest_zeros (Suc i) cur' (if snd best < snd cur' then cur' else best) gs)
      else longest_zeros (Suc i) (0, 0) best gs)"

definition show_ipv4 :: "32 word \<Rightarrow> string" where
  "show_ipv4 w = join ''.'' (map dec (octets w))"

definition show_segments :: "nat list \<Rightarrow> string" where
  "show_segments gs = join '':'' (map hexs gs)"

definition show_ipv6 :: "128 word \<Rightarrow> string" where
  "show_ipv6 w =
     (case to_ipv4_mapped w of
        Some v4 \<Rightarrow> ''::ffff:'' @ show_ipv4 v4
      | None \<Rightarrow>
         (let gs = segments w in
          case longest_zeros 0 (0, 0) (0, 0) gs of (start, len) \<Rightarrow>
            if 1 < len
            then show_segments (take start gs) @ ''::'' @ show_segments (drop (start + len) gs)
            else show_segments gs))"

fun show_ip :: "ip_addr \<Rightarrow> string" where
  "show_ip (V4 w) = show_ipv4 w"
| "show_ip (V6 w) = show_ipv6 w"

section \<open>Digits\<close>

lemma length_base_digits [simp]: "length (base_digits b k n) = k"
  by (induction k arbitrary: n) auto

lemma base_digits_bound: "0 < b \<Longrightarrow> d \<in> set (base_digits b k n) \<Longrightarrow> d < b"
  by (induction k arbitrary: n) auto

lemma of_digits_append: "of_digits b (xs @ [d]) = of_digits b xs * b + d"
  by (simp add: of_digits_def)

lemma of_digits_base_digits: "of_digits b (base_digits b k n) = n mod b ^ k"
proof (induction k arbitrary: n)
  case 0
  then show ?case by (simp add: of_digits_def)
next
  case (Suc k)
  then show ?case
    by (simp add: of_digits_append mod_mult2_eq mult.commute)
qed

lemma v4_of_octets_octets [simp]: "v4_of_octets (octets w) = w"
proof -
  have "unat w < 256 ^ 4" using unsigned_less [of w] by simp
  then show ?thesis by (simp add: v4_of_octets_def octets_def of_digits_base_digits)
qed

lemma v6_of_segments_segments [simp]: "v6_of_segments (segments w) = w"
proof -
  have "unat w < 65536 ^ 8" using unsigned_less [of w] by simp
  then show ?thesis by (simp add: v6_of_segments_def segments_def of_digits_base_digits)
qed

lemma length_octets [simp]: "length (octets w) = 4"
  by (simp add: octets_def)

lemma length_segments [simp]: "length (segments w) = 8"
  by (simp add: segments_def)

lemma octets_bound: "d \<in> set (octets w) \<Longrightarrow> d < 256"
  by (auto simp: octets_def dest: base_digits_bound [rotated])

lemma segments_bound: "g \<in> set (segments w) \<Longrightarrow> g < 65536"
  by (auto simp: segments_def dest: base_digits_bound [rotated])

section \<open>Reading printed numbers\<close>

lemma to_digit_hex_char: "d < 16 \<Longrightarrow> to_digit 16 (hex_char d) = Some d"
  by (auto simp: hex_char_def to_digit_def)

lemma hexs_ne [simp]: "hexs n \<noteq> []"
  by (subst hexs.simps) simp

lemma hexs_chars: "c \<in> set (hexs n) \<Longrightarrow> \<exists>d < 16. c = hex_char d"
proof (induction n rule: hexs.induct)
  case (1 n)
  show ?case
  proof (cases "n < 16")
    case True
    with "1.prems" show ?thesis by (auto simp: hexs.simps [of n])
  next
    case False
    with 1 show ?thesis
      by (auto simp: hexs.simps [of n] intro: exI [of _ "n mod 16"])
  qed
qed

lemma hexs_digit: "c \<in> set (hexs n) \<Longrightarrow> to_digit 16 c \<noteq> None"
  by (auto dest!: hexs_chars simp: to_digit_hex_char)

lemma digits_val_hexs: "digits_val 16 acc (hexs n) = Some (acc * 16 ^ length (hexs n) + n)"
proof (induction n arbitrary: acc rule: hexs.induct)
  case (1 n)
  show ?case
  proof (cases "n < 16")
    case True
    then show ?thesis by (simp add: hexs.simps [of n] to_digit_hex_char)
  next
    case False
    with 1 show ?thesis
      by (simp add: hexs.simps [of n] digits_val_append to_digit_hex_char algebra_simps)
  qed
qed

lemma length_hexs: "n < 16 ^ Suc k \<Longrightarrow> length (hexs n) \<le> Suc k"
proof (induction k arbitrary: n)
  case 0
  then show ?case by (simp add: hexs.simps)
next
  case (Suc k)
  show ?case
  proof (cases "n < 16")
    case True
    then show ?thesis by (simp add: hexs.simps)
  next
    case False
    from Suc.prems have "n div 16 < 16 ^ Suc k" by (simp add: less_mult_imp_div_less)
    with Suc.IH False show ?thesis by (simp add: hexs.simps [of n])
  qed
qed

lemma length_dec: "n < 10 ^ Suc k \<Longrightarrow> length (dec n) \<le> Suc k"
proof (induction k arbitrary: n)
  case 0
  then show ?case by (simp add: dec.simps)
next
  case (Suc k)
  show ?case
  proof (cases "n < 10")
    case True
    then show ?thesis by (simp add: dec.simps)
  next
    case False
    from Suc.prems have "n div 10 < 10 ^ Suc k" by (simp add: less_mult_imp_div_less)
    with Suc.IH False show ?thesis by (simp add: dec.simps [of n])
  qed
qed

lemma hd_dec_zero: "hd (dec n) = CHR ''0'' \<Longrightarrow> length (dec n) = 1"
proof (induction n rule: dec.induct)
  case (1 n)
  show ?case
  proof (cases "n < 10")
    case True
    then show ?thesis by (simp add: dec.simps [of n])
  next
    case False
    with 1 have "length (dec (n div 10)) = 1" "hd (dec (n div 10)) = CHR ''0''"
      by (simp_all add: dec.simps [of n])
    then have "digits_val 10 0 (dec (n div 10)) = Some 0"
      by (cases "dec (n div 10)") (auto simp: to_digit_def)
    with False show ?thesis by (simp add: digits_val_dec)
  qed
qed

text \<open>A printed number followed by something that is no digit is read back.\<close>

definition stops :: "nat \<Rightarrow> string \<Rightarrow> bool" where
  "stops radix r \<longleftrightarrow> r = [] \<or> to_digit radix (hd r) = None"

lemma takeWhile_stops:
  "(\<And>c. c \<in> set w \<Longrightarrow> to_digit radix c \<noteq> None) \<Longrightarrow> stops radix r \<Longrightarrow>
   takeWhile (\<lambda>c. to_digit radix c \<noteq> None) (w @ r) = w"
  by (cases r) (auto simp: stops_def takeWhile_append)

lemma read_number_dec:
  assumes "n < 256" and "stops 10 r"
  shows "read_number 10 3 False 255 (dec n @ r) = Some (n, r)"
proof -
  have d: "to_digit 10 c \<noteq> None" if "c \<in> set (dec n)" for c
    using dec_chars [OF that] by auto
  have "length (dec n) \<le> 3"
    using length_dec [of n 2] assms(1) by simp
  moreover have "\<not> (hd (dec n) = CHR ''0'' \<and> 1 < length (dec n))"
    using hd_dec_zero [of n] by auto
  ultimately show ?thesis
    using assms takeWhile_stops [OF d assms(2)]
    by (simp add: read_number_def Let_def digits_val_dec)
qed

lemma read_number_hexs:
  assumes "n < 65536" and "stops 16 r"
  shows "read_number 16 4 True 65535 (hexs n @ r) = Some (n, r)"
proof -
  have "length (hexs n) \<le> 4"
    using length_hexs [of n 3] assms(1) by simp
  then show ?thesis
    using assms takeWhile_stops [OF hexs_digit assms(2)]
    by (simp add: read_number_def Let_def digits_val_hexs)
qed

section \<open>IPv4 round trip\<close>

lemma read_octets_first:
  assumes "d < 256" and "stops 10 r"
  shows "read_octets (Suc k) 0 (dec d @ r) =
    (case read_octets k 1 r of None \<Rightarrow> None | Some (ds, r') \<Rightarrow> Some (d # ds, r'))"
  using assms by (simp add: read_separator_def read_number_dec)

lemma read_octets_next:
  assumes "d < 256" and "stops 10 r"
  shows "read_octets (Suc k) (Suc i) (CHR ''.'' # dec d @ r) =
    (case read_octets k (Suc (Suc i)) r of None \<Rightarrow> None | Some (ds, r') \<Rightarrow> Some (d # ds, r'))"
  using assms by (simp add: read_separator_def read_char_def read_number_dec)

lemma stops_simps [simp]:
  "stops 10 (CHR ''.'' # r)" "stops 10 (CHR '':'' # r)" "stops 16 (CHR '':'' # r)"
  "stops 10 []" "stops 16 []"
  by (simp_all add: stops_def to_digit_def)

lemma octets_four: "\<exists>a b c d. octets w = [a, b, c, d]"
  using length_octets [of w] by (auto simp: length_Suc_conv numeral_eq_Suc simp del: length_octets)

lemma read_ipv4_show:
  assumes "stops 10 r"
  shows "read_ipv4 (show_ipv4 w @ r) = Some (octets w, r)"
proof -
  obtain a b c d where o: "octets w = [a, b, c, d]"
    using octets_four by blast
  have *: "a < 256" "b < 256" "c < 256" "d < 256"
    using octets_bound [of _ w] by (auto simp: o)
  have "read_octets (Suc (Suc (Suc (Suc 0)))) 0
      (dec a @ CHR ''.'' # dec b @ CHR ''.'' # dec c @ CHR ''.'' # dec d @ r) = Some ([a, b, c, d], r)"
    using * assms
    by (simp add: read_octets_first read_octets_next del: read_octets.simps(2))
  then show ?thesis
    by (simp add: read_ipv4_def show_ipv4_def o numeral_eq_Suc del: read_octets.simps(2))
qed

section \<open>IPv6 round trip\<close>

lemma read_number_rest: "read_number b m z hi s = Some (n, r) \<Longrightarrow> set r \<subseteq> set s"
  by (auto simp: read_number_def Let_def split: if_splits option.splits dest: in_set_dropD)

lemma read_ipv4_no_dot: "CHR ''.'' \<notin> set s \<Longrightarrow> read_ipv4 s = None"
  by (auto simp: read_ipv4_def numeral_eq_Suc read_separator_def read_char_def
      split: option.splits prod.splits list.splits dest!: read_number_rest)

lemma read_number_colon [simp]:
  "read_number b m z hi [] = None" "b \<le> 16 \<Longrightarrow> read_number b m z hi (CHR '':'' # s) = None"
  by (auto simp: read_number_def to_digit_def)

lemma read_ipv4_colon [simp]: "read_ipv4 [] = None" "read_ipv4 (CHR '':'' # s) = None"
  by (simp_all add: read_ipv4_def numeral_eq_Suc read_separator_def)

definition seg_tail :: "nat list \<Rightarrow> string" where
  "seg_tail gs = concat (map (\<lambda>g. CHR '':'' # hexs g) gs)"

lemma seg_tail_simps [simp]:
  "seg_tail [] = []" "seg_tail (g # gs) = CHR '':'' # hexs g @ seg_tail gs"
  by (simp_all add: seg_tail_def)

lemma show_segments_Cons: "show_segments (g # gs) = hexs g @ seg_tail gs"
  unfolding show_segments_def
  by (induction gs arbitrary: g) auto

lemma hex_char_neq: "d < 16 \<Longrightarrow> hex_char d \<noteq> CHR ''.''"
  using to_digit_hex_char [of d] by (auto simp: to_digit_def)

lemma hexs_no_dot: "CHR ''.'' \<notin> set (hexs n)"
  using hexs_chars [of "CHR ''.''" n] hex_char_neq by metis

lemma seg_tail_no_dot: "CHR ''.'' \<notin> set (seg_tail gs)"
  by (induction gs) (auto simp: hexs_no_dot)

lemma show_segments_no_dot: "CHR ''.'' \<notin> set (show_segments gs)"
  by (cases gs) (auto simp: show_segments_Cons hexs_no_dot seg_tail_no_dot, simp add: show_segments_def)

text \<open>What may follow a list of groups: nothing, or the double colon.\<close>

definition after_groups :: "string \<Rightarrow> bool" where
  "after_groups r \<longleftrightarrow> CHR ''.'' \<notin> set r \<and> (r = [] \<or> (\<exists>t. r = ''::'' @ t))"

lemma after_groups_stops: "after_groups r \<Longrightarrow> stops 16 (seg_tail gs @ r)"
  by (cases gs) (auto simp: after_groups_def)

lemma read_groups_blocked:
  "r = [] \<or> (\<exists>t. r = ''::'' @ t) \<Longrightarrow> read_groups n i r = ([], False, r)"
  by (cases n) (auto simp: read_separator_def read_char_def)

lemma read_groups_tail:
  assumes "after_groups r" and "length gs \<le> n" and "\<And>g. g \<in> set gs \<Longrightarrow> g < 65536"
  shows "read_groups n (Suc i) (seg_tail gs @ r) = (gs, False, r)"
  using assms(2,3)
proof (induction gs arbitrary: n i)
  case Nil
  with assms(1) show ?case by (simp add: read_groups_blocked after_groups_def)
next
  case (Cons g gs)
  then obtain m where n: "n = Suc m" by (cases n) auto
  have "read_ipv4 (hexs g @ seg_tail gs @ r) = None"
    using assms(1) by (intro read_ipv4_no_dot) (auto simp: hexs_no_dot seg_tail_no_dot after_groups_def)
  with Cons n show ?case
    by (auto simp: read_separator_def read_char_def read_number_hexs after_groups_stops [OF assms(1)])
qed

lemma read_groups_show:
  assumes "after_groups r" and "length gs \<le> n" and "\<And>g. g \<in> set gs \<Longrightarrow> g < 65536"
  shows "read_groups n 0 (show_segments gs @ r) = (gs, False, r)"
proof (cases gs)
  case Nil
  with assms(1) show ?thesis by (simp add: read_groups_blocked after_groups_def show_segments_def)
next
  case (Cons g hs)
  then obtain m where n: "n = Suc m" using assms(2) by (cases n) auto
  have "read_ipv4 (hexs g @ seg_tail hs @ r) = None"
    using assms(1) by (intro read_ipv4_no_dot) (auto simp: hexs_no_dot seg_tail_no_dot after_groups_def)
  moreover have "read_groups m 1 (seg_tail hs @ r) = (hs, False, r)"
    using read_groups_tail [OF assms(1), of hs m 0] assms Cons n by simp
  ultimately show ?thesis
    using Cons n assms
    by (auto simp: show_segments_Cons read_separator_def read_number_hexs after_groups_stops)
qed

text \<open>The span the printer compresses consists of zero segments.\<close>

definition zero_span :: "nat list \<Rightarrow> nat \<times> nat \<Rightarrow> bool" where
  "zero_span gs sp \<longleftrightarrow> fst sp + snd sp \<le> length gs \<and> (\<forall>j < snd sp. gs ! (fst sp + j) = 0)"

lemma zero_span_append: "zero_span gs sp \<Longrightarrow> zero_span (gs @ hs) sp"
  by (auto simp: zero_span_def nth_append)

lemma zero_span_snoc:
  "zero_span gs (k, n) \<Longrightarrow> k + n = length gs \<Longrightarrow> zero_span (gs @ [0]) (k, Suc n)"
  by (auto simp: zero_span_def nth_append less_Suc_eq)

lemma zero_span_single: "zero_span (gs @ [0]) (length gs, Suc 0)"
  by (simp add: zero_span_def nth_append)

lemma longest_zeros_span:
  assumes "zero_span pre best"
    and "snd cur = 0 \<or> (zero_span pre cur \<and> fst cur + snd cur = length pre)"
  shows "zero_span (pre @ gs) (longest_zeros (length pre) cur best gs)"
  using assms
proof (induction gs arbitrary: pre cur best)
  case Nil
  then show ?case by simp
next
  case (Cons g gs)
  show ?case
  proof (cases "g = 0")
    case True
    define cur' where "cur' = (if snd cur = 0 then (length pre, Suc 0) else (fst cur, Suc (snd cur)))"
    have c: "zero_span (pre @ [0]) cur'" "fst cur' + snd cur' = length (pre @ [0])"
      using Cons.prems by (auto simp: cur'_def zero_span_single intro!: zero_span_snoc)
    then have "zero_span ((pre @ [0]) @ gs)
        (longest_zeros (length (pre @ [0])) cur' (if snd best < snd cur' then cur' else best) gs)"
      using Cons.prems by (intro Cons.IH) (auto intro: zero_span_append)
    with True show ?thesis by (simp add: cur'_def Let_def split: if_splits)
  next
    case False
    have "zero_span ((pre @ [g]) @ gs) (longest_zeros (length (pre @ [g])) (0, 0) best gs)"
      using Cons.prems by (intro Cons.IH) (auto intro: zero_span_append)
    with False show ?thesis by simp
  qed
qed

lemma zero_span_replicate:
  assumes "zero_span gs (k, n)"
  shows "take k gs @ replicate n 0 @ drop (k + n) gs = gs"
proof -
  have "take n (drop k gs) = replicate n 0"
    using assms by (intro nth_equalityI) (auto simp: zero_span_def)
  then show ?thesis
    by (metis append_take_drop_id drop_drop add.commute)
qed

lemma of_digits_segments_mapped:
  "of_digits 65536 [0, 0, 0, 0, 0, 65535, of_digits 256 [a, b], of_digits 256 [c, d]]
    = 65535 * 2 ^ 32 + of_digits 256 [a, b, c, d]"
  by (simp add: of_digits_def)

lemma to_ipv4_mapped_Some:
  assumes "to_ipv4_mapped w = Some v"
  shows "unat w = 65535 * 2 ^ 32 + unat v"
proof -
  have v: "unat w div 2 ^ 32 = 65535" "v = of_nat (unat w mod 2 ^ 32)"
    using assms by (auto simp: to_ipv4_mapped_def split: if_splits)
  then have "unat v = unat w mod 2 ^ 32" by (simp add: unsigned_of_nat take_bit_eq_mod)
  with v(1) show ?thesis by (metis div_mult_mod_eq)
qed

lemma read_ipv6_mapped:
  "read_ipv6 (''::ffff:'' @ show_ipv4 v) =
     Some ([0, 0, 0, 0, 0, 65535, of_digits 256 (take 2 (octets v)), of_digits 256 (drop 2 (octets v))], [])"
proof -
  let ?t = "''ffff:'' @ show_ipv4 v"
  have n4: "read_ipv4 ?t = None"
    using read_octets.simps(2) [of 3 0 ?t]
    by (simp add: read_ipv4_def read_separator_def read_number_def to_digit_def)
  have n16: "read_number 16 4 True 65535 ?t = Some (65535, CHR '':'' # show_ipv4 v)"
    by (simp add: read_number_def to_digit_def)
  have "read_groups 6 1 (CHR '':'' # show_ipv4 v)
      = ([of_digits 256 (take 2 (octets v)), of_digits 256 (drop 2 (octets v))], True, [])"
    using read_groups.simps(2) [of 5 1 "CHR '':'' # show_ipv4 v"] read_ipv4_show [of "[]" v]
    by (simp add: read_separator_def read_char_def)
  then have "read_groups 7 0 ?t
      = ([65535, of_digits 256 (take 2 (octets v)), of_digits 256 (drop 2 (octets v))], True, [])"
    using read_groups.simps(2) [of 6 0 ?t] n4 n16 by (simp add: read_separator_def)
  moreover have "read_groups 8 0 (''::'' @ ?t) = ([], False, ''::'' @ ?t)"
    by (rule read_groups_blocked) simp
  moreover have "replicate 5 (0::nat) = [0, 0, 0, 0, 0]"
    by (simp add: eval_nat_numeral)
  ultimately show ?thesis
    by (simp add: read_ipv6_def read_char_def)
qed

lemma read_ipv6_plain:
  assumes "\<And>g. g \<in> set gs \<Longrightarrow> g < 65536" and "length gs = 8"
  shows "read_ipv6 (show_segments gs) = Some (gs, [])"
  using read_groups_show [of "[]" gs 8] assms by (simp add: read_ipv6_def after_groups_def)

lemma read_ipv6_compressed:
  assumes "\<And>g. g \<in> set gs \<Longrightarrow> g < 65536" and "length gs = 8" and "zero_span gs (k, n)" and "1 < n"
  shows "read_ipv6 (show_segments (take k gs) @ ''::'' @ show_segments (drop (k + n) gs)) = Some (gs, [])"
proof -
  let ?t = "show_segments (drop (k + n) gs)"
  have kn: "k + n \<le> 8" using assms by (simp add: zero_span_def)
  have 1: "read_groups 8 0 (show_segments (take k gs) @ ''::'' @ ?t) = (take k gs, False, ''::'' @ ?t)"
    using assms kn by (intro read_groups_show)
      (auto simp: after_groups_def show_segments_no_dot dest: in_set_takeD)
  have 2: "read_groups (7 - k) 0 (?t @ []) = (drop (k + n) gs, False, [])"
    using assms kn by (intro read_groups_show) (auto simp: after_groups_def dest: in_set_dropD)
  have "8 - k - (8 - (k + n)) = n" using kn by simp
  then have "take k gs @ replicate (8 - k - (8 - (k + n))) 0 @ drop (k + n) gs = gs"
    using zero_span_replicate [OF assms(3)] by simp
  with 1 2 kn assms(2,4) show ?thesis
    by (simp add: read_ipv6_def read_char_def min_def)
qed

lemma parse_ip_V6:
  assumes "read_ipv4 s = None" and "read_ipv6 s = Some (gs, [])"
  shows "parse_ip s = Some (V6 (v6_of_segments gs))"
  using assms by (simp add: parse_ip_def)

lemma parse_show_ipv6: "parse_ip (show_ipv6 w) = Some (V6 w)"
proof (cases "to_ipv4_mapped w")
  case (Some v)
  obtain a b c d where o: "octets v = [a, b, c, d]"
    using octets_four by blast
  have "unat v < 256 ^ 4" using unsigned_less [of v] by simp
  then have "of_digits 256 (octets v) = unat v"
    by (simp add: octets_def of_digits_base_digits)
  then have "v6_of_segments [0, 0, 0, 0, 0, 65535, of_digits 256 [a, b], of_digits 256 [c, d]]
      = of_nat (unat w)"
    using to_ipv4_mapped_Some [OF Some]
    unfolding v6_of_segments_def of_digits_segments_mapped o by simp
  then show ?thesis
    using Some read_ipv6_mapped [of v] by (simp add: show_ipv6_def parse_ip_def o)
next
  case None
  obtain k n where l: "longest_zeros 0 (0, 0) (0, 0) (segments w) = (k, n)" by fastforce
  have sp: "zero_span (segments w) (k, n)"
    using longest_zeros_span [of "[]" "(0, 0)" "(0, 0)" "segments w"] l by (simp add: zero_span_def)
  have "read_ipv4 (show_ipv6 w) = None"
    using None l by (intro read_ipv4_no_dot) (auto simp: show_ipv6_def show_segments_no_dot Let_def)
  moreover have "read_ipv6 (show_ipv6 w) = Some (segments w, [])"
    using None l read_ipv6_compressed [OF segments_bound _ sp] read_ipv6_plain [OF segments_bound]
    by (simp add: show_ipv6_def Let_def)
  ultimately show ?thesis using parse_ip_V6 by simp
qed

lemma parse_show_ipv4: "parse_ip (show_ipv4 w) = Some (V4 w)"
  using read_ipv4_show [of "[]" w] by (simp add: parse_ip_def)

lemma parse_ip_show_ip [simp]: "parse_ip (show_ip a) = Some a"
  by (cases a) (simp_all add: parse_show_ipv4 parse_show_ipv6)

lemma show_ip_inject [simp]: "show_ip a = show_ip b \<longleftrightarrow> a = b"
  by (metis option.inject parse_ip_show_ip)

end
