(* ===== verification/Crypto.thy ===== *)
theory Crypto
  imports IpAddr
begin

text \<open>
  \<open>src/crypto.rs\<close>: the stored envelopes of secrets and the \<open>CANONICAL_V1\<close> request
  signature. The \<open>hex\<close>, \<open>hmac\<close>, \<open>sha2\<close> and \<open>chacha20poly1305\<close> crates are
  fields of the record \<open>crypto_ops\<close>; the locale \<open>crypto_suite\<close> holds what the program relies on:
  hexadecimal decoding inverts encoding, a keyed digest exists for every key and is verified by
  equality, and decryption inverts encryption under the same key and nonce. No secrecy or
  unforgeability is assumed, and none is claimed. Randomness (\<open>rand::rng().random()\<close>) is an
  argument.
\<close>

section \<open>The crates\<close>

record crypto_ops =
  hex_encode :: "bytes \<Rightarrow> string"
  hex_decode :: "string \<Rightarrow> bytes option"
  hmac_new :: "bytes \<Rightarrow> (bytes \<Rightarrow> bytes) option"
  hmac_verify :: "(bytes \<Rightarrow> bytes) \<Rightarrow> bytes \<Rightarrow> bytes \<Rightarrow> bool"
  sha256 :: "bytes \<Rightarrow> bytes"
  aead_encrypt :: "bytes \<Rightarrow> bytes \<Rightarrow> bytes \<Rightarrow> bytes option"
  aead_decrypt :: "bytes \<Rightarrow> bytes \<Rightarrow> bytes \<Rightarrow> bytes option"

locale crypto_suite =
  fixes cs :: crypto_ops
  assumes hex_decode_encode: "hex_decode cs (hex_encode cs b) = Some b"
    and hex_encode_chars: "c \<in> set (hex_encode cs b) \<Longrightarrow> is_ascii_hexdigit c"
    and hex_decode_length: "hex_decode cs s = Some b \<Longrightarrow> length s = 2 * length b"
    and hex_decode_chars: "hex_decode cs s = Some b \<Longrightarrow> c \<in> set s \<Longrightarrow> is_ascii_hexdigit c"
    and hmac_any_key: "\<exists>mac. hmac_new cs k = Some mac"
    and hmac_verify_iff: "hmac_verify cs mac m t \<longleftrightarrow> t = mac m"
    and aead_round_trip: "length k = 32 \<Longrightarrow> length n = 24 \<Longrightarrow>
      aead_encrypt cs k n p = Some ct \<Longrightarrow> aead_decrypt cs k n ct = Some p"

section \<open>The code\<close>

definition MAX_TIMESTAMP_SKEW_SECS :: int where
  "MAX_TIMESTAMP_SKEW_SECS = 300"

definition KEY_LEN :: nat where "KEY_LEN = 32"
definition NONCE_LEN :: nat where "NONCE_LEN = 24"
definition PLAINTEXT_PREFIX :: string where "PLAINTEXT_PREFIX = ''v1.plain.''"
definition SEALED_PREFIX :: string where "SEALED_PREFIX = ''v1.xchacha20poly1305.''"
definition SIGNATURE_PREFIX :: string where "SIGNATURE_PREFIX = ''sha256=''"

datatype crypto_error = InvalidKey | MalformedCiphertext | DecryptionFailed | EncryptionFailed

definition generate_signing_secret :: "crypto_ops \<Rightarrow> bytes \<Rightarrow> string" where
  "generate_signing_secret cs random32 = hex_encode cs random32"

definition canonical_v1_payload :: "string \<Rightarrow> string \<Rightarrow> string \<Rightarrow> bytes \<Rightarrow> bytes" where
  "canonical_v1_payload meth target timestamp body =
     meth @ [newline] @ target @ [newline] @ timestamp @ [newline] @ body"

definition compute_signature ::
  "crypto_ops \<Rightarrow> string \<Rightarrow> string \<Rightarrow> string \<Rightarrow> string \<Rightarrow> bytes \<Rightarrow> crypto_error + string" where
  "compute_signature cs secret meth target timestamp body =
     ebind (ok_or EncryptionFailed (hmac_new cs secret)) (\<lambda>mac.
     Inr (SIGNATURE_PREFIX @ hex_encode cs (mac (canonical_v1_payload meth target timestamp body))))"

definition verify_signature ::
  "crypto_ops \<Rightarrow> string \<Rightarrow> string \<Rightarrow> string \<Rightarrow> string \<Rightarrow> bytes \<Rightarrow> string \<Rightarrow> bytes option" where
  "verify_signature cs secret meth target timestamp body provided =
     Option.bind (strip_prefix SIGNATURE_PREFIX (trim provided)) (\<lambda>rest.
     Option.bind (hex_decode cs (trim rest)) (\<lambda>provided_bytes.
     Option.bind (hmac_new cs secret) (\<lambda>mac.
       if hmac_verify cs mac (canonical_v1_payload meth target timestamp body) provided_bytes
       then Some provided_bytes else None)))"

datatype secret_cipher = Plaintext | Sealed bytes

definition from_hex_key :: "crypto_ops \<Rightarrow> string \<Rightarrow> crypto_error + secret_cipher" where
  "from_hex_key cs hex_key =
     ebind (ok_or InvalidKey (hex_decode cs hex_key)) (\<lambda>bs.
     if length bs \<noteq> KEY_LEN then Inl InvalidKey else Inr (Sealed bs))"

definition from_env :: "crypto_ops \<Rightarrow> string option \<Rightarrow> crypto_error + secret_cipher" where
  "from_env cs var =
     (case var of
        Some raw \<Rightarrow> if trim raw \<noteq> [] then from_hex_key cs (trim raw) else Inr Plaintext
      | None \<Rightarrow> Inr Plaintext)"

fun is_encrypting :: "secret_cipher \<Rightarrow> bool" where
  "is_encrypting (Sealed _) = True"
| "is_encrypting Plaintext = False"

definition seal :: "crypto_ops \<Rightarrow> secret_cipher \<Rightarrow> bytes \<Rightarrow> string \<Rightarrow> crypto_error + string" where
  "seal cs cipher nonce_bytes plaintext =
     (case cipher of
        Plaintext \<Rightarrow> Inr (PLAINTEXT_PREFIX @ hex_encode cs plaintext)
      | Sealed key \<Rightarrow>
          ebind (ok_or EncryptionFailed (aead_encrypt cs key nonce_bytes plaintext)) (\<lambda>ciphertext.
          Inr (SEALED_PREFIX @ hex_encode cs nonce_bytes @ CHR ''.'' # hex_encode cs ciphertext)))"

definition open_sealed :: "crypto_ops \<Rightarrow> secret_cipher \<Rightarrow> string \<Rightarrow> crypto_error + string" where
  "open_sealed cs cipher body =
     ebind (ok_or MalformedCiphertext (split_once (CHR ''.'') body)) (\<lambda>(nonce_hex, ciphertext_hex).
     ebind (ok_or MalformedCiphertext (hex_decode cs nonce_hex)) (\<lambda>nonce_bytes.
     if length nonce_bytes \<noteq> NONCE_LEN then Inl MalformedCiphertext
     else ebind (ok_or MalformedCiphertext (hex_decode cs ciphertext_hex)) (\<lambda>ciphertext.
       case cipher of
         Plaintext \<Rightarrow> Inl DecryptionFailed
       | Sealed key \<Rightarrow>
           ebind (ok_or DecryptionFailed (aead_decrypt cs key nonce_bytes ciphertext)) (\<lambda>plaintext.
           ok_or MalformedCiphertext (from_utf8 plaintext)))))"

definition open_secret :: "crypto_ops \<Rightarrow> secret_cipher \<Rightarrow> string \<Rightarrow> crypto_error + string" where
  "open_secret cs cipher stored =
     (case strip_prefix PLAINTEXT_PREFIX stored of
        Some encoded \<Rightarrow>
          ebind (ok_or MalformedCiphertext (hex_decode cs encoded)) (\<lambda>bs.
          ok_or MalformedCiphertext (from_utf8 bs))
      | None \<Rightarrow>
         (case strip_prefix SEALED_PREFIX stored of
            Some body \<Rightarrow> open_sealed cs cipher body
          | None \<Rightarrow> Inl MalformedCiphertext))"

datatype key_canary = NoSealedSecrets | Verified

definition check_key_canary ::
  "crypto_ops \<Rightarrow> secret_cipher \<Rightarrow> string option \<Rightarrow> crypto_error + key_canary" where
  "check_key_canary cs cipher sample =
     (case sample of
        None \<Rightarrow> Inr NoSealedSecrets
      | Some stored \<Rightarrow> ebind (open_secret cs cipher stored) (\<lambda>_. Inr Verified))"

section \<open>Lemmas\<close>

lemma hexdigit_facts:
  "is_ascii_hexdigit c \<Longrightarrow> \<not> is_ws c" "\<not> is_ascii_hexdigit (CHR ''.'')"
  by (auto simp: is_ascii_hexdigit_def is_ws_def Let_def)

lemma canonical_v1_payload_inject:
  assumes "newline \<notin> set m1" "newline \<notin> set t1" "newline \<notin> set s1"
    and "newline \<notin> set m2" "newline \<notin> set t2" "newline \<notin> set s2"
  shows "canonical_v1_payload m1 t1 s1 b1 = canonical_v1_payload m2 t2 s2 b2 \<longleftrightarrow>
    m1 = m2 \<and> t1 = t2 \<and> s1 = s2 \<and> b1 = b2"
  using assms by (auto simp: canonical_v1_payload_def append_sep_inject)

lemma strip_plain_sealed [simp]: "strip_prefix PLAINTEXT_PREFIX (SEALED_PREFIX @ s) = None"
  by (simp add: strip_prefix_def PLAINTEXT_PREFIX_def SEALED_PREFIX_def)

lemma from_utf8_eq_Some [simp]: "from_utf8 b = Some s \<longleftrightarrow> s = b \<and> utf8_valid b"
  by (auto simp: from_utf8_def)

lemma from_hex_key_Inr:
  "from_hex_key cs h = Inr c \<Longrightarrow> \<exists>k. c = Sealed k \<and> length k = 32"
  by (auto simp: from_hex_key_def KEY_LEN_def split: if_splits)

lemma open_sealed_iff:
  "open_sealed cs cipher body = Inr secret \<longleftrightarrow>
     utf8_valid secret \<and>
     (\<exists>key n nonce c ct. cipher = Sealed key \<and> body = n @ CHR ''.'' # c
         \<and> CHR ''.'' \<notin> set n \<and> hex_decode cs n = Some nonce \<and> length nonce = NONCE_LEN
         \<and> hex_decode cs c = Some ct \<and> aead_decrypt cs key nonce ct = Some secret)"
  by (cases cipher) (auto simp: open_sealed_def split_once_eq_Some)

lemma open_secret_plain:
  "open_secret cs cipher (PLAINTEXT_PREFIX @ h) = Inr secret \<longleftrightarrow> utf8_valid secret \<and> hex_decode cs h = Some secret"
  by (auto simp: open_secret_def)

lemma open_secret_sealed:
  "open_secret cs cipher (SEALED_PREFIX @ body) = open_sealed cs cipher body"
  by (simp add: open_secret_def)

lemma plain_neq_sealed: "PLAINTEXT_PREFIX @ a \<noteq> SEALED_PREFIX @ b"
  by (simp add: PLAINTEXT_PREFIX_def SEALED_PREFIX_def)

context crypto_suite
begin

lemma trim_hex: "trim (hex_encode cs b) = hex_encode cs b"
  by (rule trim_no_ws) (use hex_encode_chars hexdigit_facts in blast)

lemma trim_signature: "trim (SIGNATURE_PREFIX @ hex_encode cs b) = SIGNATURE_PREFIX @ hex_encode cs b"
  by (rule trim_no_ws)
    (use hex_encode_chars hexdigit_facts in \<open>auto simp: SIGNATURE_PREFIX_def is_ws_def\<close>)

lemma open_seal:
  assumes "length nonce = 24" and "utf8_valid p" and "is_encrypting c \<Longrightarrow> \<exists>k. c = Sealed k \<and> length k = 32"
    and "seal cs c nonce p = Inr stored"
  shows "open_secret cs c stored = Inr p"
proof (cases c)
  case Plaintext
  with assms show ?thesis
    by (auto simp: seal_def open_secret_def hex_decode_encode)
next
  case (Sealed k)
  then have k: "length k = 32" using assms(3) by auto
  from Sealed assms(4) obtain ct where ct: "aead_encrypt cs k nonce p = Some ct"
    "stored = SEALED_PREFIX @ hex_encode cs nonce @ CHR ''.'' # hex_encode cs ct"
    by (auto simp: seal_def)
  have "CHR ''.'' \<notin> set (hex_encode cs nonce)"
    using hex_encode_chars hexdigit_facts(2) by blast
  then have "split_once (CHR ''.'') (hex_encode cs nonce @ CHR ''.'' # hex_encode cs ct)
      = Some (hex_encode cs nonce, hex_encode cs ct)"
    by (simp add: split_once_def takeWhile_dropWhile_notin)
  then show ?thesis
    using ct Sealed assms(1,2) aead_round_trip [OF k assms(1) ct(1)]
    by (auto simp: open_secret_def open_sealed_def hex_decode_encode NONCE_LEN_def)
qed

lemma verify_iff:
  assumes "hmac_new cs secret = Some mac"
  shows "verify_signature cs secret m t s b provided = Some d \<longleftrightarrow>
    (\<exists>rest. strip_prefix SIGNATURE_PREFIX (trim provided) = Some rest
       \<and> hex_decode cs (trim rest) = Some d \<and> d = mac (canonical_v1_payload m t s b))"
  using assms by (auto simp: verify_signature_def bind_eq_Some_conv hmac_verify_iff)

lemma verify_computed:
  assumes "compute_signature cs secret m1 t1 s1 b1 = Inr sig" and "hmac_new cs secret = Some mac"
  shows "verify_signature cs secret m2 t2 s2 b2 sig =
    (if mac (canonical_v1_payload m1 t1 s1 b1) = mac (canonical_v1_payload m2 t2 s2 b2)
     then Some (mac (canonical_v1_payload m1 t1 s1 b1)) else None)"
proof -
  let ?d = "mac (canonical_v1_payload m1 t1 s1 b1)"
  have "sig = SIGNATURE_PREFIX @ hex_encode cs ?d"
    using assms by (simp add: compute_signature_def)
  then show ?thesis
    using assms(2)
    by (simp add: verify_signature_def trim_signature trim_hex hex_decode_encode hmac_verify_iff)
qed

end

section \<open>An executable instance\<close>

text \<open>
  Hexadecimal as the crate documents it (lower case out, either case in), and a keyed digest,
  a digest and a cipher that only have to satisfy the laws.
\<close>

fun hex_enc :: "bytes \<Rightarrow> string" where
  "hex_enc [] = []"
| "hex_enc (c # s) = hex_char (of_char c div 16) # hex_char (of_char c mod 16) # hex_enc s"

fun hex_dec :: "string \<Rightarrow> bytes option" where
  "hex_dec [] = Some []"
| "hex_dec [c] = None"
| "hex_dec (c # d # s) =
     (case (to_digit 16 c, to_digit 16 d, hex_dec s) of
        (Some h, Some l, Some bs) \<Rightarrow> Some (char_of (16 * h + l) # bs)
      | _ \<Rightarrow> None)"

definition toy_mac :: "bytes \<Rightarrow> bytes \<Rightarrow> bytes" where
  "toy_mac k m = map (\<lambda>i. if i < length k + length m then (k @ m) ! i else CHR 0x00) [0..<32]"

definition toy_crypto :: crypto_ops where
  "toy_crypto = \<lparr>hex_encode = hex_enc, hex_decode = hex_dec, hmac_new = (\<lambda>k. Some (toy_mac k)),
     hmac_verify = (\<lambda>mac m t. t = mac m), sha256 = toy_mac [],
     aead_encrypt = (\<lambda>k n p. Some (p @ k)),
     aead_decrypt = (\<lambda>k n c. if length k \<le> length c \<and> drop (length c - length k) c = k
                             then Some (take (length c - length k) c) else None)\<rparr>"

lemma hex_char_hexdigit: "d < 16 \<Longrightarrow> is_ascii_hexdigit (hex_char d)"
  by (auto simp: hex_char_def is_ascii_hexdigit_def)

lemma of_char_lt: "(of_char c :: nat) < 256"
  by (rule nat_of_char_less_256)

lemma of_char_div16: "(of_char c :: nat) div 16 < 16"
  using of_char_lt [of c] by (simp add: less_mult_imp_div_less)

lemma hex_dec_enc: "hex_dec (hex_enc b) = Some b"
  by (induction b) (auto simp: to_digit_hex_char of_char_div16)

lemma to_digit16_hexdigit: "to_digit 16 c = Some d \<Longrightarrow> is_ascii_hexdigit c"
  by (auto simp: to_digit_def is_ascii_hexdigit_def Let_def split: if_splits)

interpretation toy_suite: crypto_suite toy_crypto
proof
  fix b c assume "c \<in> set (hex_encode toy_crypto b)"
  then show "is_ascii_hexdigit c"
    by (induction b) (auto simp: toy_crypto_def hex_char_hexdigit of_char_div16)
next
  fix s b assume "hex_decode toy_crypto s = Some b"
  then show "length s = 2 * length b"
    unfolding toy_crypto_def crypto_ops.simps
    by (induction s arbitrary: b rule: hex_dec.induct) (auto split: option.splits)
next
  fix s b c assume "hex_decode toy_crypto s = Some b" "c \<in> set s"
  then show "is_ascii_hexdigit c"
    unfolding toy_crypto_def crypto_ops.simps
    by (induction s arbitrary: b rule: hex_dec.induct)
      (auto split: option.splits dest: to_digit16_hexdigit)
qed (auto simp: toy_crypto_def hex_dec_enc)

section \<open>Properties\<close>

text \<open>
  C12. What \<open>seal\<close> stores, \<open>open\<close> gives back under the same cipher, for every UTF-8 secret,
  whether or not an encryption key is configured.
\<close>

theorem open_seal_round_trip:
  assumes "crypto_suite cs" and "from_env cs var = Inr cipher" and "length nonce = NONCE_LEN"
    and "utf8_valid secret" and "seal cs cipher nonce secret = Inr stored"
  shows "open_secret cs cipher stored = Inr secret"
  using assms from_hex_key_Inr
  by (intro crypto_suite.open_seal [of cs nonce])
    (auto simp: from_env_def NONCE_LEN_def split: option.splits if_splits)

theorem open_seal_round_trip_witness:
  "open_secret toy_crypto Plaintext (PLAINTEXT_PREFIX @ hex_enc ''key'') = Inr ''key''"
  by (rule open_seal_round_trip [OF toy_suite.crypto_suite_axioms, of None _ "replicate 24 CHR 0x00"])
    (simp_all add: from_env_def NONCE_LEN_def seal_def toy_crypto_def utf8_chunk_def)

text \<open>
  Opening fails closed: a secret comes out only of a well-formed plaintext envelope, or of
  a sealed envelope that the configured key decrypts; every other stored text is an error.
\<close>

theorem open_fails_closed:
  "open_secret cs cipher stored = Inr secret \<longleftrightarrow>
     utf8_valid secret \<and>
     ((\<exists>h. stored = PLAINTEXT_PREFIX @ h \<and> hex_decode cs h = Some secret) \<or>
      (\<exists>key n nonce c ct. cipher = Sealed key \<and> stored = SEALED_PREFIX @ n @ CHR ''.'' # c
         \<and> CHR ''.'' \<notin> set n \<and> hex_decode cs n = Some nonce \<and> length nonce = NONCE_LEN
         \<and> hex_decode cs c = Some ct \<and> aead_decrypt cs key nonce ct = Some secret))"
proof (cases "strip_prefix PLAINTEXT_PREFIX stored")
  case (Some h)
  then have "stored = PLAINTEXT_PREFIX @ h" by (simp add: strip_prefix_eq_Some)
  then show ?thesis by (auto simp: open_secret_plain plain_neq_sealed)
next
  case None
  then have np: "stored \<noteq> PLAINTEXT_PREFIX @ h" for h by auto
  show ?thesis
  proof (cases "strip_prefix SEALED_PREFIX stored")
    case (Some b)
    then have "stored = SEALED_PREFIX @ b" by (simp add: strip_prefix_eq_Some)
    with np show ?thesis by (auto simp: open_secret_sealed open_sealed_iff)
  next
    case None2: None
    then have "stored \<noteq> SEALED_PREFIX @ b" for b by auto
    with None None2 np show ?thesis by (auto simp: open_secret_def)
  qed
qed

text \<open>
  C11. A signature made for one request is accepted for another under the same secret exactly
  when the two payloads have the same digest; and, for methods, targets and timestamps
  without a line feed, the payloads are equal only when the requests are equal, body included.
\<close>

theorem signature_binds_request:
  assumes "crypto_suite cs" and "hmac_new cs secret = Some mac"
    and "compute_signature cs secret m1 t1 s1 b1 = Inr sig"
    and "newline \<notin> set m1" "newline \<notin> set t1" "newline \<notin> set s1"
    and "newline \<notin> set m2" "newline \<notin> set t2" "newline \<notin> set s2"
  shows "(verify_signature cs secret m2 t2 s2 b2 sig \<noteq> None \<longleftrightarrow>
      mac (canonical_v1_payload m1 t1 s1 b1) = mac (canonical_v1_payload m2 t2 s2 b2))
    \<and> (canonical_v1_payload m1 t1 s1 b1 = canonical_v1_payload m2 t2 s2 b2 \<longleftrightarrow>
      (m1, t1, s1, b1) = (m2, t2, s2, b2))"
  using crypto_suite.verify_computed [OF assms(1,3,2)] canonical_v1_payload_inject [OF assms(4-)]
  by auto

theorem signature_binds_request_witness:
  "verify_signature toy_crypto ''k'' ''GET'' ''/a'' ''17'' ''b''
      (SIGNATURE_PREFIX @ hex_enc (toy_mac ''k'' (canonical_v1_payload ''GET'' ''/a'' ''17'' ''b''))) \<noteq> None"
proof -
  let ?p = "canonical_v1_payload ''GET'' ''/a'' ''17'' ''b''"
  have "compute_signature toy_crypto ''k'' ''GET'' ''/a'' ''17'' ''b'' = Inr (SIGNATURE_PREFIX @ hex_enc (toy_mac ''k'' ?p))"
    by (simp add: toy_crypto_def compute_signature_def)
  then show ?thesis
    using signature_binds_request [OF toy_suite.crypto_suite_axioms, of "''k''" "toy_mac ''k''" "''GET''" "''/a''" "''17''" "''b''"
        "SIGNATURE_PREFIX @ hex_enc (toy_mac ''k'' ?p)" "''GET''" "''/a''" "''17''" "''b''"]
    by (simp add: toy_crypto_def newline_def)
qed

end
