(* ===== verification/Store.thy ===== *)
theory Store
  imports Text
begin

text \<open>
  The persistent state: one record per entity of \<open>src/entities/\<close>, the database as its ten
  tables, and the constraints that \<open>src/migration/\<close> declares on them: primary keys,
  unique columns, the unique permission triple, the unique index on the generated master
  marker, and the foreign keys with their \<open>Cascade\<close> and \<open>SetNull\<close> actions. A statement that
  would break a constraint fails and changes nothing; a delete carries its cascade. The lemmas
  show that every statement keeps all constraints.

  A query answers with the matching rows in insertion order. Failures of the database other
  than constraint violations and missing rows are not modelled.
\<close>

section \<open>Entities\<close>

record api_key =
  key_id :: uuid
  key_name :: string
  key_hash :: string
  key_signing_secret :: "string option"
  key_prefix :: string
  is_master :: bool
  can_manage_keys :: bool
  can_manage_sources :: bool
  can_manage_vaults :: bool
  parent_key_id :: "uuid option"
  bound_ips :: "string option"
  key_created_at :: instant
  key_updated_at :: instant

record permission =
  perm_id :: uuid
  perm_api_key_id :: uuid
  perm_resource_type :: string
  perm_resource_id :: uuid
  can_sync :: bool
  can_manage :: bool
  can_view_logs :: bool
  perm_created_at :: instant

record vault_endpoint =
  vault_id :: uuid
  vault_name :: string
  vault_target_url :: string
  vault_api_key :: string
  vault_signing_secret :: string
  vault_description :: "string option"
  vault_owner_key_id :: "uuid option"
  vault_created_at :: instant
  vault_updated_at :: instant

record destination_group =
  group_id :: uuid
  group_name :: string
  group_target_group_name :: string
  group_cron_schedule :: string
  group_mode :: string
  group_is_active :: bool
  group_skip_bogon_filtering :: bool
  group_last_run_at :: "instant option"
  group_owner_key_id :: "uuid option"
  group_created_at :: instant
  group_updated_at :: instant

record group_target =
  gt_group_id :: uuid
  gt_vault_id :: uuid
  gt_target_group_name :: "string option"

record external_source =
  feed_id :: uuid
  feed_group_id :: uuid
  feed_name :: string
  feed_source_url :: string
  feed_parser_type :: string
  feed_parser_config_json :: "string option"
  feed_max_age_days :: "int option"
  feed_skip_bogon_filtering :: "bool option"
  feed_created_at :: instant
  feed_updated_at :: instant

record vault_sync_task =
  task_id :: uuid
  task_name :: string
  task_source_vault_id :: uuid
  task_source_group_name :: string
  task_target_group_name :: string
  task_cron_schedule :: string
  task_last_sync_at :: "instant option"
  task_mode :: string
  task_is_active :: bool
  task_skip_bogon_filtering :: bool
  task_owner_key_id :: "uuid option"
  task_created_at :: instant
  task_updated_at :: instant

record task_target =
  tt_task_id :: uuid
  tt_vault_id :: uuid
  tt_target_group_name :: "string option"

record sync_log =
  slog_id :: uuid
  slog_job_type :: string
  slog_job_id :: uuid
  slog_job_name :: string
  slog_status :: string
  slog_items_processed :: int
  slog_chunks_sent :: int
  slog_duration_ms :: int
  slog_error_message :: "string option"
  slog_timestamp :: instant

record audit_log =
  alog_id :: uuid
  alog_api_key_id :: "uuid option"
  alog_api_key_name :: string
  alog_api_key_prefix :: string
  alog_client_ip :: string
  alog_action :: string
  alog_target_resource :: "string option"
  alog_details :: "string option"
  alog_timestamp :: instant

record database =
  api_keys :: "api_key list"
  permissions :: "permission list"
  vaults :: "vault_endpoint list"
  groups :: "destination_group list"
  group_targets :: "group_target list"
  feeds :: "external_source list"
  tasks :: "vault_sync_task list"
  task_targets :: "task_target list"
  sync_logs :: "sync_log list"
  audit_logs :: "audit_log list"

section \<open>Constraints\<close>

definition perm_key :: "permission \<Rightarrow> uuid \<times> string \<times> uuid" where
  "perm_key p = (perm_api_key_id p, perm_resource_type p, perm_resource_id p)"

text \<open>
  \<open>master_marker\<close> is 1 for a master row and null otherwise, under a unique index in which
  nulls do not collide: at most one row has \<open>is_master\<close> set.
\<close>

definition api_keys_table :: "api_key list \<Rightarrow> bool" where
  "api_keys_table ks \<longleftrightarrow> distinct (map key_id ks) \<and> distinct (map key_hash ks)"

definition master_marker_index :: "api_key list \<Rightarrow> bool" where
  "master_marker_index ks \<longleftrightarrow> length (filter is_master ks) \<le> 1"

definition permissions_table :: "permission list \<Rightarrow> bool" where
  "permissions_table ps \<longleftrightarrow> distinct (map perm_id ps) \<and> distinct (map perm_key ps)"

definition vault_endpoints_table :: "vault_endpoint list \<Rightarrow> bool" where
  "vault_endpoints_table vs \<longleftrightarrow> distinct (map vault_id vs) \<and> distinct (map vault_name vs)"

definition destination_groups_table :: "destination_group list \<Rightarrow> bool" where
  "destination_groups_table gs \<longleftrightarrow> distinct (map group_id gs) \<and> distinct (map group_name gs)"

definition group_targets_table :: "group_target list \<Rightarrow> bool" where
  "group_targets_table ts \<longleftrightarrow> distinct (map (\<lambda>t. (gt_group_id t, gt_vault_id t)) ts)"

definition external_sources_table :: "external_source list \<Rightarrow> bool" where
  "external_sources_table fs \<longleftrightarrow> distinct (map feed_id fs) \<and> distinct (map feed_name fs)"

definition sync_tasks_table :: "vault_sync_task list \<Rightarrow> bool" where
  "sync_tasks_table ts \<longleftrightarrow> distinct (map task_id ts) \<and> distinct (map task_name ts)"

definition task_targets_table :: "task_target list \<Rightarrow> bool" where
  "task_targets_table ts \<longleftrightarrow> distinct (map (\<lambda>t. (tt_task_id t, tt_vault_id t)) ts)"

definition sync_logs_table :: "sync_log list \<Rightarrow> bool" where
  "sync_logs_table ls \<longleftrightarrow> distinct (map slog_id ls)"

definition audit_logs_table :: "audit_log list \<Rightarrow> bool" where
  "audit_logs_table ls \<longleftrightarrow> distinct (map alog_id ls)"

definition unique_ok :: "database \<Rightarrow> bool" where
  "unique_ok db \<longleftrightarrow>
     api_keys_table (api_keys db) \<and> master_marker_index (api_keys db) \<and> permissions_table (permissions db) \<and>
     vault_endpoints_table (vaults db) \<and> destination_groups_table (groups db) \<and> group_targets_table (group_targets db) \<and>
     external_sources_table (feeds db) \<and> sync_tasks_table (tasks db) \<and> task_targets_table (task_targets db) \<and>
     sync_logs_table (sync_logs db) \<and> audit_logs_table (audit_logs db)"

lemmas table_defs = api_keys_table_def master_marker_index_def permissions_table_def vault_endpoints_table_def
  destination_groups_table_def group_targets_table_def external_sources_table_def sync_tasks_table_def
  task_targets_table_def sync_logs_table_def audit_logs_table_def

definition has_key :: "database \<Rightarrow> uuid \<Rightarrow> bool" where
  "has_key db i \<longleftrightarrow> i \<in> set (map key_id (api_keys db))"

definition has_vault :: "database \<Rightarrow> uuid \<Rightarrow> bool" where
  "has_vault db i \<longleftrightarrow> i \<in> set (map vault_id (vaults db))"

definition has_group :: "database \<Rightarrow> uuid \<Rightarrow> bool" where
  "has_group db i \<longleftrightarrow> i \<in> set (map group_id (groups db))"

definition has_task :: "database \<Rightarrow> uuid \<Rightarrow> bool" where
  "has_task db i \<longleftrightarrow> i \<in> set (map task_id (tasks db))"

definition fk_ok :: "database \<Rightarrow> bool" where
  "fk_ok db \<longleftrightarrow>
     list_all (\<lambda>p. has_key db (perm_api_key_id p)) (permissions db) \<and>
     list_all (\<lambda>t. has_group db (gt_group_id t) \<and> has_vault db (gt_vault_id t)) (group_targets db) \<and>
     list_all (\<lambda>f. has_group db (feed_group_id f)) (feeds db) \<and>
     list_all (\<lambda>t. has_vault db (task_source_vault_id t)) (tasks db) \<and>
     list_all (\<lambda>t. has_task db (tt_task_id t) \<and> has_vault db (tt_vault_id t)) (task_targets db) \<and>
     list_all (\<lambda>l. \<forall>k \<in> set_option (alog_api_key_id l). has_key db k) (audit_logs db)"

definition db_ok :: "database \<Rightarrow> bool" where
  "db_ok db \<longleftrightarrow> unique_ok db \<and> fk_ok db"

section \<open>Statements\<close>

datatype db_err = UniqueConstraintViolation | ForeignKeyViolation | RecordNotUpdated

text \<open>An insert or an update takes effect when the database it gives satisfies the constraints.\<close>

definition checked :: "database \<Rightarrow> db_err + database" where
  "checked db =
     (if \<not> unique_ok db then Inl UniqueConstraintViolation
      else if \<not> fk_ok db then Inl ForeignKeyViolation
      else Inr db)"

definition find_key :: "database \<Rightarrow> uuid \<Rightarrow> api_key option" where
  "find_key db i = List.find (\<lambda>k. key_id k = i) (api_keys db)"

definition find_vault :: "database \<Rightarrow> uuid \<Rightarrow> vault_endpoint option" where
  "find_vault db i = List.find (\<lambda>v. vault_id v = i) (vaults db)"

definition find_group :: "database \<Rightarrow> uuid \<Rightarrow> destination_group option" where
  "find_group db i = List.find (\<lambda>g. group_id g = i) (groups db)"

definition find_feed :: "database \<Rightarrow> uuid \<Rightarrow> external_source option" where
  "find_feed db i = List.find (\<lambda>f. feed_id f = i) (feeds db)"

definition find_task :: "database \<Rightarrow> uuid \<Rightarrow> vault_sync_task option" where
  "find_task db i = List.find (\<lambda>t. task_id t = i) (tasks db)"

definition find_perm_by_id :: "database \<Rightarrow> uuid \<Rightarrow> permission option" where
  "find_perm_by_id db i = List.find (\<lambda>p. perm_id p = i) (permissions db)"

text \<open>Replacing the row with the same primary key; none with it is \<open>RecordNotUpdated\<close>.\<close>

definition replace_row :: "('r \<Rightarrow> 'k) \<Rightarrow> 'r \<Rightarrow> 'r list \<Rightarrow> 'r list" where
  "replace_row k r rs = map (\<lambda>x. if k x = k r then r else x) rs"

definition update_key :: "api_key \<Rightarrow> database \<Rightarrow> db_err + database" where
  "update_key r db =
     (if has_key db (key_id r) then checked (db\<lparr>api_keys := replace_row key_id r (api_keys db)\<rparr>)
      else Inl RecordNotUpdated)"

definition update_permission :: "permission \<Rightarrow> database \<Rightarrow> db_err + database" where
  "update_permission r db =
     (if perm_id r \<in> set (map perm_id (permissions db))
      then checked (db\<lparr>permissions := replace_row perm_id r (permissions db)\<rparr>)
      else Inl RecordNotUpdated)"

definition update_vault :: "vault_endpoint \<Rightarrow> database \<Rightarrow> db_err + database" where
  "update_vault r db =
     (if has_vault db (vault_id r) then checked (db\<lparr>vaults := replace_row vault_id r (vaults db)\<rparr>)
      else Inl RecordNotUpdated)"

definition update_group :: "destination_group \<Rightarrow> database \<Rightarrow> db_err + database" where
  "update_group r db =
     (if has_group db (group_id r) then checked (db\<lparr>groups := replace_row group_id r (groups db)\<rparr>)
      else Inl RecordNotUpdated)"

definition update_feed_row :: "external_source \<Rightarrow> database \<Rightarrow> db_err + database" where
  "update_feed_row r db =
     (if feed_id r \<in> set (map feed_id (feeds db))
      then checked (db\<lparr>feeds := replace_row feed_id r (feeds db)\<rparr>)
      else Inl RecordNotUpdated)"

definition update_task :: "vault_sync_task \<Rightarrow> database \<Rightarrow> db_err + database" where
  "update_task r db =
     (if has_task db (task_id r) then checked (db\<lparr>tasks := replace_row task_id r (tasks db)\<rparr>)
      else Inl RecordNotUpdated)"

definition insert_key :: "api_key \<Rightarrow> database \<Rightarrow> db_err + database" where
  "insert_key r db = checked (db\<lparr>api_keys := api_keys db @ [r]\<rparr>)"

definition insert_permission :: "permission \<Rightarrow> database \<Rightarrow> db_err + database" where
  "insert_permission r db = checked (db\<lparr>permissions := permissions db @ [r]\<rparr>)"

definition insert_vault :: "vault_endpoint \<Rightarrow> database \<Rightarrow> db_err + database" where
  "insert_vault r db = checked (db\<lparr>vaults := vaults db @ [r]\<rparr>)"

definition insert_group :: "destination_group \<Rightarrow> database \<Rightarrow> db_err + database" where
  "insert_group r db = checked (db\<lparr>groups := groups db @ [r]\<rparr>)"

definition insert_feed :: "external_source \<Rightarrow> database \<Rightarrow> db_err + database" where
  "insert_feed r db = checked (db\<lparr>feeds := feeds db @ [r]\<rparr>)"

definition insert_task :: "vault_sync_task \<Rightarrow> database \<Rightarrow> db_err + database" where
  "insert_task r db = checked (db\<lparr>tasks := tasks db @ [r]\<rparr>)"

definition insert_sync_log :: "sync_log \<Rightarrow> database \<Rightarrow> db_err + database" where
  "insert_sync_log r db = checked (db\<lparr>sync_logs := sync_logs db @ [r]\<rparr>)"

definition insert_audit_log :: "audit_log \<Rightarrow> database \<Rightarrow> db_err + database" where
  "insert_audit_log r db = checked (db\<lparr>audit_logs := audit_logs db @ [r]\<rparr>)"

fun insert_group_targets :: "group_target list \<Rightarrow> database \<Rightarrow> db_err + database" where
  "insert_group_targets [] db = Inr db"
| "insert_group_targets (r # rs) db =
     ebind (checked (db\<lparr>group_targets := group_targets db @ [r]\<rparr>)) (insert_group_targets rs)"

fun insert_task_targets :: "task_target list \<Rightarrow> database \<Rightarrow> db_err + database" where
  "insert_task_targets [] db = Inr db"
| "insert_task_targets (r # rs) db =
     ebind (checked (db\<lparr>task_targets := task_targets db @ [r]\<rparr>)) (insert_task_targets rs)"

definition delete_group_targets :: "uuid \<Rightarrow> database \<Rightarrow> database" where
  "delete_group_targets i db = db\<lparr>group_targets := filter (\<lambda>t. gt_group_id t \<noteq> i) (group_targets db)\<rparr>"

definition delete_task_targets :: "uuid \<Rightarrow> database \<Rightarrow> database" where
  "delete_task_targets i db = db\<lparr>task_targets := filter (\<lambda>t. tt_task_id t \<noteq> i) (task_targets db)\<rparr>"

definition delete_permission :: "uuid \<Rightarrow> database \<Rightarrow> database" where
  "delete_permission i db = db\<lparr>permissions := filter (\<lambda>p. perm_id p \<noteq> i) (permissions db)\<rparr>"

definition delete_feed_row :: "uuid \<Rightarrow> database \<Rightarrow> database" where
  "delete_feed_row i db = db\<lparr>feeds := filter (\<lambda>f. feed_id f \<noteq> i) (feeds db)\<rparr>"

definition delete_group_row :: "uuid \<Rightarrow> database \<Rightarrow> database" where
  "delete_group_row i db =
     db\<lparr>groups := filter (\<lambda>g. group_id g \<noteq> i) (groups db),
        feeds := filter (\<lambda>f. feed_group_id f \<noteq> i) (feeds db),
        group_targets := filter (\<lambda>t. gt_group_id t \<noteq> i) (group_targets db)\<rparr>"

definition delete_tasks_where :: "(vault_sync_task \<Rightarrow> bool) \<Rightarrow> database \<Rightarrow> database" where
  "delete_tasks_where p db =
     db\<lparr>tasks := filter (\<lambda>t. \<not> p t) (tasks db),
        task_targets := filter (\<lambda>tt. \<not> list_ex (\<lambda>t. p t \<and> task_id t = tt_task_id tt) (tasks db)) (task_targets db)\<rparr>"

definition delete_task_row :: "uuid \<Rightarrow> database \<Rightarrow> database" where
  "delete_task_row i db = delete_tasks_where (\<lambda>t. task_id t = i) db"

definition delete_vault_row :: "uuid \<Rightarrow> database \<Rightarrow> database" where
  "delete_vault_row i db =
     (let db1 = delete_tasks_where (\<lambda>t. task_source_vault_id t = i) db in
      db1\<lparr>vaults := filter (\<lambda>v. vault_id v \<noteq> i) (vaults db1),
          group_targets := filter (\<lambda>t. gt_vault_id t \<noteq> i) (group_targets db1),
          task_targets := filter (\<lambda>t. tt_vault_id t \<noteq> i) (task_targets db1)\<rparr>)"

definition set_null :: "uuid list \<Rightarrow> audit_log \<Rightarrow> audit_log" where
  "set_null is l =
     (case alog_api_key_id l of
        Some k \<Rightarrow> if k \<in> set is then l\<lparr>alog_api_key_id := None\<rparr> else l
      | None \<Rightarrow> l)"

definition delete_keys :: "uuid list \<Rightarrow> database \<Rightarrow> database" where
  "delete_keys is db =
     db\<lparr>api_keys := filter (\<lambda>k. key_id k \<notin> set is) (api_keys db),
        permissions := filter (\<lambda>p. perm_api_key_id p \<notin> set is) (permissions db),
        audit_logs := map (set_null is) (audit_logs db)\<rparr>"

section \<open>Every statement keeps the constraints\<close>

lemma checked_eq_Inr [simp]: "checked db = Inr db' \<longleftrightarrow> db' = db \<and> db_ok db"
  by (auto simp: checked_def db_ok_def)

lemma insert_targets_ok:
  "insert_group_targets gs db = Inr db' \<Longrightarrow> db_ok db \<Longrightarrow> db_ok db'"
  "insert_task_targets ts db = Inr db' \<Longrightarrow> db_ok db \<Longrightarrow> db_ok db'"
  by (induction gs arbitrary: db; fastforce) (induction ts arbitrary: db; fastforce)

lemma statement_ok:
  "update_key k db = Inr db' \<Longrightarrow> db_ok db'" "update_permission p db = Inr db' \<Longrightarrow> db_ok db'"
  "update_vault v db = Inr db' \<Longrightarrow> db_ok db'" "update_group g db = Inr db' \<Longrightarrow> db_ok db'"
  "update_feed_row f db = Inr db' \<Longrightarrow> db_ok db'" "update_task t db = Inr db' \<Longrightarrow> db_ok db'"
  "insert_key k db = Inr db' \<Longrightarrow> db_ok db'" "insert_permission p db = Inr db' \<Longrightarrow> db_ok db'"
  "insert_vault v db = Inr db' \<Longrightarrow> db_ok db'" "insert_group g db = Inr db' \<Longrightarrow> db_ok db'"
  "insert_feed f db = Inr db' \<Longrightarrow> db_ok db'" "insert_task t db = Inr db' \<Longrightarrow> db_ok db'"
  "insert_sync_log s db = Inr db' \<Longrightarrow> db_ok db'" "insert_audit_log a db = Inr db' \<Longrightarrow> db_ok db'"
  by (auto simp: update_key_def update_permission_def update_vault_def update_group_def
      update_feed_row_def update_task_def insert_key_def insert_permission_def insert_vault_def
      insert_group_def insert_feed_def insert_task_def insert_sync_log_def insert_audit_log_def
      split: if_splits)

lemma length_filter_filter: "length (filter p (filter q xs)) \<le> length (filter p xs)"
  by (induction xs) auto

lemma master_filter_ok:
  "length (filter is_master ks) \<le> Suc 0 \<Longrightarrow> length (filter is_master (filter q ks)) \<le> Suc 0"
  using length_filter_filter [of is_master q ks] by simp

lemmas db_ok_defs = db_ok_def unique_ok_def table_defs fk_ok_def has_key_def has_vault_def has_group_def has_task_def

lemma delete_simple_ok:
  assumes "db_ok db"
  shows "db_ok (delete_group_targets i db)" "db_ok (delete_task_targets i db)"
    "db_ok (delete_permission i db)" "db_ok (delete_feed_row i db)"
  using assms
  by (simp_all add: db_ok_defs delete_group_targets_def delete_task_targets_def delete_permission_def
      delete_feed_row_def distinct_map_filter list_all_iff)

lemma delete_group_row_ok: "db_ok db \<Longrightarrow> db_ok (delete_group_row i db)"
  by (auto simp: db_ok_defs delete_group_row_def distinct_map_filter list_all_iff)

lemma delete_tasks_where_ok: "db_ok db \<Longrightarrow> db_ok (delete_tasks_where p db)"
  by (fastforce simp: db_ok_defs delete_tasks_where_def distinct_map_filter list_all_iff list_ex_iff)

lemma delete_tasks_where_sel [simp]:
  "vaults (delete_tasks_where p db) = vaults db" "group_targets (delete_tasks_where p db) = group_targets db"
  "api_keys (delete_tasks_where p db) = api_keys db"
  "tasks (delete_tasks_where p db) = filter (\<lambda>t. \<not> p t) (tasks db)"
  by (simp_all add: delete_tasks_where_def)

lemma delete_task_row_ok: "db_ok db \<Longrightarrow> db_ok (delete_task_row i db)"
  by (simp add: delete_task_row_def delete_tasks_where_ok)

lemma delete_vault_row_ok:
  assumes "db_ok db" shows "db_ok (delete_vault_row i db)"
proof -
  let ?d = "delete_tasks_where (\<lambda>t. task_source_vault_id t = i) db"
  have "db_ok ?d" using assms by (rule delete_tasks_where_ok)
  then show ?thesis
    by (auto simp: db_ok_defs delete_vault_row_def Let_def distinct_map_filter list_all_iff)
qed

lemma set_null_simps [simp]:
  "alog_id (set_null is l) = alog_id l"
  "set_option (alog_api_key_id (set_null is l)) = set_option (alog_api_key_id l) - set is"
  by (auto simp: set_null_def split: option.splits)

lemma key_survives:
  "i \<in> key_id ` set ks \<Longrightarrow> i \<notin> S \<Longrightarrow> i \<in> key_id ` {k \<in> set ks. key_id k \<notin> S}"
  by auto

lemma delete_keys_ok: "db_ok db \<Longrightarrow> db_ok (delete_keys is db)"
  using master_filter_ok [of "api_keys db" "\<lambda>k. key_id k \<notin> set is"]
  by (simp add: db_ok_defs delete_keys_def distinct_map_filter list_all_iff comp_def key_survives)

lemmas delete_ok = delete_simple_ok delete_group_row_ok delete_task_row_ok delete_vault_row_ok delete_keys_ok

section \<open>Lookups\<close>

lemma find_key_Some: "find_key db i = Some k \<Longrightarrow> k \<in> set (api_keys db) \<and> key_id k = i"
  by (auto simp: find_key_def dest: find_eq_Some_D)

lemma find_vault_Some: "find_vault db i = Some v \<Longrightarrow> v \<in> set (vaults db) \<and> vault_id v = i"
  by (auto simp: find_vault_def dest: find_eq_Some_D)

lemma find_group_Some: "find_group db i = Some g \<Longrightarrow> g \<in> set (groups db) \<and> group_id g = i"
  by (auto simp: find_group_def dest: find_eq_Some_D)

lemma find_task_Some: "find_task db i = Some t \<Longrightarrow> t \<in> set (tasks db) \<and> task_id t = i"
  by (auto simp: find_task_def dest: find_eq_Some_D)

lemma distinct_map_eq: "distinct (map f xs) \<Longrightarrow> x \<in> set xs \<Longrightarrow> y \<in> set xs \<Longrightarrow> f x = f y \<Longrightarrow> x = y"
  by (simp add: distinct_map inj_on_def)

lemma find_distinct:
  "distinct (map f xs) \<Longrightarrow> x \<in> set xs \<Longrightarrow> List.find (\<lambda>y. f y = f x) xs = Some x"
  by (induction xs) (auto simp: rev_image_eqI)

lemma find_key_unique: "db_ok db \<Longrightarrow> k \<in> set (api_keys db) \<Longrightarrow> find_key db (key_id k) = Some k"
  by (simp add: find_key_def db_ok_defs find_distinct)

text \<open>Lookups by key after each change of a table.\<close>

lemma find_append_row:
  "k x \<notin> k ` set xs \<Longrightarrow> List.find (\<lambda>y. k y = i) (xs @ [x]) = (if i = k x then Some x else List.find (\<lambda>y. k y = i) xs)"
  by (induction xs) auto

lemma find_replace_row:
  "k r \<in> k ` set xs \<Longrightarrow> List.find (\<lambda>y. k y = i) (replace_row k r xs) = (if i = k r then Some r else List.find (\<lambda>y. k y = i) xs)"
proof (cases "i = k r")
  case True
  moreover assume "k r \<in> k ` set xs"
  ultimately show ?thesis by (induction xs) (auto simp: replace_row_def)
next
  case False
  then have "List.find (\<lambda>y. k y = i) (replace_row k r xs) = List.find (\<lambda>y. k y = i) xs"
    by (induction xs) (simp_all add: replace_row_def)
  with False show ?thesis by simp
qed

lemma find_filter_row:
  "List.find (\<lambda>y. k y = i) (filter (\<lambda>x. k x \<noteq> j) xs) = (if i = j then None else List.find (\<lambda>y. k y = i) xs)"
  by (induction xs) auto

lemma at_most_one_master:
  assumes "db_ok db" and "a \<in> set (api_keys db)" "b \<in> set (api_keys db)" "is_master a" "is_master b"
  shows "a = b"
proof -
  have "a \<in> set (filter is_master (api_keys db))" "b \<in> set (filter is_master (api_keys db))"
    using assms by auto
  moreover have "length (filter is_master (api_keys db)) \<le> 1"
    using assms(1) by (simp add: db_ok_defs)
  ultimately show ?thesis
    by (cases "filter is_master (api_keys db)") auto
qed

end
