(* ===== verification/Client.thy ===== *)
theory Client
  imports Retry Crypto Store
begin

text \<open>
  \<open>src/client.rs\<close>: signed calls to a remote vault, the retry and splitting policy of
  \<open>post_batch\<close>, and the paging of \<open>get_ips_delta\<close>. The \<open>url\<close>, \<open>serde_json\<close> and
  \<open>reqwest\<close> crates are fields of \<open>client_ops\<close> and \<open>world_ops\<close>.

  The locale \<open>batch_target\<close> states what the receiving vault promises about one batch request;
  its lemmas show that a run of \<open>post_batch\<close> that succeeds leaves the target group as one
  request with all the records would have. \<open>sim_vault\<close> is an executable vault that keeps the
  promise and refuses large batches.
\<close>

section \<open>Data\<close>

datatype client_error =
    InvalidUrl string
  | Decrypt crypto_error
  | Signing
  | Request string
  | RemoteError nat string

datatype batch_mode = Upsert | FullReplace

definition batch_mode_parse :: "string \<Rightarrow> batch_mode option" where
  "batch_mode_parse raw =
     (if raw = ''upsert'' then Some Upsert
      else if raw = ''full_replace'' then Some FullReplace
      else None)"

record batch_record =
  br_target_address :: string
  br_cause :: "string option"
  br_is_deleted :: "bool option"
  br_created_at :: "instant option"
  br_updated_at :: "instant option"
  br_last_seen_at :: "instant option"
  br_deleted_at :: "instant option"

record batch_response =
  created :: "64 word"
  updated :: "64 word"
  restored :: "64 word"
  locked_skipped :: "64 word"
  soft_deleted :: "64 word"
  linked :: "64 word"

definition batch_response_default :: batch_response where
  "batch_response_default =
     \<lparr>created = 0, updated = 0, restored = 0, locked_skipped = 0, soft_deleted = 0, linked = 0\<rparr>"

definition merge_response :: "batch_response \<Rightarrow> batch_response \<Rightarrow> batch_response" where
  "merge_response a b =
     \<lparr>created = created a + created b, updated = updated a + updated b,
      restored = restored a + restored b, locked_skipped = locked_skipped a + locked_skipped b,
      soft_deleted = soft_deleted a + soft_deleted b, linked = linked a + linked b\<rparr>"

record ip_record =
  ir_id :: uuid
  ir_target_address :: string
  ir_group_name :: string
  ir_cause :: "string option"
  ir_is_deleted :: bool
  ir_deleted_at :: "instant option"
  ir_created_at :: "instant option"
  ir_updated_at :: "instant option"
  ir_last_seen_at :: "instant option"

text \<open>
  The crates the client calls: \<open>Url::parse\<close> (the normalised text or an error), appending query
  pairs, reading the query back, the JSON bodies, and the text of a UUID. \<open>client_env\<close> puts them together with
  the world, the cryptography and the configuration.
\<close>

record client_ops =
  url_parse :: "string \<Rightarrow> string + string"
  url_append_pairs :: "string \<Rightarrow> (string \<times> string) list \<Rightarrow> string"
  url_query :: "string \<Rightarrow> string option"
  json_payload :: "string \<Rightarrow> batch_mode \<Rightarrow> batch_record list \<Rightarrow> bytes option"
  json_batch_response :: "bytes \<Rightarrow> batch_response option"
  json_ip_records :: "bytes \<Rightarrow> ip_record list option"
  uuid_string :: "uuid \<Rightarrow> string"

record 'w client_env =
  env_world :: "'w world_ops"
  env_ops :: client_ops
  env_crypto :: crypto_ops
  env_cipher :: secret_cipher
  env_retry :: retry_config

section \<open>One request\<close>

definition signed_headers ::
  "'w client_env \<Rightarrow> vault_endpoint \<Rightarrow> string \<Rightarrow> string \<Rightarrow> bytes \<Rightarrow> 'w \<Rightarrow> client_error + (string \<times> string \<times> string)"
where
  "signed_headers env endpoint meth target body w =
     ebind (map_err Decrypt (open_secret (env_crypto env) (env_cipher env) (vault_signing_secret endpoint))) (\<lambda>secret.
     let ts = dec_int (timestamp (utc_now (env_world env) w)) in
     ebind (map_err (\<lambda>_. Signing) (compute_signature (env_crypto env) secret meth target ts body)) (\<lambda>signature.
     Inr (vault_api_key endpoint, ts, signature)))"

definition join_endpoint :: "'w client_env \<Rightarrow> string \<Rightarrow> string \<Rightarrow> client_error + string" where
  "join_endpoint env base path =
     map_err InvalidUrl (url_parse (env_ops env) (trim_end_matches (CHR ''/'') base @ path))"

definition RECORDS_BATCH_PATH :: string where
  "RECORDS_BATCH_PATH = ''/api/records/batch''"

definition IPS_PATH :: string where
  "IPS_PATH = ''/api/ips''"

text \<open>
  What follows the answer of both calls: a failed send, a status outside 2xx with the first
  500 characters of its body, or the decoded body.
\<close>

definition read_response ::
  "(bytes \<Rightarrow> 'a option) \<Rightarrow> string + http_response \<Rightarrow> client_error + 'a" where
  "read_response decode r =
     ebind (map_err Request r) (\<lambda>resp.
     if \<not> is_success (resp_status resp)
     then Inl (RemoteError (resp_status resp) (take_chars 500 (text_or_default resp)))
     else ebind (map_err Request (whole_body (resp_chunks resp))) (\<lambda>b.
          ok_or (Request ''error decoding response body'') (decode b)))"

definition post_batch_once ::
  "'w client_env \<Rightarrow> vault_endpoint \<Rightarrow> string \<Rightarrow> batch_record list \<Rightarrow> batch_mode \<Rightarrow> 'w
    \<Rightarrow> (client_error + batch_response) \<times> 'w"
where
  "post_batch_once env endpoint grp records mode w =
     try_h (map_err InvalidUrl (url_parse (env_ops env) (vault_target_url endpoint))) w (\<lambda>base.
     try_h (join_endpoint env base RECORDS_BATCH_PATH) w (\<lambda>url.
     try_h (ok_or Signing (json_payload (env_ops env) grp mode records)) w (\<lambda>body.
     try_h (signed_headers env endpoint ''POST'' RECORDS_BATCH_PATH body w) w (\<lambda>(api_key, ts, signature).
     case http_send (env_world env)
            \<lparr>req_method = ''POST'', req_url = url,
             req_headers = [(''X-API-Key'', api_key), (''X-Timestamp'', ts), (''X-Signature-256'', signature),
                            (''Content-Type'', ''application/json'')],
             req_body = body\<rparr> w of
       (r, w1) \<Rightarrow> (read_response (json_batch_response (env_ops env)) r, w1)))))"

fun remote_status :: "client_error \<Rightarrow> nat option" where
  "remote_status (RemoteError status _) = Some status"
| "remote_status _ = None"

definition post_batch_with_retry ::
  "'w client_env \<Rightarrow> vault_endpoint \<Rightarrow> string \<Rightarrow> batch_record list \<Rightarrow> batch_mode \<Rightarrow> 'w
    \<Rightarrow> (client_error + batch_response) \<times> 'w"
where
  "post_batch_with_retry env endpoint grp records mode w =
     retry_loop (env_world env) (env_retry env) remote_status
       (post_batch_once env endpoint grp records mode) 0 w"

section \<open>The work queue of \<open>post_batch\<close>\<close>

definition splittable :: "'a list \<Rightarrow> client_error \<Rightarrow> bool" where
  "splittable chunk e \<longleftrightarrow>
     (case e of RemoteError status _ \<Rightarrow> 1 < length chunk \<and> (status = 413 \<or> is_transient_status status)
      | _ \<Rightarrow> False)"

definition second_mode :: "batch_mode \<Rightarrow> batch_mode" where
  "second_mode chunk_mode = (case chunk_mode of FullReplace \<Rightarrow> Upsert | Upsert \<Rightarrow> Upsert)"

definition pause_after_split :: "'w client_env \<Rightarrow> client_error \<Rightarrow> 'w \<Rightarrow> 'w" where
  "pause_after_split env e w =
     (if remote_status e \<noteq> Some 413
      then case backoff_with_jitter (env_world env) (env_retry env) 1 w of
             (delay, w') \<Rightarrow> sleep (env_world env) delay w'
      else w)"

lemma split_measure_aux:
  "1 \<le> a \<Longrightarrow> a < n \<Longrightarrow> max 1 (2 * a - 1) + max 1 (2 * (n - a) - 1) < max 1 (2 * n - (1::nat))"
  by (auto simp: max_def)

lemma split_measure:
  "Suc 0 < n \<Longrightarrow> max 1 (2 * (n div 2) - 1) + max 1 (2 * (n - n div 2) - 1) < max 1 (2 * n - (1::nat))"
  by (rule split_measure_aux) auto

text \<open>
  The loop, over the function that sends one chunk with its retries. The measure counts, for a
  queued chunk of \<open>n\<close> records, the \<open>2 n - 1\<close> requests splitting it down to single records can
  take.
\<close>

function post_batch_loop ::
  "('r list \<Rightarrow> batch_mode \<Rightarrow> 'w \<Rightarrow> (client_error + batch_response) \<times> 'w) \<Rightarrow> (client_error \<Rightarrow> 'w \<Rightarrow> 'w)
    \<Rightarrow> ('r list \<times> batch_mode) list \<Rightarrow> batch_response \<Rightarrow> 'w \<Rightarrow> (client_error + batch_response) \<times> 'w"
where
  "post_batch_loop send pause [] aggregate w = (Inr aggregate, w)"
| "post_batch_loop send pause ((chunk, chunk_mode) # queue) aggregate w =
     (case send chunk chunk_mode w of
        (Inr resp, w1) \<Rightarrow> post_batch_loop send pause queue (merge_response aggregate resp) w1
      | (Inl e, w1) \<Rightarrow>
          if splittable chunk e
          then let mid = length chunk div 2 in
               post_batch_loop send pause
                 ((take mid chunk, chunk_mode) # (drop mid chunk, second_mode chunk_mode) # queue)
                 aggregate (pause e w1)
          else (Inl e, w1))"
  by pat_completeness auto
termination
  by (relation "measure (\<lambda>(send, pause, queue, agg, w). sum_list (map (\<lambda>(c, m). max 1 (2 * length c - 1)) queue))")
    (use split_measure in \<open>fastforce simp: splittable_def min_def split: client_error.splits\<close>)+

definition post_batch ::
  "'w client_env \<Rightarrow> vault_endpoint \<Rightarrow> string \<Rightarrow> batch_record list \<Rightarrow> batch_mode \<Rightarrow> 'w
    \<Rightarrow> (client_error + batch_response) \<times> 'w"
where
  "post_batch env endpoint grp records mode w =
     post_batch_loop (post_batch_with_retry env endpoint grp) (pause_after_split env)
       [(records, mode)] batch_response_default w"

section \<open>Paging\<close>

definition DELTA_PAGE_SIZE :: nat where
  "DELTA_PAGE_SIZE = 5000"

definition get_ips_page ::
  "'w client_env \<Rightarrow> vault_endpoint \<Rightarrow> string \<Rightarrow> string \<Rightarrow> instant option \<Rightarrow> bool \<Rightarrow> nat \<Rightarrow> 'w
    \<Rightarrow> (client_error + ip_record list) \<times> 'w"
where
  "get_ips_page env endpoint base grp since include_deleted offset w =
     try_h (join_endpoint env base IPS_PATH) w (\<lambda>url0.
     let pairs = [(''group_name'', grp),
                  (''include_deleted'', if include_deleted then ''true'' else ''false''),
                  (''limit'', dec DELTA_PAGE_SIZE), (''offset'', dec offset)]
                 @ (case since of None \<Rightarrow> [] | Some t \<Rightarrow> [(''since'', dec_int (timestamp t))]);
         url = url_append_pairs (env_ops env) url0 pairs;
         target = (case url_query (env_ops env) url of Some q \<Rightarrow> IPS_PATH @ ''?'' @ q | None \<Rightarrow> IPS_PATH)
     in try_h (signed_headers env endpoint ''GET'' target [] w) w (\<lambda>(api_key, ts, signature).
        case http_send (env_world env)
               \<lparr>req_method = ''GET'', req_url = url,
                req_headers = [(''X-API-Key'', api_key), (''X-Timestamp'', ts), (''X-Signature-256'', signature)],
                req_body = []\<rparr> w of
          (r, w1) \<Rightarrow> (read_response (json_ip_records (env_ops env)) r, w1)))"

definition get_ips_page_with_retry ::
  "'w client_env \<Rightarrow> vault_endpoint \<Rightarrow> string \<Rightarrow> string \<Rightarrow> instant option \<Rightarrow> bool \<Rightarrow> nat \<Rightarrow> 'w
    \<Rightarrow> (client_error + ip_record list) \<times> 'w"
where
  "get_ips_page_with_retry env endpoint base grp since include_deleted offset w =
     retry_loop (env_world env) (env_retry env) remote_status
       (get_ips_page env endpoint base grp since include_deleted offset) 0 w"

text \<open>
  The page loop ends when a page is short. A source that only ever sends full pages keeps
  it going, so it is a partial function: \<open>None\<close> is a loop that does not end.
\<close>

partial_function (option) page_loop ::
  "(nat \<Rightarrow> 'w \<Rightarrow> (client_error + ip_record list) \<times> 'w) \<Rightarrow> nat \<Rightarrow> ip_record list \<Rightarrow> 'w
    \<Rightarrow> ((client_error + ip_record list) \<times> 'w) option"
where
  "page_loop fetch offset all_records w =
     (case fetch offset w of
        (Inl e, w1) \<Rightarrow> Some (Inl e, w1)
      | (Inr page, w1) \<Rightarrow>
          if length page < DELTA_PAGE_SIZE then Some (Inr (all_records @ page), w1)
          else page_loop fetch (offset + DELTA_PAGE_SIZE) (all_records @ page) w1)"

definition get_ips_delta ::
  "'w client_env \<Rightarrow> vault_endpoint \<Rightarrow> string \<Rightarrow> instant option \<Rightarrow> bool \<Rightarrow> 'w
    \<Rightarrow> ((client_error + ip_record list) \<times> 'w) option"
where
  "get_ips_delta env endpoint grp since include_deleted w =
     (case url_parse (env_ops env) (vault_target_url endpoint) of
        Inl e \<Rightarrow> Some (Inl (InvalidUrl e), w)
      | Inr base \<Rightarrow>
          page_loop (get_ips_page_with_retry env endpoint base grp since include_deleted) 0 [] w)"

section \<open>What a receiving vault promises\<close>

text \<open>
  A batch request that succeeds applies its records to the group; one that fails has applied
  them all or none (a gateway may time out after the vault has committed). Applying records is
  cumulative and repeatable, and a full replacement forgets what was there.
\<close>

locale batch_target =
  fixes send :: "'r list \<Rightarrow> batch_mode \<Rightarrow> 'w \<Rightarrow> (client_error + batch_response) \<times> 'w"
    and pause :: "client_error \<Rightarrow> 'w \<Rightarrow> 'w"
    and grp_of :: "'w \<Rightarrow> 'g"
    and apply_batch :: "batch_mode \<Rightarrow> 'r list \<Rightarrow> 'g \<Rightarrow> 'g"
  assumes sent_ok: "send rs m w = (Inr resp, w') \<Longrightarrow> grp_of w' = apply_batch m rs (grp_of w)"
    and sent_err: "send rs m w = (Inl e, w') \<Longrightarrow>
      grp_of w' = grp_of w \<or> grp_of w' = apply_batch m rs (grp_of w)"
    and paused: "grp_of (pause e w) = grp_of w"
    and upsert_append: "apply_batch Upsert (xs @ ys) g = apply_batch Upsert ys (apply_batch Upsert xs g)"
    and replace_append: "apply_batch FullReplace (xs @ ys) g = apply_batch Upsert ys (apply_batch FullReplace xs g)"
    and upsert_idem: "apply_batch Upsert xs (apply_batch Upsert xs g) = apply_batch Upsert xs g"
    and replace_forgets: "apply_batch FullReplace xs g = apply_batch FullReplace xs g'"
begin

lemma apply_idem: "apply_batch m xs (apply_batch m xs g) = apply_batch m xs g"
  using upsert_idem replace_forgets by (cases m) auto

lemma apply_split:
  "apply_batch (second_mode m) (drop k xs) (apply_batch m (take k xs) g) = apply_batch m xs g"
  using upsert_append [of "take k xs" "drop k xs" g] replace_append [of "take k xs" "drop k xs" g]
  by (cases m) (simp_all add: second_mode_def)

lemma loop_delivers:
  "s = send \<Longrightarrow> p = pause \<Longrightarrow> post_batch_loop s p q agg w = (Inr r, w') \<Longrightarrow>
     grp_of w' = foldl (\<lambda>g (c, m). apply_batch m c g) (grp_of w) q"
proof (induction s p q agg w rule: post_batch_loop.induct)
  case (1 s p agg w)
  then show ?case by simp
next
  case (2 s p chunk m queue agg w)
  obtain x w1 where x: "send chunk m w = (x, w1)" by fastforce
  show ?case
  proof (cases x)
    case (Inr resp)
    then show ?thesis
      using "2.IH"(2) [of x w1 resp] "2.prems" x sent_ok [OF x [unfolded Inr]] by simp
  next
    case (Inl e)
    with 2 x have sp: "splittable chunk e" by (auto split: if_splits)
    let ?k = "length chunk div 2"
    have "grp_of (pause e w1) = grp_of w \<or> grp_of (pause e w1) = apply_batch m chunk (grp_of w)"
      using sent_err [OF x [unfolded Inl]] by (simp add: paused)
    then have "apply_batch (second_mode m) (drop ?k chunk)
        (apply_batch m (take ?k chunk) (grp_of (pause e w1))) = apply_batch m chunk (grp_of w)"
      by (auto simp: apply_split apply_idem)
    then show ?thesis
      using "2.IH"(1) [of x w1 e ?k] "2.prems" x Inl sp by (simp add: Let_def)
  qed
qed

end

text \<open>The same promises for the single request, and for the pauses between requests.\<close>

locale batch_endpoint =
  fixes env :: "'w client_env" and endpoint :: vault_endpoint and grp :: string
    and grp_of :: "'w \<Rightarrow> 'g"
    and apply_batch :: "batch_mode \<Rightarrow> batch_record list \<Rightarrow> 'g \<Rightarrow> 'g"
  assumes once_ok: "post_batch_once env endpoint grp rs m w = (Inr resp, w') \<Longrightarrow>
      grp_of w' = apply_batch m rs (grp_of w)"
    and once_err: "post_batch_once env endpoint grp rs m w = (Inl e, w') \<Longrightarrow>
      grp_of w' = grp_of w \<or> grp_of w' = apply_batch m rs (grp_of w)"
    and slept: "grp_of (sleep (env_world env) d w) = grp_of w"
    and drawn: "grp_of (snd (random_range (env_world env) c w)) = grp_of w"
    and upserts_append: "apply_batch Upsert (xs @ ys) g = apply_batch Upsert ys (apply_batch Upsert xs g)"
    and replaces_append: "apply_batch FullReplace (xs @ ys) g = apply_batch Upsert ys (apply_batch FullReplace xs g)"
    and upserts_idem: "apply_batch Upsert xs (apply_batch Upsert xs g) = apply_batch Upsert xs g"
    and upserts_nil: "apply_batch Upsert [] g = g"
    and replaces_forget: "apply_batch FullReplace xs g = apply_batch FullReplace xs g'"
begin

lemma grp_of_backoff: "backoff_with_jitter (env_world env) cfg k w = (d, w') \<Longrightarrow> grp_of w' = grp_of w"
  using drawn by (auto simp: backoff_with_jitter_def Let_def split: prod.splits) (metis snd_conv)

lemma applied_idem: "apply_batch m xs (apply_batch m xs g) = apply_batch m xs g"
  using upserts_idem replaces_forget by (cases m) auto

lemma with_retry:
  "case post_batch_with_retry env endpoint grp rs m w of
     (Inr resp, w') \<Rightarrow> grp_of w' = apply_batch m rs (grp_of w)
   | (Inl e, w') \<Rightarrow> grp_of w' = grp_of w \<or> grp_of w' = apply_batch m rs (grp_of w)"
  unfolding post_batch_with_retry_def
  by (rule retry_loop_induct [where P = "\<lambda>v. grp_of v = grp_of w \<or> grp_of v = apply_batch m rs (grp_of w)"])
    (auto simp: applied_idem slept dest!: once_ok once_err grp_of_backoff)

end

sublocale batch_endpoint \<subseteq> target: batch_target "post_batch_with_retry env endpoint grp" "pause_after_split env" grp_of apply_batch
proof
  show "grp_of w' = apply_batch m rs (grp_of w)"
    if "post_batch_with_retry env endpoint grp rs m w = (Inr resp, w')" for rs m w resp w'
    using with_retry [where rs = rs and m = m and w = w] that by simp
  show "grp_of w' = grp_of w \<or> grp_of w' = apply_batch m rs (grp_of w)"
    if "post_batch_with_retry env endpoint grp rs m w = (Inl e, w')" for rs m w e w'
    using with_retry [where rs = rs and m = m and w = w] that by simp
  show "grp_of (pause_after_split env e w) = grp_of w" for e w
    using grp_of_backoff by (auto simp: pause_after_split_def slept split: prod.splits)
qed (fact upserts_append replaces_append upserts_idem replaces_forget)+

context batch_endpoint
begin

lemma post_batch_group:
  "post_batch env endpoint grp records mode w = (Inr resp, w') \<Longrightarrow>
     grp_of w' = apply_batch mode records (grp_of w)"
  unfolding post_batch_def by (drule target.loop_delivers [OF refl refl]) simp

end

text \<open>
  Splitting ends in success when the target takes every batch up to some size and answers
  larger ones with an error that splitting reacts to.
\<close>

lemma loop_succeeds:
  assumes "\<And>rs m w. length rs \<le> limit \<Longrightarrow> \<exists>r w'. send rs m w = (Inr r, w')"
    and "\<And>rs m w e w'. send rs m w = (Inl e, w') \<Longrightarrow> limit < length rs \<Longrightarrow>
      \<exists>b st. e = RemoteError st b \<and> (st = 413 \<or> is_transient_status st)"
    and "1 \<le> limit"
  shows "\<exists>r w'. post_batch_loop send pause q agg w = (Inr r, w')"
proof -
  have "s = send \<Longrightarrow> \<exists>r w'. post_batch_loop s p q agg w = (Inr r, w')" for s p
  proof (induction s p q agg w rule: post_batch_loop.induct)
    case (1 s p agg w)
    then show ?case by simp
  next
    case (2 s p chunk m queue agg w)
    obtain x w1 where x: "send chunk m w = (x, w1)" by fastforce
    show ?case
    proof (cases x)
      case (Inr resp)
      then show ?thesis using "2.IH"(2) [of x w1 resp] "2.prems" x by simp
    next
      case (Inl e)
      then have l: "limit < length chunk"
        using assms(1) [of chunk m w] x by (cases "length chunk \<le> limit") auto
      then have "splittable chunk e"
        using assms(2) [of chunk m w e w1] assms(3) x Inl by (auto simp: splittable_def)
      then show ?thesis
        using "2.IH"(1) [of x w1 e "length chunk div 2"] "2.prems" x Inl by (simp add: Let_def)
    qed
  qed
  then show ?thesis by blast
qed

text \<open>A source whose pages are the successive slices of one listing.\<close>

locale page_source =
  fixes fetch :: "nat \<Rightarrow> 'w \<Rightarrow> (client_error + ip_record list) \<times> 'w"
    and listing :: "ip_record list" and steady :: "'w \<Rightarrow> bool"
  assumes fetched: "steady w \<Longrightarrow>
    \<exists>w'. fetch offset w = (Inr (take DELTA_PAGE_SIZE (drop offset listing)), w') \<and> steady w'"
begin

lemma page_loop_all:
  "steady w \<Longrightarrow> \<exists>w'. page_loop fetch offset acc w = Some (Inr (acc @ drop offset listing), w') \<and> steady w'"
proof (induction "length listing - offset" arbitrary: offset acc w rule: less_induct)
  case less
  obtain w1 where w1: "fetch offset w = (Inr (take DELTA_PAGE_SIZE (drop offset listing)), w1)" "steady w1"
    using fetched less.prems by blast
  show ?case
  proof (cases "length listing - offset < DELTA_PAGE_SIZE")
    case True
    with w1 show ?thesis by (subst page_loop.simps) auto
  next
    case False
    have z: "0 < DELTA_PAGE_SIZE" by (simp add: DELTA_PAGE_SIZE_def)
    have "\<exists>w'. page_loop fetch (offset + DELTA_PAGE_SIZE) (acc @ take DELTA_PAGE_SIZE (drop offset listing)) w1
        = Some (Inr ((acc @ take DELTA_PAGE_SIZE (drop offset listing)) @ drop (offset + DELTA_PAGE_SIZE) listing), w')
        \<and> steady w'"
      using False z w1(2) by (intro less.hyps) auto
    moreover have "take DELTA_PAGE_SIZE (drop offset listing) @ drop (offset + DELTA_PAGE_SIZE) listing
        = drop offset listing"
      by (metis append_take_drop_id drop_drop add.commute)
    ultimately show ?thesis
      using False w1(1) by (subst page_loop.simps) auto
  qed
qed

end

section \<open>A simulated vault\<close>

text \<open>
  The vaults keep, per URL and group name, the set of live addresses, and refuse a batch larger
  than their limit with 413. Bodies carry the group name, the mode and, per record, whether
  it is a tombstone and its address; listings are served from a fixed list, by offset.
\<close>

record sim_world =
  sim_live :: "string \<times> string \<Rightarrow> string set"
  sim_limit :: nat

definition is_tombstone :: "batch_record \<Rightarrow> bool" where
  "is_tombstone r \<longleftrightarrow> br_is_deleted r = Some True"

fun live_step :: "string set \<Rightarrow> bool \<times> string \<Rightarrow> string set" where
  "live_step S (dead, a) = (if dead then S - {a} else insert a S)"

definition live_item :: "batch_record \<Rightarrow> bool \<times> string" where
  "live_item r = (is_tombstone r, br_target_address r)"

fun apply_items :: "batch_mode \<Rightarrow> (bool \<times> string) list \<Rightarrow> string set \<Rightarrow> string set" where
  "apply_items Upsert xs S = foldl live_step S xs"
| "apply_items FullReplace xs S = foldl live_step {} xs"

definition apply_live :: "batch_mode \<Rightarrow> batch_record list \<Rightarrow> string set \<Rightarrow> string set" where
  "apply_live m rs S = apply_items m (map live_item rs) S"

fun enc_item :: "bool \<times> string \<Rightarrow> string" where
  "enc_item (dead, a) = (if dead then CHR ''d'' else CHR ''a'') # hex_enc a"

definition enc_payload :: "string \<Rightarrow> batch_mode \<Rightarrow> (bool \<times> string) list \<Rightarrow> bytes" where
  "enc_payload g m xs =
     (case m of Upsert \<Rightarrow> CHR ''u'' | FullReplace \<Rightarrow> CHR ''f'') #
     concat (map (\<lambda>x. enc_item x @ '','') ((False, g) # xs))"

definition dec_item :: "string \<Rightarrow> bool \<times> string" where
  "dec_item s = (hd s = CHR ''d'', the (hex_dec (tl s)))"

definition dec_payload :: "bytes \<Rightarrow> string \<times> batch_mode \<times> (bool \<times> string) list" where
  "dec_payload b =
     (let items = map dec_item (butlast (split_char (CHR '','') (tl b))) in
      (snd (hd items), if hd b = CHR ''u'' then Upsert else FullReplace, tl items))"

definition sim_reply :: "nat \<Rightarrow> http_response" where
  "sim_reply st = \<lparr>resp_status = st, resp_content_length = None, resp_chunks = [Inr ''ok'']\<rparr>"

definition sim_send :: "http_request \<Rightarrow> sim_world \<Rightarrow> (string + http_response) \<times> sim_world" where
  "sim_send req w =
     (if req_method req = ''POST'' then
        (case dec_payload (req_body req) of (g, m, xs) \<Rightarrow>
           if sim_limit w < length xs then (Inr (sim_reply 413), w)
           else (Inr (sim_reply 200),
                 w\<lparr>sim_live := (sim_live w)((req_url req, g) := apply_items m xs (sim_live w (req_url req, g)))\<rparr>))
      else if req_url req = ''0'' then (Inr (sim_reply 200), w)
      else (Inr \<lparr>resp_status = 200, resp_content_length = None, resp_chunks = []\<rparr>, w))"

definition sim_key :: "vault_endpoint \<Rightarrow> string \<Rightarrow> string \<times> string" where
  "sim_key v g = (trim_end_matches (CHR ''/'') (vault_target_url v) @ RECORDS_BATCH_PATH, g)"

definition sim_group :: "string \<times> string \<Rightarrow> sim_world \<Rightarrow> string set" where
  "sim_group k w = sim_live w k"

definition sim_listing :: "ip_record list" where
  "sim_listing =
     [\<lparr>ir_id = 7, ir_target_address = ''8.8.8.8'', ir_group_name = ''g'', ir_cause = None,
       ir_is_deleted = False, ir_deleted_at = None, ir_created_at = None, ir_updated_at = None,
       ir_last_seen_at = None\<rparr>]"

definition sim_env :: "sim_world client_env" where
  "sim_env =
     \<lparr>env_world = \<lparr>http_send = sim_send, utc_now = (\<lambda>_. 0), monotonic_now = (\<lambda>_. 0),
        sleep = (\<lambda>_ w. w), random_range = (\<lambda>c w. (c, w))\<rparr>,
      env_ops = \<lparr>url_parse = Inr,
        url_append_pairs = (\<lambda>_ ps. case map_of ps ''offset'' of None \<Rightarrow> [] | Some s \<Rightarrow> s),
        url_query = Some, json_payload = (\<lambda>g m rs. Some (enc_payload g m (map live_item rs))),
        json_batch_response = (\<lambda>_. Some batch_response_default),
        json_ip_records = (\<lambda>b. Some (if b = ''ok'' then sim_listing else [])),
        uuid_string = (\<lambda>i. dec (unat i))\<rparr>,
      env_crypto = toy_crypto, env_cipher = Plaintext,
      env_retry = \<lparr>outbound_max_retries = 1, outbound_retry_backoff_ms = 1\<rparr>\<rparr>"

definition sim_endpoint :: vault_endpoint where
  "sim_endpoint =
     \<lparr>vault_id = 1, vault_name = ''v'', vault_target_url = ''http://v'', vault_api_key = ''k'',
      vault_signing_secret = ''v1.plain.6b'', vault_description = None, vault_owner_key_id = None,
      vault_created_at = 0, vault_updated_at = 0\<rparr>"

lemma sim_env_simps:
  "http_send (env_world sim_env) = sim_send" "url_parse (env_ops sim_env) u = Inr u"
  "url_append_pairs (env_ops sim_env) u ps = (case map_of ps ''offset'' of None \<Rightarrow> [] | Some s \<Rightarrow> s)"
  "url_query (env_ops sim_env) u = Some u"
  "json_payload (env_ops sim_env) g m rs = Some (enc_payload g m (map live_item rs))"
  "json_batch_response (env_ops sim_env) b = Some batch_response_default"
  "json_ip_records (env_ops sim_env) b = Some (if b = ''ok'' then sim_listing else [])"
  by (simp_all add: sim_env_def)

lemma live_mem:
  "x \<in> foldl live_step S xs \<longleftrightarrow> (if x \<in> snd ` set xs then x \<in> foldl live_step {} xs else x \<in> S)"
  by (induction xs rule: rev_induct) (auto split: if_splits)

lemma live_idem: "foldl live_step (foldl live_step S xs) xs = foldl live_step S xs"
  by (rule set_eqI) (metis live_mem)

lemma hex_enc_no_comma: "CHR '','' \<notin> set (hex_enc s)"
  using toy_suite.hex_encode_chars [of "CHR '',''" s]
  by (auto simp: toy_crypto_def is_ascii_hexdigit_def)

lemma enc_item_no_comma: "c \<in> set (enc_item x) \<Longrightarrow> c \<noteq> CHR '',''"
  using hex_enc_no_comma by (cases x) (auto split: if_splits)

lemma split_items:
  "split_char (CHR '','') (concat (map (\<lambda>x. enc_item x @ '','') xs)) = map enc_item xs @ [[]]"
proof (induction xs)
  case Nil
  then show ?case by simp
next
  case (Cons x xs)
  then show ?case
    using split_by_append [of "enc_item x" "\<lambda>c. c = CHR '',''" "CHR '',''"] enc_item_no_comma [of _ x]
    by simp
qed

lemma dec_enc_payload: "dec_payload (enc_payload g m xs) = (g, m, xs)"
proof -
  have "dec_item (enc_item x) = x" for x
    by (cases x) (simp add: dec_item_def hex_dec_enc)
  then show ?thesis
    unfolding dec_payload_def enc_payload_def list.sel split_items
    by (cases m) (simp_all add: comp_def del: enc_item.simps)
qed

text \<open>The outcome of one request to the simulated vault, whatever the signature is.\<close>

lemma sim_once:
  "post_batch_once sim_env endpoint grp rs m w =
     (case signed_headers sim_env endpoint ''POST'' RECORDS_BATCH_PATH (enc_payload grp m (map live_item rs)) w of
        Inl e \<Rightarrow> (Inl e, w)
      | Inr _ \<Rightarrow>
          if sim_limit w < length rs then (Inl (RemoteError 413 ''ok''), w)
          else (Inr batch_response_default,
                w\<lparr>sim_live := (sim_live w)(sim_key endpoint grp := apply_live m rs (sim_live w (sim_key endpoint grp)))\<rparr>))"
proof -
  have "take_chars 500 (text_or_default (sim_reply 413)) = ''ok''"
    by (simp add: sim_reply_def text_or_default_def utf8_chunk_def numeral_eq_Suc)
  then show ?thesis
    by (auto simp: post_batch_once_def sim_env_simps join_endpoint_def sim_send_def dec_enc_payload
        read_response_def sim_reply_def is_success_def apply_live_def sim_key_def split: sum.splits prod.splits)
qed

interpretation sim: batch_endpoint sim_env endpoint grp "sim_group (sim_key endpoint grp)" apply_live
  by unfold_locales
    (auto simp: sim_once sim_group_def apply_live_def live_idem split: sum.splits if_splits, simp_all add: sim_env_def)

section \<open>Properties\<close>

text \<open>
  C8. Delivery: a call of \<open>post_batch\<close> that succeeds, however often it retried and split,
  leaves the target group as one successful request with all the records in the requested mode
  would have left it. In particular the split never lets a later part of a full replacement
  erase an earlier part.
\<close>

theorem post_batch_delivers:
  assumes "batch_endpoint env endpoint grp grp_of apply_batch"
    and "post_batch env endpoint grp records mode w = (Inr resp, w')"
  shows "grp_of w' = apply_batch mode records (grp_of w)"
  using batch_endpoint.post_batch_group [OF assms] .

definition sim_record :: "string \<Rightarrow> batch_record" where
  "sim_record a = \<lparr>br_target_address = a, br_cause = None, br_is_deleted = None, br_created_at = None,
     br_updated_at = None, br_last_seen_at = None, br_deleted_at = None\<rparr>"

lemma sim_headers: "\<exists>h. signed_headers sim_env sim_endpoint meth target body w = Inr h"
  by (simp add: signed_headers_def sim_env_def sim_endpoint_def open_secret_def strip_prefix_def
      PLAINTEXT_PREFIX_def toy_crypto_def to_digit_def from_utf8_def utf8_chunk_def compute_signature_def Let_def)

lemma sim_retry:
  "post_batch_with_retry sim_env sim_endpoint grp rs m w =
     (if sim_limit w < length rs then (Inl (RemoteError 413 ''ok''), w)
      else (Inr batch_response_default,
            w\<lparr>sim_live := (sim_live w)(sim_key sim_endpoint grp := apply_live m rs (sim_live w (sim_key sim_endpoint grp)))\<rparr>))"
  using sim_headers [of "''POST''" RECORDS_BATCH_PATH "enc_payload grp m (map live_item rs)" w]
  by (auto simp: post_batch_with_retry_def retry_loop_once sim_once transient_failure_def
      is_transient_status_def)

theorem post_batch_delivers_witness:
  "\<exists>resp w'. post_batch sim_env sim_endpoint ''g'' (map sim_record [''a'', ''b'', ''c'']) FullReplace
      \<lparr>sim_live = (\<lambda>_. {''old''}), sim_limit = 1\<rparr> = (Inr resp, w')
    \<and> sim_group (sim_key sim_endpoint ''g'') w' = {''a'', ''b'', ''c''}"
proof -
  let ?w = "\<lparr>sim_live = (\<lambda>_. {''old''}), sim_limit = 1\<rparr>"
  obtain resp w' where p: "post_batch sim_env sim_endpoint ''g'' (map sim_record [''a'', ''b'', ''c'']) FullReplace ?w
      = (Inr resp, w')"
    by (simp add: post_batch_def sim_retry splittable_def Let_def pause_after_split_def)
  have "sim_group (sim_key sim_endpoint ''g'') w' =
      apply_live FullReplace (map sim_record [''a'', ''b'', ''c'']) (sim_group (sim_key sim_endpoint ''g'') ?w)"
    by (rule post_batch_delivers [OF sim.batch_endpoint_axioms p])
  then show ?thesis
    using p by (auto simp: apply_live_def live_item_def is_tombstone_def sim_record_def)
qed

text \<open>
  C13. Splitting ends in success: when the target accepts every batch of up to some positive
  number of records and answers each larger one with success, 413 or a transient status, then
  \<open>post_batch\<close> succeeds for every batch, whatever its size.
\<close>

theorem post_batch_succeeds:
  assumes "\<And>rs m w. length rs \<le> limit \<Longrightarrow>
      \<exists>r w'. post_batch_with_retry env endpoint grp rs m w = (Inr r, w')"
    and "\<And>rs m w e w'. post_batch_with_retry env endpoint grp rs m w = (Inl e, w') \<Longrightarrow> limit < length rs \<Longrightarrow>
      \<exists>b st. e = RemoteError st b \<and> (st = 413 \<or> is_transient_status st)"
    and "1 \<le> limit"
  shows "\<exists>resp w'. post_batch env endpoint grp records mode w = (Inr resp, w')"
  unfolding post_batch_def by (rule loop_succeeds [OF assms])

theorem post_batch_succeeds_witness:
  "\<exists>resp w'. post_batch (sim_env\<lparr>env_world := (env_world sim_env)\<lparr>http_send :=
        (\<lambda>req w. if 3 < length (req_body req) then (Inr (sim_reply 413), w) else (Inr (sim_reply 200), w))\<rparr>,
      env_ops := (env_ops sim_env)\<lparr>json_payload := (\<lambda>_ _ rs. Some (replicate (length rs) CHR 0x00))\<rparr>\<rparr>)
    sim_endpoint ''g'' (replicate 40 (sim_record ''a'')) Upsert \<lparr>sim_live = (\<lambda>_. {}), sim_limit = 0\<rparr> = (Inr resp, w')"
proof -
  let ?env = "sim_env\<lparr>env_world := (env_world sim_env)\<lparr>http_send :=
        (\<lambda>req w. if 3 < length (req_body req) then (Inr (sim_reply 413), w) else (Inr (sim_reply 200), w))\<rparr>,
      env_ops := (env_ops sim_env)\<lparr>json_payload := (\<lambda>_ _ rs. Some (replicate (length rs) CHR 0x00))\<rparr>\<rparr>"
  have h: "\<exists>h. signed_headers ?env sim_endpoint meth target body w = Inr h" for meth target body w
    using sim_headers [of meth target body w] by (simp add: signed_headers_def sim_env_def)
  have once: "post_batch_once ?env sim_endpoint grp rs m w =
     (if 3 < length rs then (Inl (RemoteError 413 (take_chars 500 (text_or_default (sim_reply 413)))), w)
      else (Inr batch_response_default, w))" for grp rs m w
    using h [of "''POST''" RECORDS_BATCH_PATH "replicate (length rs) CHR 0x00" w]
    by (auto simp: post_batch_once_def join_endpoint_def read_response_def is_success_def)
      (auto simp: sim_env_def sim_reply_def)
  have "post_batch_with_retry ?env sim_endpoint grp rs m w =
     (if 3 < length rs then (Inl (RemoteError 413 (take_chars 500 (text_or_default (sim_reply 413)))), w)
      else (Inr batch_response_default, w))" for grp rs m w
    by (simp add: post_batch_with_retry_def retry_loop_once once transient_failure_def is_transient_status_def)
  then show ?thesis
    by (intro post_batch_succeeds [where limit = 3]) (auto split: if_splits)
qed

text \<open>
  C14. Paging: from a source vault whose pages are the successive slices of one listing,
  \<open>get_ips_delta\<close> ends and returns the whole listing, in order, nothing twice.
\<close>

theorem get_ips_delta_complete:
  assumes "url_parse (env_ops env) (vault_target_url endpoint) = Inr base"
    and "page_source (get_ips_page_with_retry env endpoint base grp since include_deleted) listing steady"
    and "steady w"
  shows "\<exists>w'. get_ips_delta env endpoint grp since include_deleted w = Some (Inr listing, w')"
  using page_source.page_loop_all [OF assms(2,3), of 0 "[]"] assms(1)
  by (auto simp: get_ips_delta_def)

lemma dec_0: "dec 0 = ''0''"
  by code_simp

lemma dec_zero_iff: "dec n = ''0'' \<longleftrightarrow> n = 0"
proof
  assume "dec n = ''0''"
  with digits_val_dec [of 0 n] show "n = 0" by (simp add: to_digit_def)
qed (simp add: dec_0)

interpretation sim_pages: page_source
  "get_ips_page_with_retry sim_env sim_endpoint base grp since include_deleted" sim_listing "\<lambda>v. v = w0"
proof
  fix w offset
  assume "w = w0"
  have "get_ips_page sim_env sim_endpoint base grp since include_deleted offset w =
      (Inr (if offset = 0 then sim_listing else []), w)"
    using sim_headers [of "''GET''" "IPS_PATH @ CHR ''?'' # dec offset" "[]" w]
    by (auto simp: get_ips_page_def join_endpoint_def sim_env_simps sim_send_def read_response_def
        sim_reply_def is_success_def dec_zero_iff Let_def)
  then show "\<exists>w'. get_ips_page_with_retry sim_env sim_endpoint base grp since include_deleted offset w
      = (Inr (take DELTA_PAGE_SIZE (drop offset sim_listing)), w') \<and> w' = w0"
    using \<open>w = w0\<close> by (auto simp: get_ips_page_with_retry_def retry_loop_once transient_failure_def DELTA_PAGE_SIZE_def sim_listing_def)
qed

theorem get_ips_delta_complete_witness:
  "\<exists>w'. get_ips_delta sim_env sim_endpoint ''g'' None True \<lparr>sim_live = (\<lambda>_. {}), sim_limit = 1\<rparr> = Some (Inr sim_listing, w')"
  by (rule get_ips_delta_complete [where base = "vault_target_url sim_endpoint" and steady = "\<lambda>v. v = \<lparr>sim_live = (\<lambda>_. {}), sim_limit = 1\<rparr>"])
    (simp_all add: sim_env_simps sim_pages.page_source_axioms)

end
