(* ===== verification/Errors.thy ===== *)
theory Errors
  imports Store Crypto
begin

text \<open>
  \<open>src/error.rs\<close>: the error type every handler and job returns, and the HTTP response each
  variant becomes. The conversions \<open>From<DbErr>\<close> and \<open>From<CryptoError>\<close> that the question mark
  operator applies are \<open>db_error\<close> and \<open>crypto_app_error\<close>.
\<close>

text \<open>One line of the inventory that a refused key deletion returns.\<close>

record owned_resource =
  owned_type :: string
  owned_id :: uuid
  owned_name :: string
  owned_owner :: "uuid option"

datatype app_error =
    DbError db_err
  | InvalidInput string
  | Unauthorized string
  | Forbidden string
  | NotFound
  | Conflict string
  | ConflictWithDetails string "owned_resource list"
  | BodyRejected nat string
  | Internal

definition crypto_app_error :: "crypto_error \<Rightarrow> app_error" where
  "crypto_app_error _ = Internal"

text \<open>The response: status, the text under \<open>error\<close>, and the merged structured detail.\<close>

fun into_response :: "app_error \<Rightarrow> nat \<times> string \<times> owned_resource list" where
  "into_response (DbError _) = (500, ''Internal server error'', [])"
| "into_response (InvalidInput msg) = (400, msg, [])"
| "into_response (Unauthorized msg) = (401, msg, [])"
| "into_response (Forbidden msg) = (403, msg, [])"
| "into_response NotFound = (404, ''Resource not found'', [])"
| "into_response (Conflict msg) = (409, msg, [])"
| "into_response (ConflictWithDetails message details) = (409, message, details)"
| "into_response (BodyRejected status msg) = (status, msg, [])"
| "into_response Internal = (500, ''Internal server error'', [])"

definition sql :: "db_err + 'a \<Rightarrow> app_error + 'a" where
  "sql r = map_err DbError r"

definition crypto_result :: "crypto_error + 'a \<Rightarrow> app_error + 'a" where
  "crypto_result r = map_err crypto_app_error r"

lemma sql_eq_Inr [simp]: "sql r = Inr a \<longleftrightarrow> r = Inr a"
  by (simp add: sql_def)

lemma sql_Inr [simp]: "sql (Inr a) = Inr a"
  by (simp add: sql_def)

lemma crypto_result_eq_Inr [simp]: "crypto_result r = Inr a \<longleftrightarrow> r = Inr a"
  by (simp add: crypto_result_def)

end
