(* ===== verification/Jobs.thy ===== *)
theory Jobs
  imports Client Errors
begin

text \<open>
  \<open>src/jobs/mod.rs\<close>: the slots that keep two executions of one resource apart, the chunking
  of a record set, the mode of each chunk, and the \<open>sync_logs\<close> row of an execution. Executions
  are interleaved by the inductive relation \<open>job_step\<close>.
\<close>

section \<open>Running jobs\<close>

record running_jobs =
  running :: "uuid set"
  running_poisoned :: bool

definition try_start_job :: "running_jobs \<Rightarrow> uuid \<Rightarrow> bool \<times> running_jobs" where
  "try_start_job rj i =
     (if running_poisoned rj then (False, rj)
      else if i \<in> running rj then (False, rj)
      else (True, rj\<lparr>running := insert i (running rj)\<rparr>))"

definition job_guard_drop :: "running_jobs \<Rightarrow> uuid \<Rightarrow> running_jobs" where
  "job_guard_drop rj i = (if running_poisoned rj then rj else rj\<lparr>running := running rj - {i}\<rparr>)"

text \<open>
  The interleavings: a job starts when its claim is granted, and it ends, in whatever
  way, with the guard's drop. The executions in flight are a list of resource ids.
\<close>

inductive job_step :: "running_jobs \<times> uuid list \<Rightarrow> running_jobs \<times> uuid list \<Rightarrow> bool" where
  start: "try_start_job rj i = (True, rj') \<Longrightarrow> job_step (rj, act) (rj', i # act)"
| refused: "try_start_job rj i = (False, rj') \<Longrightarrow> job_step (rj, act) (rj', act)"
| finish: "i \<in> set act \<Longrightarrow> job_step (rj, act) (job_guard_drop rj i, remove1 i act)"
| poison: "job_step (rj, act) (rj\<lparr>running_poisoned := True\<rparr>, act)"

inductive_cases job_stepE: "job_step (rj, act) s"

definition jobs_init :: "running_jobs \<times> uuid list" where
  "jobs_init = (\<lparr>running = {}, running_poisoned = False\<rparr>, [])"

definition slots_ok :: "running_jobs \<times> uuid list \<Rightarrow> bool" where
  "slots_ok s = (case s of (rj, act) \<Rightarrow>
     distinct act \<and> set act \<subseteq> running rj \<and> (\<not> running_poisoned rj \<longrightarrow> running rj = set act))"

lemma slots_ok_step:
  assumes "job_step s s'" and "slots_ok s"
  shows "slots_ok s'"
  using assms
proof (induction rule: job_step.induct)
  case (start rj i rj' act)
  then have "rj' = rj\<lparr>running := insert i (running rj)\<rparr>" "i \<notin> running rj" "\<not> running_poisoned rj"
    by (auto simp: try_start_job_def split: if_splits)
  with start show ?case by (simp add: slots_ok_def)
next
  case (refused rj i rj' act)
  then have "rj' = rj" by (auto simp: try_start_job_def split: if_splits)
  with refused show ?case by simp
next
  case (finish i act rj)
  then show ?case
    by (cases "running_poisoned rj") (auto simp: slots_ok_def job_guard_drop_def)
next
  case (poison rj act)
  then show ?case by (simp add: slots_ok_def)
qed

lemma slots_ok_reachable: "job_step\<^sup>*\<^sup>* jobs_init s \<Longrightarrow> slots_ok s"
  by (induction rule: rtranclp_induct) (auto simp: jobs_init_def slots_ok_def [of "(_, [])"] slots_ok_step)

section \<open>Chunks\<close>

definition MAX_BATCH_SIZE :: nat where
  "MAX_BATCH_SIZE = 5000"

function chunk_records :: "'a list \<Rightarrow> nat \<Rightarrow> 'a list list" where
  "chunk_records items mx =
     (let chunk = take mx items in
      if chunk = [] then [] else chunk # chunk_records (drop mx items) mx)"
  by pat_completeness auto
termination
  by (relation "measure (\<lambda>(items, mx). length items)") auto

declare chunk_records.simps [simp del]

definition mode_for_chunk_index :: "batch_mode \<Rightarrow> nat \<Rightarrow> batch_mode" where
  "mode_for_chunk_index base_mode chunk_index = (if chunk_index = 0 then base_mode else Upsert)"

lemma chunk_records_Nil [simp]: "chunk_records [] mx = []"
  by (simp add: chunk_records.simps)

lemma chunk_records_step:
  assumes "items \<noteq> []" and "0 < mx"
  shows "chunk_records items mx = take mx items # chunk_records (drop mx items) mx"
proof -
  have "take mx items \<noteq> []" using assms by simp
  then show ?thesis by (subst chunk_records.simps) (simp only: Let_def if_False)
qed

lemma chunk_records_spec:
  assumes "0 < mx"
  shows "concat (chunk_records items mx) = items \<and>
    (\<forall>c \<in> set (chunk_records items mx). c \<noteq> [] \<and> length c \<le> mx) \<and>
    (\<forall>c \<in> set (butlast (chunk_records items mx)). length c = mx)"
proof (induction "length items" arbitrary: items rule: less_induct)
  case less
  show ?case
  proof (cases "items = []")
    case True
    then show ?thesis by simp
  next
    case False
    define cs where "cs = chunk_records (drop mx items) mx"
    have l: "length (drop mx items) < length items" using False assms by simp
    have IH: "concat cs = drop mx items" "\<forall>c \<in> set cs. c \<noteq> [] \<and> length c \<le> mx"
      "\<forall>c \<in> set (butlast cs). length c = mx"
      using less.hyps [OF l] unfolding cs_def by blast+
    have "length (take mx items) = mx" if "cs \<noteq> []"
    proof -
      have "drop mx items \<noteq> []" using that by (auto simp: cs_def)
      then show ?thesis by simp
    qed
    moreover have "chunk_records items mx = take mx items # cs"
      unfolding cs_def by (rule chunk_records_step [OF False assms])
    ultimately show ?thesis using IH False assms by simp
  qed
qed

lemma concat_chunk_records: "0 < mx \<Longrightarrow> concat (chunk_records items mx) = items"
  using chunk_records_spec by blast

section \<open>The outcome of an execution\<close>

record job_summary =
  sum_status :: string
  sum_items_processed :: int
  sum_chunks_sent :: int
  sum_duration_ms :: int
  sum_error_message :: "string option"

definition write_sync_log ::
  "uuid \<Rightarrow> string \<Rightarrow> uuid \<Rightarrow> string \<Rightarrow> job_summary \<Rightarrow> instant \<Rightarrow> database \<Rightarrow> db_err + database" where
  "write_sync_log fresh job_type job_id job_name summary started_at db =
     insert_sync_log
       \<lparr>slog_id = fresh, slog_job_type = job_type, slog_job_id = job_id, slog_job_name = job_name,
        slog_status = sum_status summary, slog_items_processed = sum_items_processed summary,
        slog_chunks_sent = sum_chunks_sent summary, slog_duration_ms = sum_duration_ms summary,
        slog_error_message = sum_error_message summary, slog_timestamp = started_at\<rparr> db"

definition elapsed_ms :: "'w client_env \<Rightarrow> instant \<Rightarrow> 'w \<Rightarrow> int" where
  "elapsed_ms env start w = as_i32 (nat (monotonic_now (env_world env) w - start))"

section \<open>Messages\<close>

fun show_crypto_error :: "crypto_error \<Rightarrow> string" where
  "show_crypto_error InvalidKey = ''invalid encryption key''"
| "show_crypto_error MalformedCiphertext = ''malformed ciphertext''"
| "show_crypto_error DecryptionFailed = ''decryption failed''"
| "show_crypto_error EncryptionFailed = ''encryption failed''"

fun show_client_error :: "client_error \<Rightarrow> string" where
  "show_client_error (InvalidUrl e) = ''invalid target_url: '' @ e"
| "show_client_error (Decrypt _) = ''failed to decrypt vault endpoint signing secret''"
| "show_client_error Signing = ''failed to compute request signature''"
| "show_client_error (Request e) = ''request to vault endpoint failed: '' @ e"
| "show_client_error (RemoteError status body) = ''vault endpoint returned '' @ dec status @ '': '' @ body"

text \<open>The inner loop of both pipelines: send the chunks of one target until one fails.\<close>

fun push_chunks ::
  "(nat \<Rightarrow> batch_record list \<Rightarrow> 'w \<Rightarrow> (client_error + batch_response) \<times> 'w) \<Rightarrow> string
    \<Rightarrow> nat \<Rightarrow> batch_record list list \<Rightarrow> nat \<Rightarrow> string list \<Rightarrow> 'w \<Rightarrow> bool \<times> nat \<times> string list \<times> 'w"
where
  "push_chunks send vname i [] chunks_sent errors w = (True, chunks_sent, errors, w)"
| "push_chunks send vname i (chunk # chunks) chunks_sent errors w =
     (case send i chunk w of
        (Inr _, w1) \<Rightarrow> push_chunks send vname (Suc i) chunks (Suc chunks_sent) errors w1
      | (Inl e, w1) \<Rightarrow> (False, chunks_sent, errors @ [''vault '' @ squoted vname @ '': '' @ show_client_error e], w1))"

section \<open>Several targets\<close>

text \<open>
  The vaults an execution pushes to: each keeps the promise of \<open>batch_endpoint\<close> for every
  group, a request to one group leaves the others alone, and reading a delta changes none.
  \<open>key_of\<close> names the remote group an endpoint row and a group name reach.
\<close>

locale vault_fleet =
  fixes env :: "'w client_env" and key_of :: "vault_endpoint \<Rightarrow> string \<Rightarrow> 'k"
    and grp_of :: "'k \<Rightarrow> 'w \<Rightarrow> 'g"
    and apply_batch :: "batch_mode \<Rightarrow> batch_record list \<Rightarrow> 'g \<Rightarrow> 'g"
  assumes endpoint: "batch_endpoint env v g (grp_of (key_of v g)) apply_batch"
    and others: "post_batch_once env v g rs m w = (x, w') \<Longrightarrow> k \<noteq> key_of v g \<Longrightarrow> grp_of k w' = grp_of k w"
    and page_reads: "get_ips_page env v base g since incl offset w = (p, w') \<Longrightarrow> grp_of k w' = grp_of k w"
    and sleeps: "grp_of k (sleep (env_world env) d w) = grp_of k w"
    and draws: "grp_of k (snd (random_range (env_world env) c w)) = grp_of k w"
begin

lemma backoff_keeps: "backoff_with_jitter (env_world env) cfg n w = (d, w') \<Longrightarrow> grp_of k w' = grp_of k w"
  using draws by (auto simp: backoff_with_jitter_def Let_def split: prod.splits) (metis snd_conv)

lemma retry_keeps:
  assumes "\<And>w x w'. once w = (x, w') \<Longrightarrow> grp_of k w' = grp_of k w"
  shows "grp_of k (snd (retry_loop (env_world env) cfg st once a w)) = grp_of k w"
proof -
  have "case retry_loop (env_world env) cfg st once a w of
      (Inr r, w') \<Rightarrow> grp_of k w' = grp_of k w | (Inl e, w') \<Rightarrow> grp_of k w' = grp_of k w"
    by (rule retry_loop_induct [where P = "\<lambda>v. grp_of k v = grp_of k w"])
      (auto simp: sleeps dest!: assms backoff_keeps [where k = k])
  then show ?thesis by (auto split: prod.splits sum.splits)
qed

lemma with_retry_others:
  "k \<noteq> key_of v g \<Longrightarrow> grp_of k (snd (post_batch_with_retry env v g rs m w)) = grp_of k w"
  unfolding post_batch_with_retry_def by (rule retry_keeps) (rule others)

lemma page_retry_keeps:
  "grp_of k (snd (get_ips_page_with_retry env v base g since incl offset w)) = grp_of k w"
  unfolding get_ips_page_with_retry_def by (rule retry_keeps) (rule page_reads)

lemma pause_keeps: "grp_of k (pause_after_split env e w) = grp_of k w"
  by (auto simp: pause_after_split_def sleeps dest!: backoff_keeps [where k = k] split: prod.splits)

lemma loop_others:
  assumes "k \<noteq> key_of v g"
  shows "grp_of k (snd (post_batch_loop (post_batch_with_retry env v g) (pause_after_split env) q agg w)) = grp_of k w"
proof -
  have "s = post_batch_with_retry env v g \<Longrightarrow> p = pause_after_split env \<Longrightarrow>
      grp_of k (snd (post_batch_loop s p q agg w)) = grp_of k w" for s p
  proof (induction s p q agg w rule: post_batch_loop.induct)
    case (1 s p agg w)
    then show ?case by simp
  next
    case (2 s p chunk m queue agg w)
    obtain x w1 where x: "post_batch_with_retry env v g chunk m w = (x, w1)" by fastforce
    have "grp_of k w1 = grp_of k w" using with_retry_others [OF assms, of chunk m w] x by simp
    then show ?case
      using "2.IH"(1) [of x w1 _ "length chunk div 2"] "2.IH"(2) [of x w1] "2.prems" x
      by (cases x) (auto simp: Let_def pause_keeps)
  qed
  then show ?thesis by blast
qed

lemma post_batch_others: "k \<noteq> key_of v g \<Longrightarrow> grp_of k (snd (post_batch env v g rs m w)) = grp_of k w"
  unfolding post_batch_def by (rule loop_others)

lemma page_loop_keeps:
  assumes "page_loop (get_ips_page_with_retry env v base g since incl) offset acc w = Some (r, w')"
  shows "grp_of k w' = grp_of k w"
proof -
  let ?f = "get_ips_page_with_retry env v base g since incl"
  have "fetch = ?f \<longrightarrow> grp_of k (snd res) = grp_of k w"
    if "page_loop fetch offset acc w = Some res" for fetch offset acc w res
  proof (rule page_loop.raw_induct [where P = "\<lambda>fetch _ _ w res. fetch = ?f \<longrightarrow> grp_of k (snd res) = grp_of k w", OF _ that])
    fix loop fetch offset acc w res
    assume IH: "\<And>fetch offset acc w res. loop fetch offset acc w = Some res \<Longrightarrow>
        fetch = ?f \<longrightarrow> grp_of k (snd res) = grp_of k w"
      and run: "(case fetch offset w of (Inl e, w1) \<Rightarrow> Some (Inl e, w1)
        | (Inr page, w1) \<Rightarrow> if length page < DELTA_PAGE_SIZE then Some (Inr (acc @ page), w1)
            else loop fetch (offset + DELTA_PAGE_SIZE) (acc @ page) w1) = Some res"
    show "fetch = ?f \<longrightarrow> grp_of k (snd res) = grp_of k w"
    proof
      assume f: "fetch = ?f"
      obtain x w1 where x: "fetch offset w = (x, w1)" by fastforce
      have "grp_of k w1 = grp_of k w"
        using page_retry_keeps [of k v base g since incl offset w] x f by simp
      then show "grp_of k (snd res) = grp_of k w"
        using run x f IH by (cases x) (fastforce split: if_splits)+
    qed
  qed
  then show ?thesis using assms by fastforce
qed

lemma delta_keeps:
  "get_ips_delta env v g since incl w = Some (r, w') \<Longrightarrow> grp_of k w' = grp_of k w"
  by (auto simp: get_ips_delta_def dest: page_loop_keeps split: sum.splits)

text \<open>What pushing the chunks of one target does to its group and to the others.\<close>

lemma push_others:
  "k \<noteq> key_of v g \<Longrightarrow>
   push_chunks (\<lambda>i c. post_batch env v g c (mode i)) nm i cs sent errs w = (ok, n, es, w') \<Longrightarrow>
   grp_of k w' = grp_of k w"
proof (induction cs arbitrary: i sent errs w)
  case Nil
  then show ?case by simp
next
  case (Cons c cs)
  obtain x w1 where x: "post_batch env v g c (mode i) w = (x, w1)" by fastforce
  have "grp_of k w1 = grp_of k w" using post_batch_others [OF Cons.prems(1), of c "mode i" w] x by simp
  with Cons x show ?case by (cases x) auto
qed

lemma push_upserts:
  "(\<And>j. i \<le> j \<Longrightarrow> mode j = Upsert) \<Longrightarrow>
   push_chunks (\<lambda>i c. post_batch env v g c (mode i)) nm i cs sent errs w = (True, n, es, w') \<Longrightarrow>
   grp_of (key_of v g) w' = apply_batch Upsert (concat cs) (grp_of (key_of v g) w)"
proof (induction cs arbitrary: i sent errs w)
  case Nil
  then show ?case
    using batch_endpoint.upserts_nil [OF endpoint] by simp
next
  case (Cons c cs)
  obtain x w1 where x: "post_batch env v g c (mode i) w = (x, w1)" by fastforce
  then obtain r where r: "x = Inr r" using Cons.prems by (cases x) auto
  have "grp_of (key_of v g) w1 = apply_batch Upsert c (grp_of (key_of v g) w)"
    using batch_endpoint.post_batch_group [OF endpoint, of v g c "mode i" w r w1] x r Cons.prems(1) by simp
  moreover have "grp_of (key_of v g) w' = apply_batch Upsert (concat cs) (grp_of (key_of v g) w1)"
    using Cons.IH [of "Suc i"] Cons.prems x r by simp
  ultimately show ?case
    using batch_endpoint.upserts_append [OF endpoint] by simp
qed

lemma push_with_mode:
  assumes "push_chunks (\<lambda>i c. post_batch env v g c (mode_for_chunk_index m i)) nm 0 cs sent errs w = (True, n, es, w')"
    and "cs \<noteq> []"
  shows "grp_of (key_of v g) w' = apply_batch m (concat cs) (grp_of (key_of v g) w)"
proof -
  obtain c ds where cs: "cs = c # ds" using assms(2) by (cases cs) auto
  obtain x w1 where x: "post_batch env v g c m w = (x, w1)" by fastforce
  then obtain r where r: "x = Inr r"
    using assms(1) by (cases x) (auto simp: cs mode_for_chunk_index_def)
  have "grp_of (key_of v g) w1 = apply_batch m c (grp_of (key_of v g) w)"
    using batch_endpoint.post_batch_group [OF endpoint] x r by blast
  moreover have "grp_of (key_of v g) w' = apply_batch Upsert (concat ds) (grp_of (key_of v g) w1)"
    using push_upserts [of 1 "mode_for_chunk_index m" v g nm ds] assms(1) x r
    by (auto simp: cs mode_for_chunk_index_def [of m 0]) (simp add: mode_for_chunk_index_def)
  ultimately show ?thesis
    using batch_endpoint.upserts_append [OF endpoint] batch_endpoint.replaces_append [OF endpoint]
    by (cases m) (simp_all add: cs)
qed

end

interpretation sim_fleet: vault_fleet sim_env sim_key sim_group apply_live
proof (rule vault_fleet.intro)
  show "batch_endpoint sim_env v g (sim_group (sim_key v g)) apply_live" for v g
    by (rule sim.batch_endpoint_axioms)
  show "sim_group k w' = sim_group k w"
    if "post_batch_once sim_env v g rs m w = (x, w')" "k \<noteq> sim_key v g" for v g rs m w x w' k
    using that by (auto simp: sim_once sim_group_def split: sum.splits if_splits)
  show "sim_group k w' = sim_group k w"
    if "get_ips_page sim_env v base g since incl offset w = (p, w')" for v base g since incl offset w p w' k
    using that
    by (auto simp: get_ips_page_def join_endpoint_def sim_env_simps sim_send_def Let_def try_h_def
        split: sum.splits prod.splits if_splits)
qed (simp_all add: sim_env_def)

section \<open>Properties\<close>

text \<open>
  In every interleaving of manual triggers, cron ticks and finishing jobs, at most one
  execution per resource is in flight; and while the lock is sound a resource is claimable
  exactly when no execution of it is in flight, so a finished job always frees its slot.
\<close>

theorem job_mutual_exclusion:
  assumes "job_step\<^sup>*\<^sup>* jobs_init (rj, act)"
  shows "distinct act
    \<and> (fst (try_start_job rj i) \<longrightarrow> i \<notin> set act)
    \<and> (\<not> running_poisoned rj \<longrightarrow> (fst (try_start_job rj i) \<longleftrightarrow> i \<notin> set act))"
  using slots_ok_reachable [OF assms] by (auto simp: slots_ok_def try_start_job_def split: if_splits)

theorem job_mutual_exclusion_witness:
  "fst (try_start_job \<lparr>running = {1}, running_poisoned = False\<rparr> 2) \<and>
   \<not> fst (try_start_job \<lparr>running = {1}, running_poisoned = False\<rparr> 1)"
proof -
  have "job_step jobs_init (\<lparr>running = {1}, running_poisoned = False\<rparr>, [1])"
    unfolding jobs_init_def by (rule job_step.start) (simp add: try_start_job_def)
  then have r: "job_step\<^sup>*\<^sup>* jobs_init (\<lparr>running = {1}, running_poisoned = False\<rparr>, [1])" by simp
  show ?thesis
    using job_mutual_exclusion [OF r, of 2] job_mutual_exclusion [OF r, of 1] by simp
qed

text \<open>
  Chunking loses, duplicates and reorders nothing; no chunk is empty or larger than the
  limit, and every chunk but the last is exactly as large as the limit.
\<close>

theorem chunk_records_partition:
  assumes "0 < mx"
  shows "concat (chunk_records items mx) = items
    \<and> (\<forall>c \<in> set (chunk_records items mx). c \<noteq> [] \<and> length c \<le> mx)
    \<and> (\<forall>c \<in> set (butlast (chunk_records items mx)). length c = mx)"
  by (rule chunk_records_spec [OF assms])

theorem chunk_records_partition_witness:
  "concat (chunk_records [1, 2, 3, 4, 5 :: nat] 2) = [1, 2, 3, 4, 5]
   \<and> chunk_records [1, 2, 3, 4, 5 :: nat] 2 = [[1, 2], [3, 4], [5]]
   \<and> length [1, 2 :: nat] = 2"
proof -
  have e: "chunk_records [1, 2, 3, 4, 5 :: nat] 2 = [[1, 2], [3, 4], [5]]"
    by (simp add: chunk_records_step)
  show ?thesis
    using chunk_records_partition [of 2 "[1, 2, 3, 4, 5 :: nat]"] e by simp
qed

end
