(* ===== verification/IpNet.thy ===== *)
theory IpNet
  imports IpAddr
begin

text \<open>
  The interface to the \<open>ipnetwork\<close> crate. The crate is not part of the repository, so its
  type is a type variable and its operations are the fields of a record that the definitions
  using it take as an argument. The locale \<open>ip_network\<close> holds the documented behaviour
  the program relies on: the accepted texts (an address, or an address, a slash and a prefix
  length within the family's width), \<open>contains\<close> as agreement with the network address on the
  prefix bits, and the printed form. Inside it, two networks are shown to share an address
  exactly when one contains the other's base address. The last section gives an executable
  instance, so that what is proved under the locale can be evaluated on concrete input.
\<close>

section \<open>The operations\<close>

record 'n ipnet_ops =
  net_parse :: "string \<Rightarrow> 'n option"
  net_ip :: "'n \<Rightarrow> ip_addr"
  net_prefix :: "'n \<Rightarrow> nat"
  net_contains :: "'n \<Rightarrow> ip_addr \<Rightarrow> bool"
  net_to_string :: "'n \<Rightarrow> string"
  net_from_ip :: "ip_addr \<Rightarrow> 'n"

fun ip_width :: "ip_addr \<Rightarrow> nat" where
  "ip_width (V4 _) = 32"
| "ip_width (V6 _) = 128"

text \<open>Two addresses of one family that agree on their first \<open>n\<close> bits.\<close>

fun same_prefix :: "nat \<Rightarrow> ip_addr \<Rightarrow> ip_addr \<Rightarrow> bool" where
  "same_prefix n (V4 x) (V4 y) \<longleftrightarrow> unat x div 2 ^ (32 - n) = unat y div 2 ^ (32 - n)"
| "same_prefix n (V6 x) (V6 y) \<longleftrightarrow> unat x div 2 ^ (128 - n) = unat y div 2 ^ (128 - n)"
| "same_prefix n _ _ \<longleftrightarrow> False"

lemma same_prefix_refl [simp]: "same_prefix n a a"
  by (cases a) auto

lemma same_prefix_sym: "same_prefix n a b \<Longrightarrow> same_prefix n b a"
  by (cases a; cases b) auto

lemma same_prefix_trans: "same_prefix n a b \<Longrightarrow> same_prefix n b c \<Longrightarrow> same_prefix n a c"
  by (cases a; cases b; cases c) auto

lemma same_prefix_width: "same_prefix n a b \<Longrightarrow> ip_width a = ip_width b"
  by (cases a; cases b) auto

lemma div_pow_mono:
  fixes x y :: nat
  assumes "x div 2 ^ i = y div 2 ^ i" and "i \<le> j"
  shows "x div 2 ^ j = y div 2 ^ j"
proof -
  have "(2::nat) ^ j = 2 ^ i * 2 ^ (j - i)"
    using assms(2) by (metis le_add_diff_inverse power_add)
  with assms(1) show ?thesis by (simp add: div_mult2_eq)
qed

lemma same_prefix_mono: "same_prefix m a b \<Longrightarrow> n \<le> m \<Longrightarrow> same_prefix n a b"
  by (cases a; cases b) (auto intro: div_pow_mono)

section \<open>The behaviour the program relies on\<close>

locale ip_network =
  fixes ops :: "'n ipnet_ops"
  assumes parse_cidr: "parse_ip s = Some a \<Longrightarrow> n \<le> ip_width a \<Longrightarrow>
      \<exists>net. net_parse ops (s @ CHR ''/'' # dec n) = Some net \<and> net_ip ops net = a \<and> net_prefix ops net = n"
    and parse_bare: "parse_ip s = Some a \<Longrightarrow>
      \<exists>net. net_parse ops s = Some net \<and> net_ip ops net = a \<and> net_prefix ops net = ip_width a"
    and prefix_le: "net_prefix ops net \<le> ip_width (net_ip ops net)"
    and contains_iff: "net_contains ops net a \<longleftrightarrow> same_prefix (net_prefix ops net) (net_ip ops net) a"
    and to_string_eq: "net_to_string ops net = show_ip (net_ip ops net) @ CHR ''/'' # dec (net_prefix ops net)"
    and from_ip: "net_ip ops (net_from_ip ops a) = a" "net_prefix ops (net_from_ip ops a) = ip_width a"

definition net_addrs :: "'n ipnet_ops \<Rightarrow> 'n \<Rightarrow> ip_addr set" where
  "net_addrs ops net = {a. net_contains ops net a}"

context ip_network
begin

lemma contains_own_ip: "net_contains ops net (net_ip ops net)"
  by (simp add: contains_iff)

lemma share_address_D:
  assumes "net_contains ops m c" and "net_contains ops n c" and "net_prefix ops m \<le> net_prefix ops n"
  shows "net_contains ops m (net_ip ops n)"
proof -
  have "same_prefix (net_prefix ops m) (net_ip ops n) c"
    using assms(2,3) by (auto simp: contains_iff intro: same_prefix_mono)
  then show ?thesis
    using assms(1) by (auto simp: contains_iff intro: same_prefix_trans same_prefix_sym)
qed

lemma share_address_iff:
  "net_addrs ops m \<inter> net_addrs ops n \<noteq> {} \<longleftrightarrow>
     net_contains ops m (net_ip ops n) \<or> net_contains ops n (net_ip ops m)"
proof
  assume "net_addrs ops m \<inter> net_addrs ops n \<noteq> {}"
  then obtain c where "net_contains ops m c" "net_contains ops n c"
    by (auto simp: net_addrs_def)
  then show "net_contains ops m (net_ip ops n) \<or> net_contains ops n (net_ip ops m)"
    using share_address_D [of m c n] share_address_D [of n c m] by fastforce
next
  assume "net_contains ops m (net_ip ops n) \<or> net_contains ops n (net_ip ops m)"
  then show "net_addrs ops m \<inter> net_addrs ops n \<noteq> {}"
    using contains_own_ip by (auto simp: net_addrs_def)
qed

lemma contains_host: "net_contains ops (net_from_ip ops a) b \<longleftrightarrow> a = b"
  by (cases a; cases b) (auto simp: contains_iff from_ip word_unat_eq_iff)

lemma parse_to_string:
  "\<exists>m. net_parse ops (net_to_string ops n) = Some m \<and> net_ip ops m = net_ip ops n
     \<and> net_prefix ops m = net_prefix ops n"
  using parse_cidr [OF parse_ip_show_ip prefix_le] by (simp add: to_string_eq)

end

section \<open>An executable instance\<close>

datatype cidr = Cidr ip_addr nat

fun cidr_ip :: "cidr \<Rightarrow> ip_addr" where
  "cidr_ip (Cidr a n) = a"

fun cidr_prefix :: "cidr \<Rightarrow> nat" where
  "cidr_prefix (Cidr a n) = min n (ip_width a)"

definition cidr_parse :: "string \<Rightarrow> cidr option" where
  "cidr_parse s =
     (case split_once (CHR ''/'') s of
        None \<Rightarrow> map_option (\<lambda>a. Cidr a (ip_width a)) (parse_ip s)
      | Some (h, t) \<Rightarrow>
         (case (parse_ip h, parse_uint u8_max t) of
            (Some a, Some n) \<Rightarrow> if n \<le> ip_width a then Some (Cidr a n) else None
          | _ \<Rightarrow> None))"

definition cidr_ops :: "cidr ipnet_ops" where
  "cidr_ops = \<lparr>net_parse = cidr_parse, net_ip = cidr_ip, net_prefix = cidr_prefix,
     net_contains = (\<lambda>n a. same_prefix (cidr_prefix n) (cidr_ip n) a),
     net_to_string = (\<lambda>n. show_ip (cidr_ip n) @ CHR ''/'' # dec (cidr_prefix n)),
     net_from_ip = (\<lambda>a. Cidr a (ip_width a))\<rparr>"

lemma read_number_drop:
  assumes "read_number b m z hi s = Some (n, r)"
  shows "\<exists>w. s = w @ r \<and> (\<forall>c \<in> set w. to_digit b c \<noteq> None)"
proof -
  let ?w = "takeWhile (\<lambda>c. to_digit b c \<noteq> None) s"
  have "r = drop (length ?w) s"
    using assms unfolding read_number_def Let_def by (simp split: if_splits option.splits)
  then have "s = ?w @ r"
    by (metis dropWhile_eq_drop takeWhile_dropWhile_id)
  then show ?thesis using set_takeWhileD by fast
qed

text \<open>The characters an address may be written with; a slash is none of them.\<close>

definition ip_char :: "char \<Rightarrow> bool" where
  "ip_char c \<longleftrightarrow> to_digit 16 c \<noteq> None \<or> c = CHR ''.'' \<or> c = CHR '':''"

lemma to_digit_10_16: "to_digit 10 c \<noteq> None \<Longrightarrow> to_digit 16 c \<noteq> None"
  by (auto simp: to_digit_def Let_def split: if_splits)

lemma read_separator_chars:
  assumes "read_separator c i p s = Some (x, r)" and "ip_char c"
    and "\<And>t. p t = Some (x, r) \<Longrightarrow> \<exists>w. t = w @ r \<and> (\<forall>d \<in> set w. ip_char d)"
  shows "\<exists>w. s = w @ r \<and> (\<forall>d \<in> set w. ip_char d)"
proof (cases "i = 0")
  case True
  with assms show ?thesis by (simp add: read_separator_def)
next
  case False
  then obtain t where t: "s = c # t" "p t = Some (x, r)"
    using assms(1) by (auto simp: read_separator_def read_char_def split: list.splits if_splits)
  then obtain w where "t = w @ r" "\<forall>d \<in> set w. ip_char d" using assms(3) by blast
  then show ?thesis using t assms(2) by (intro exI [of _ "c # w"]) auto
qed

lemma read_number_chars:
  "read_number b m z hi s = Some (n, r) \<Longrightarrow> b = 10 \<or> b = 16 \<Longrightarrow>
    \<exists>w. s = w @ r \<and> (\<forall>d \<in> set w. ip_char d)"
  using read_number_drop [of b m z hi s n r] to_digit_10_16 by (auto simp: ip_char_def)

lemma ip_char_seps [simp]: "ip_char (CHR ''.'')" "ip_char (CHR '':'')" "\<not> ip_char (CHR ''/'')"
  by (simp_all add: ip_char_def to_digit_def)

lemma read_octets_chars:
  "read_octets k i s = Some (ds, r) \<Longrightarrow> \<exists>w. s = w @ r \<and> (\<forall>d \<in> set w. ip_char d)"
proof (induction k i s arbitrary: ds r rule: read_octets.induct)
  case (1 i s)
  then show ?case by simp
next
  case (2 k i s)
  then obtain d q es where d: "read_separator (CHR ''.'') i (read_number 10 3 False 255) s = Some (d, q)"
    "read_octets k (Suc i) q = Some (es, r)"
    by (auto split: option.splits prod.splits)
  obtain w where "s = w @ q" "\<forall>d \<in> set w. ip_char d"
    using read_separator_chars [OF d(1)] read_number_chars by fastforce
  moreover obtain v where "q = v @ r" "\<forall>d \<in> set v. ip_char d"
    using "2.IH" [OF d(1) refl] d(2) by blast
  ultimately show ?case by (intro exI [of _ "w @ v"]) auto
qed

lemma read_groups_chars:
  "read_groups n i s = (gs, b, r) \<Longrightarrow> \<exists>w. s = w @ r \<and> (\<forall>d \<in> set w. ip_char d)"
proof (induction n arbitrary: i s gs b)
  case 0
  then show ?case by simp
next
  case (Suc n)
  show ?case
  proof (cases "if 0 < n then read_separator (CHR '':'') i read_ipv4 s else None")
    case (Some p)
    then obtain ds q where "read_separator (CHR '':'') i read_ipv4 s = Some (ds, q)"
      "r = q" using Suc.prems by (cases p) (auto split: if_splits)
    then show ?thesis
      using read_separator_chars [of "CHR '':''" i read_ipv4 s ds r] read_octets_chars
      by (fastforce simp: read_ipv4_def)
  next
    case None
    show ?thesis
    proof (cases "read_separator (CHR '':'') i (read_number 16 4 True 65535) s")
      case None2: None
      with None Suc.prems show ?thesis by simp
    next
      case (Some p)
      then obtain g q where g: "read_separator (CHR '':'') i (read_number 16 4 True 65535) s = Some (g, q)"
        by (cases p) auto
      then obtain hs where hs: "read_groups n (Suc i) q = (hs, b, r)"
        using None Suc.prems by (auto split: prod.splits)
      obtain w where "s = w @ q" "\<forall>d \<in> set w. ip_char d"
        using read_separator_chars [OF g] read_number_chars by fastforce
      moreover obtain v where "q = v @ r" "\<forall>d \<in> set v. ip_char d"
        using Suc.IH [OF hs] by blast
      ultimately show ?thesis by (intro exI [of _ "w @ v"]) auto
    qed
  qed
qed

lemma read_char_eq_Some [simp]: "read_char c s = Some r \<longleftrightarrow> s = c # r"
  by (auto simp: read_char_def split: list.splits)

lemma read_ipv6_chars:
  assumes "read_ipv6 s = Some (gs, r)"
  shows "\<exists>w. s = w @ r \<and> (\<forall>d \<in> set w. ip_char d)"
proof -
  obtain hs v4 q where h: "read_groups 8 0 s = (hs, v4, q)" by (cases "read_groups 8 0 s") auto
  obtain w where w: "s = w @ q" "\<forall>d \<in> set w. ip_char d"
    using read_groups_chars [OF h] by blast
  show ?thesis
  proof (cases "length hs = 8")
    case True
    with assms h w show ?thesis by (auto simp: read_ipv6_def)
  next
    case False
    with assms h obtain q2 where q: "q = ''::'' @ q2"
      and "(case read_groups (7 - length hs) 0 q2 of (ts, _, r3) \<Rightarrow>
              Some (hs @ replicate (8 - length hs - length ts) 0 @ ts, r3)) = Some (gs, r)"
      by (auto simp: read_ipv6_def bind_eq_Some_conv split: if_splits option.splits)
    then obtain ts b where "read_groups (7 - length hs) 0 q2 = (ts, b, r)"
      by (auto split: prod.splits)
    from read_groups_chars [OF this] obtain v where "q2 = v @ r" "\<forall>d \<in> set v. ip_char d"
      by blast
    with w q show ?thesis by (intro exI [of _ "w @ ''::'' @ v"]) auto
  qed
qed

lemma parse_ip_chars: "parse_ip s = Some a \<Longrightarrow> c \<in> set s \<Longrightarrow> ip_char c"
  using read_octets_chars [of 4 0 s] read_ipv6_chars [of s]
  by (fastforce simp: parse_ip_def read_ipv4_def split: option.splits prod.splits if_splits)

interpretation cidr_net: ip_network cidr_ops
proof
  fix s a n
  assume a: "parse_ip s = Some a" "n \<le> ip_width a"
  then have "CHR ''/'' \<notin> set s" using parse_ip_chars by fastforce
  moreover have "parse_uint u8_max (dec n) = Some n"
    using a(2) by (intro parse_uint_dec) (cases a, auto)
  ultimately show "\<exists>net. net_parse cidr_ops (s @ CHR ''/'' # dec n) = Some net
      \<and> net_ip cidr_ops net = a \<and> net_prefix cidr_ops net = n"
    using a by (simp add: cidr_ops_def cidr_parse_def split_once_eq_Some [THEN iffD2] min_def)
next
  fix s a
  assume a: "parse_ip s = Some a"
  then have "CHR ''/'' \<notin> set s" using parse_ip_chars by fastforce
  then show "\<exists>net. net_parse cidr_ops s = Some net
      \<and> net_ip cidr_ops net = a \<and> net_prefix cidr_ops net = ip_width a"
    using a by (simp add: cidr_ops_def cidr_parse_def split_once_def)
next
  fix net
  show "net_prefix cidr_ops net \<le> ip_width (net_ip cidr_ops net)"
    by (cases net) (simp add: cidr_ops_def)
qed (simp_all add: cidr_ops_def)

end
