(* ===== verification/Bogon.thy ===== *)
theory Bogon
  imports IpNet
begin

text \<open>
  \<open>src/bogon.rs\<close>: the tables of reserved ranges, the overlap test and \<open>sanitize\<close>, the filter
  in front of every push to a vault. The tables are the string literals of the source,
  parsed through the \<open>ipnetwork\<close> interface; \<open>reserved_table\<close> says independently, by numeric
  address and prefix length, what they must mean.
\<close>

section \<open>The code\<close>

definition RFC1918_LITERALS :: "string list" where
  "RFC1918_LITERALS = [''10.0.0.0/8'', ''172.16.0.0/12'', ''192.168.0.0/16'']"

definition LOOPBACK_LITERALS :: "string list" where
  "LOOPBACK_LITERALS = [''127.0.0.0/8'', ''::1/128'']"

definition BOGON_LITERALS :: "string list" where
  "BOGON_LITERALS =
    [''0.0.0.0/8'', ''100.64.0.0/10'', ''169.254.0.0/16'', ''192.0.0.0/24'', ''192.0.2.0/24'',
     ''192.88.99.0/24'', ''198.18.0.0/15'', ''198.51.100.0/24'', ''203.0.113.0/24'',
     ''224.0.0.0/4'', ''240.0.0.0/4'', ''255.255.255.255/32'', ''::/128'', ''::ffff:0:0/96'',
     ''100::/64'', ''2001:db8::/32'', ''fc00::/7'', ''fe80::/10'', ''ff00::/8'']"

text \<open>\<open>None\<close> is the panic of \<open>expect\<close>.\<close>

fun parse_literals :: "'n ipnet_ops \<Rightarrow> string list \<Rightarrow> 'n list option" where
  "parse_literals ops [] = Some []"
| "parse_literals ops (s # ss) =
     (case net_parse ops s of
        None \<Rightarrow> None
      | Some net \<Rightarrow> map_option (\<lambda>nets. net # nets) (parse_literals ops ss))"

definition reserved_ranges :: "'n ipnet_ops \<Rightarrow> 'n list option" where
  "reserved_ranges ops =
     (case parse_literals ops RFC1918_LITERALS of
        None \<Rightarrow> None
      | Some a \<Rightarrow> (case parse_literals ops LOOPBACK_LITERALS of
            None \<Rightarrow> None
          | Some b \<Rightarrow> map_option (\<lambda>c. a @ b @ c) (parse_literals ops BOGON_LITERALS)))"

text \<open>The dereferenced \<open>LazyLock\<close>; that it never panics is \<open>reserved_ranges_table\<close> below.\<close>

definition RESERVED_RANGES :: "'n ipnet_ops \<Rightarrow> 'n list" where
  "RESERVED_RANGES ops = the (reserved_ranges ops)"

definition overlaps :: "'n ipnet_ops \<Rightarrow> 'n \<Rightarrow> 'n \<Rightarrow> bool" where
  "overlaps ops a b \<longleftrightarrow> net_contains ops a (net_ip ops b) \<or> net_contains ops b (net_ip ops a)"

definition is_bogon :: "'n ipnet_ops \<Rightarrow> 'n \<Rightarrow> bool" where
  "is_bogon ops candidate \<longleftrightarrow> list_ex (\<lambda>reserved. overlaps ops candidate reserved) (RESERVED_RANGES ops)"

fun sanitize_loop :: "'n ipnet_ops \<Rightarrow> string list \<Rightarrow> string list \<Rightarrow> nat \<Rightarrow> string list \<times> nat" where
  "sanitize_loop ops [] kept removed = (kept, removed)"
| "sanitize_loop ops (record # records) kept removed =
     (case net_parse ops record of
        Some net \<Rightarrow>
          if \<not> is_bogon ops net then sanitize_loop ops records (kept @ [record]) removed
          else sanitize_loop ops records kept (Suc removed)
      | None \<Rightarrow> sanitize_loop ops records kept (Suc removed))"

definition sanitize :: "'n ipnet_ops \<Rightarrow> string list \<Rightarrow> string list \<times> nat" where
  "sanitize ops records = sanitize_loop ops records [] 0"

section \<open>What the tables mean\<close>

definition v4_range :: "nat \<Rightarrow> nat \<Rightarrow> nat \<Rightarrow> nat \<Rightarrow> nat \<Rightarrow> ip_addr \<times> nat" where
  "v4_range a b c d n = (V4 (of_nat (((a * 256 + b) * 256 + c) * 256 + d)), n)"

definition reserved_table :: "(ip_addr \<times> nat) list" where
  "reserved_table =
    [v4_range 10 0 0 0 8, v4_range 172 16 0 0 12, v4_range 192 168 0 0 16,
     v4_range 127 0 0 0 8, (V6 1, 128),
     v4_range 0 0 0 0 8, v4_range 100 64 0 0 10, v4_range 169 254 0 0 16,
     v4_range 192 0 0 0 24, v4_range 192 0 2 0 24, v4_range 192 88 99 0 24,
     v4_range 198 18 0 0 15, v4_range 198 51 100 0 24, v4_range 203 0 113 0 24,
     v4_range 224 0 0 0 4, v4_range 240 0 0 0 4, v4_range 255 255 255 255 32,
     (V6 0, 128), (V6 0xFFFF00000000, 96), (V6 0x01000000000000000000000000000000, 64),
     (V6 0x20010DB8000000000000000000000000, 32), (V6 0xFC000000000000000000000000000000, 7), (V6 0xFE800000000000000000000000000000, 10),
     (V6 0xFF000000000000000000000000000000, 8)]"

definition reserved_addr :: "ip_addr \<Rightarrow> bool" where
  "reserved_addr b \<longleftrightarrow> list_ex (\<lambda>(a, n). same_prefix n a b) reserved_table"

definition record_routable :: "'n ipnet_ops \<Rightarrow> string \<Rightarrow> bool" where
  "record_routable ops r \<longleftrightarrow>
     (case net_parse ops r of None \<Rightarrow> False | Some net \<Rightarrow> \<forall>b. net_contains ops net b \<longrightarrow> \<not> reserved_addr b)"

text \<open>The literals split at their slash, with the address each part stands for.\<close>

fun literal_parts :: "string \<times> nat \<Rightarrow> string" where
  "literal_parts (s, n) = s @ CHR ''/'' # dec n"

definition reserved_parts :: "(string \<times> nat) list" where
  "reserved_parts =
    [(''10.0.0.0'', 8), (''172.16.0.0'', 12), (''192.168.0.0'', 16), (''127.0.0.0'', 8), (''::1'', 128),
     (''0.0.0.0'', 8), (''100.64.0.0'', 10), (''169.254.0.0'', 16), (''192.0.0.0'', 24), (''192.0.2.0'', 24),
     (''192.88.99.0'', 24), (''198.18.0.0'', 15), (''198.51.100.0'', 24), (''203.0.113.0'', 24),
     (''224.0.0.0'', 4), (''240.0.0.0'', 4), (''255.255.255.255'', 32), (''::'', 128), (''::ffff:0:0'', 96),
     (''100::'', 64), (''2001:db8::'', 32), (''fc00::'', 7), (''fe80::'', 10), (''ff00::'', 8)]"

lemma literals_parts:
  "RFC1918_LITERALS @ LOOPBACK_LITERALS @ BOGON_LITERALS = map literal_parts reserved_parts"
  by code_simp

lemma reserved_parts_parse:
  "list_all2 (\<lambda>(s, n) (a, m). parse_ip s = Some a \<and> n = m) reserved_parts reserved_table"
  unfolding reserved_parts_def reserved_table_def list_all2_Cons list_all2_Nil prod.case v4_range_def
  by (intro conjI; code_simp)

lemma reserved_table_width: "(a, n) \<in> set reserved_table \<Longrightarrow> n \<le> ip_width a"
  by (auto simp: reserved_table_def v4_range_def)

lemma parse_literals_append:
  "parse_literals ops (ss @ ts) =
     (case parse_literals ops ss of
        None \<Rightarrow> None | Some a \<Rightarrow> map_option (\<lambda>b. a @ b) (parse_literals ops ts))"
  by (cases "parse_literals ops ts"; induction ss) (auto split: option.splits)

lemma reserved_ranges_eq:
  "reserved_ranges ops = parse_literals ops (RFC1918_LITERALS @ LOOPBACK_LITERALS @ BOGON_LITERALS)"
  unfolding parse_literals_append reserved_ranges_def
  by (cases "parse_literals ops BOGON_LITERALS") (auto split: option.splits)

lemma sanitize_loop_filter:
  "sanitize_loop ops rs kept removed =
     (kept @ filter (\<lambda>r. \<exists>net. net_parse ops r = Some net \<and> \<not> is_bogon ops net) rs,
      removed + length (filter (\<lambda>r. \<not> (\<exists>net. net_parse ops r = Some net \<and> \<not> is_bogon ops net)) rs))"
  by (induction rs arbitrary: kept removed) (auto split: option.splits)

context ip_network
begin

lemma parse_parts:
  assumes "list_all2 (\<lambda>(s, n) (a, m). parse_ip s = Some a \<and> n = m) ps tab"
    and "\<And>a n. (a, n) \<in> set tab \<Longrightarrow> n \<le> ip_width a"
  shows "\<exists>nets. parse_literals ops (map literal_parts ps) = Some nets
    \<and> map (\<lambda>m. (net_ip ops m, net_prefix ops m)) nets = tab"
  using assms
proof (induction rule: list_all2_induct)
  case Nil
  then show ?case by simp
next
  case (Cons p ps q tab)
  then obtain s n a where p: "p = (s, n)" "q = (a, n)" "parse_ip s = Some a"
    by (cases p; cases q) auto
  then obtain net where "net_parse ops (literal_parts p) = Some net" "net_ip ops net = a" "net_prefix ops net = n"
    using parse_cidr [of s a n] Cons.prems by auto
  moreover obtain nets where "parse_literals ops (map literal_parts ps) = Some nets"
    "map (\<lambda>m. (net_ip ops m, net_prefix ops m)) nets = tab"
    using Cons.IH Cons.prems by auto
  ultimately show ?case using p by auto
qed

lemma reserved_ranges_parse:
  "\<exists>nets. reserved_ranges ops = Some nets
    \<and> map (\<lambda>m. (net_ip ops m, net_prefix ops m)) nets = reserved_table"
  unfolding reserved_ranges_eq literals_parts
  by (rule parse_parts [OF reserved_parts_parse reserved_table_width])

lemma reserved_addr_iff: "reserved_addr b \<longleftrightarrow> (\<exists>m \<in> set (RESERVED_RANGES ops). net_contains ops m b)"
proof -
  obtain nets where n: "reserved_ranges ops = Some nets"
    "map (\<lambda>m. (net_ip ops m, net_prefix ops m)) nets = reserved_table"
    using reserved_ranges_parse by blast
  have "reserved_addr b \<longleftrightarrow> (\<exists>m \<in> set nets. same_prefix (net_prefix ops m) (net_ip ops m) b)"
    unfolding reserved_addr_def n(2) [symmetric] by (simp add: list_ex_iff)
  then show ?thesis by (simp add: RESERVED_RANGES_def n(1) contains_iff)
qed

lemma overlaps_iff: "overlaps ops a b \<longleftrightarrow> net_addrs ops a \<inter> net_addrs ops b \<noteq> {}"
  using share_address_iff by (simp add: overlaps_def)

lemma is_bogon_iff: "is_bogon ops net \<longleftrightarrow> (\<exists>b. net_contains ops net b \<and> reserved_addr b)"
  by (auto simp: is_bogon_def list_ex_iff overlaps_iff reserved_addr_iff net_addrs_def)

lemma sanitize_eq:
  "sanitize ops rs = (filter (record_routable ops) rs, length rs - length (filter (record_routable ops) rs))"
proof -
  have "(\<exists>net. net_parse ops r = Some net \<and> \<not> is_bogon ops net) \<longleftrightarrow> record_routable ops r" for r
    by (auto simp: record_routable_def is_bogon_iff split: option.splits)
  then show ?thesis
    using sum_length_filter_compl [of "record_routable ops" rs]
    by (simp add: sanitize_def sanitize_loop_filter)
qed

end

section \<open>Properties\<close>

text \<open>
  Every literal of the three tables parses (building the lazily initialised list never
  panics), and the parsed list is, entry by entry, the numeric table of reserved ranges.
\<close>

theorem reserved_ranges_table:
  assumes "ip_network ops"
  shows "\<exists>nets. reserved_ranges ops = Some nets
    \<and> map (\<lambda>m. (net_ip ops m, net_prefix ops m)) nets = reserved_table"
  by (rule ip_network.reserved_ranges_parse [OF assms])

theorem reserved_ranges_table_witness:
  "\<exists>nets. reserved_ranges cidr_ops = Some nets
    \<and> map (\<lambda>m. (net_ip cidr_ops m, net_prefix cidr_ops m)) nets = reserved_table"
  by (rule reserved_ranges_table [OF cidr_net.ip_network_axioms])

text \<open>
  C9. \<open>sanitize\<close> keeps exactly the records that parse and have no address in a reserved
  range, in their order and with their repetitions, and counts every other record as removed.
  In particular a supernet that only partly overlaps a reserved range is dropped.
\<close>

theorem sanitize_keeps_routable:
  assumes "ip_network ops"
  shows "sanitize ops records =
    (filter (record_routable ops) records,
     length records - length (filter (record_routable ops) records))"
  by (rule ip_network.sanitize_eq [OF assms])

theorem sanitize_keeps_routable_witness:
  "sanitize cidr_ops [''8.8.8.8'', ''0.0.0.0/0'', ''nonsense''] =
     ([''8.8.8.8''], 2)
   \<and> filter (record_routable cidr_ops) [''8.8.8.8'', ''0.0.0.0/0'', ''nonsense''] =
     [''8.8.8.8'']"
proof -
  have "sanitize cidr_ops [''8.8.8.8'', ''0.0.0.0/0'', ''nonsense''] =
     ([''8.8.8.8''], 2)"
    by code_simp
  then show ?thesis
    using sanitize_keeps_routable [OF cidr_net.ip_network_axioms,
      of "[''8.8.8.8'', ''0.0.0.0/0'', ''nonsense'']"]
    by simp
qed

end
