(* ===== verification/VaultSync.thy ===== *)
theory VaultSync
  imports Jobs Bogon
begin

text \<open>
  \<open>src/jobs/vault_sync.rs\<close>: one execution of an inter-vault task. It reads the source's delta,
  filters reserved addresses out, pushes the chunks to every target and moves the task's
  high-water mark when every target succeeded. An execution is a partial function of the world
  because the delta is (\<open>None\<close> when the source never sends a short page).
\<close>

section \<open>The code\<close>

definition to_batch_record :: "ip_record \<Rightarrow> batch_record" where
  "to_batch_record r =
     \<lparr>br_target_address = ir_target_address r, br_cause = ir_cause r, br_is_deleted = Some (ir_is_deleted r),
      br_created_at = ir_created_at r, br_updated_at = ir_updated_at r,
      br_last_seen_at = ir_last_seen_at r, br_deleted_at = ir_deleted_at r\<rparr>"

definition filter_delta ::
  "'n ipnet_ops \<Rightarrow> bool \<Rightarrow> batch_record list \<Rightarrow> batch_record list \<times> nat" where
  "filter_delta nets skip mapped =
     (if skip then (mapped, 0)
      else case sanitize nets (map br_target_address mapped) of
             (kept, removed) \<Rightarrow> (filter (\<lambda>r. br_target_address r \<in> set kept) mapped, removed))"

text \<open>The per-target group name, with the task's own as the default.\<close>

definition effective_group :: "string \<Rightarrow> string option \<Rightarrow> string" where
  "effective_group dflt override = (case override of None \<Rightarrow> dflt | Some n \<Rightarrow> n)"

record push_state =
  ps_chunks_sent :: nat
  ps_errors :: "string list"
  ps_any_success :: bool
  ps_all_succeeded :: bool

fun push_task_targets ::
  "'w client_env \<Rightarrow> string \<Rightarrow> batch_record list list \<Rightarrow> (task_target \<times> vault_endpoint option) list
    \<Rightarrow> push_state \<Rightarrow> 'w \<Rightarrow> push_state \<times> 'w"
where
  "push_task_targets env dflt chunks [] st w = (st, w)"
| "push_task_targets env dflt chunks ((target, None) # targets) st w =
     push_task_targets env dflt chunks targets
       (st\<lparr>ps_errors := ps_errors st @
             [''target vault '' @ uuid_string (env_ops env) (tt_vault_id target) @ '' no longer exists''],
           ps_all_succeeded := False\<rparr>) w"
| "push_task_targets env dflt chunks ((target, Some vault) # targets) st w =
     (case push_chunks (\<lambda>_ chunk. post_batch env vault (effective_group dflt (tt_target_group_name target)) chunk Upsert)
             (vault_name vault) 0 chunks (ps_chunks_sent st) (ps_errors st) w of
        (target_ok, sent, errors, w1) \<Rightarrow>
          push_task_targets env dflt chunks targets
            (st\<lparr>ps_chunks_sent := sent, ps_errors := errors,
                ps_any_success := (ps_any_success st \<or> target_ok),
                ps_all_succeeded := (ps_all_succeeded st \<and> target_ok)\<rparr>) w1)"

definition failed_summary :: "int \<Rightarrow> string \<Rightarrow> job_summary" where
  "failed_summary duration msg =
     \<lparr>sum_status = ''FAILED'', sum_items_processed = 0, sum_chunks_sent = 0, sum_duration_ms = duration,
      sum_error_message = Some msg\<rparr>"

definition em_dash :: string where
  "em_dash = [CHR 0xE2, CHR 0x80, CHR 0x94]"

definition empty_first_sync_message :: "string \<Rightarrow> string \<Rightarrow> string" where
  "empty_first_sync_message grp vname =
     ''first sync fetched 0 records from group '' @ squoted grp @ '' on vault '' @ squoted vname @ '' ''
     @ em_dash @ '' check that the group name is spelled exactly as it appears on the source vault ''
     @ ''(matched case-sensitively) and that the group actually has records''"

definition sanitized_message :: "nat \<Rightarrow> string" where
  "sanitized_message n = dec n @ '' bogon/private/reserved address(es) sanitized before push''"

definition sync_status :: "bool \<Rightarrow> push_state \<Rightarrow> string" where
  "sync_status anomalous st =
     (if ps_errors st \<noteq> [] then (if ps_any_success st then ''PARTIAL'' else ''FAILED'')
      else if anomalous then ''PARTIAL'' else ''SUCCESS'')"

definition sync_execute ::
  "'n ipnet_ops \<Rightarrow> 'w client_env \<Rightarrow> vault_sync_task \<Rightarrow> vault_endpoint option
    \<Rightarrow> (task_target \<times> vault_endpoint option) list \<Rightarrow> 'w \<Rightarrow> ((job_summary \<times> bool) \<times> 'w) option"
where
  "sync_execute nets env task source_vault targets w =
     (let start = monotonic_now (env_world env) w in
      case source_vault of
        None \<Rightarrow> Some ((failed_summary (elapsed_ms env start w) ''source vault endpoint no longer exists'', False), w)
      | Some sv \<Rightarrow>
         (case get_ips_delta env sv (task_source_group_name task) (task_last_sync_at task) True w of
            None \<Rightarrow> None
          | Some (Inl e, w1) \<Rightarrow>
              Some ((failed_summary (elapsed_ms env start w1)
                       (''delta fetch from '' @ squoted (vault_name sv) @ '' failed: '' @ show_client_error e), False), w1)
          | Some (Inr delta, w1) \<Rightarrow>
             (let mapped0 = map to_batch_record delta;
                  anomalous = (task_last_sync_at task = None \<and> mapped0 = []) in
              case filter_delta nets (task_skip_bogon_filtering task) mapped0 of (mapped, bogons_removed) \<Rightarrow>
              (let chunks = chunk_records mapped MAX_BATCH_SIZE in
               case push_task_targets env (task_target_group_name task) chunks targets
                      \<lparr>ps_chunks_sent = 0, ps_errors = [], ps_any_success = (targets = []), ps_all_succeeded = True\<rparr> w1 of
                 (st, w2) \<Rightarrow>
                  (let parts = (if anomalous then [empty_first_sync_message (task_source_group_name task) (vault_name sv)] else [])
                             @ (if 0 < bogons_removed then [sanitized_message bogons_removed] else [])
                             @ ps_errors st
                   in Some ((\<lparr>sum_status = sync_status anomalous st,
                              sum_items_processed = as_i32 (length mapped),
                              sum_chunks_sent = int (ps_chunks_sent st),
                              sum_duration_ms = elapsed_ms env start w2,
                              sum_error_message = (if parts = [] then None else Some (join ''; '' parts))\<rparr>,
                             ps_all_succeeded st), w2))))))"

definition task_targets_of :: "database \<Rightarrow> uuid \<Rightarrow> (task_target \<times> vault_endpoint option) list" where
  "task_targets_of db i =
     map (\<lambda>t. (t, find_vault db (tt_vault_id t))) (filter (\<lambda>t. tt_task_id t = i) (task_targets db))"

definition sync_run ::
  "'n ipnet_ops \<Rightarrow> 'w client_env \<Rightarrow> uuid \<Rightarrow> uuid \<Rightarrow> database \<Rightarrow> 'w
    \<Rightarrow> (((app_error + job_summary) \<times> database) \<times> 'w) option"
where
  "sync_run nets env fresh i db w =
     (let started_at = utc_now (env_world env) w in
      case find_task db i of
        None \<Rightarrow> Some ((Inl NotFound, db), w)
      | Some task \<Rightarrow>
         (case sync_execute nets env task (find_vault db (task_source_vault_id task)) (task_targets_of db i) w of
            None \<Rightarrow> None
          | Some ((summary, all_targets_succeeded), w1) \<Rightarrow>
              Some (try_h (sql (write_sync_log fresh ''VAULT_SYNC'' i (task_name task) summary started_at db)) db (\<lambda>db1.
                    if all_targets_succeeded
                    then try_h (sql (update_task (task\<lparr>task_last_sync_at := Some started_at\<rparr>) db1)) db1 (\<lambda>db2. (Inr summary, db2))
                    else (Inr summary, db1)), w1)))"

section \<open>The push loop\<close>

lemma push_chunks_errors:
  "push_chunks send nm i cs sent errs w = (ok, n, es, w') \<Longrightarrow>
     (ok \<longleftrightarrow> es = errs) \<and> (\<not> ok \<longrightarrow> (\<exists>e. es = errs @ [e]))"
proof (induction cs arbitrary: i sent w)
  case Nil
  then show ?case by simp
next
  case (Cons c cs)
  show ?case
  proof (cases "send i c w")
    case (Pair x w1)
    then show ?thesis using Cons by (cases x) auto
  qed
qed

lemma push_task_targets_flags:
  "push_task_targets env dflt chunks targets st w = (st', w') \<Longrightarrow>
     (ps_all_succeeded st' \<longleftrightarrow> ps_all_succeeded st \<and> ps_errors st' = ps_errors st) \<and>
     (\<exists>es. ps_errors st' = ps_errors st @ es)"
proof (induction targets arbitrary: st w)
  case Nil
  then show ?case by simp
next
  case (Cons tv targets)
  obtain t vo where tv: "tv = (t, vo)" by (cases tv)
  show ?case
  proof (cases vo)
    case None
    show ?thesis using Cons.IH [OF Cons.prems [unfolded tv None push_task_targets.simps(2)]] by auto
  next
    case (Some v)
    obtain ok n es w1 where p: "push_chunks (\<lambda>_ chunk. post_batch env v (effective_group dflt (tt_target_group_name t)) chunk Upsert)
        (vault_name v) 0 chunks (ps_chunks_sent st) (ps_errors st) w = (ok, n, es, w1)"
      using prod_cases4 by blast
    have "push_task_targets env dflt chunks targets (st\<lparr>ps_chunks_sent := n, ps_errors := es,
        ps_any_success := ps_any_success st \<or> ok, ps_all_succeeded := ps_all_succeeded st \<and> ok\<rparr>) w1 = (st', w')"
      using Cons.prems p by (simp add: tv Some)
    from Cons.IH [OF this] show ?thesis
      using push_chunks_errors [OF p] by (cases ok) auto
  qed
qed

context vault_fleet
begin

definition target_keys :: "string \<Rightarrow> (task_target \<times> vault_endpoint option) list \<Rightarrow> 'k set" where
  "target_keys dflt targets =
     {key_of v (effective_group dflt (tt_target_group_name t)) | t v. (t, Some v) \<in> set targets}"

lemma applied_twice: "apply_batch Upsert xs (apply_batch Upsert xs g) = apply_batch Upsert xs g"
  using batch_endpoint.upserts_idem [OF endpoint] .

lemma target_keys_Cons:
  "target_keys dflt ((t, Some v) # targets) =
     insert (key_of v (effective_group dflt (tt_target_group_name t))) (target_keys dflt targets)"
  by (auto simp: target_keys_def)

lemma push_all_targets:
  "push_task_targets env dflt chunks targets st w = (st', w') \<Longrightarrow> ps_all_succeeded st' \<Longrightarrow>
     (\<forall>(t, vo) \<in> set targets. vo \<noteq> None) \<and>
     (\<forall>k. grp_of k w' = (if k \<in> target_keys dflt targets
                         then apply_batch Upsert (concat chunks) (grp_of k w) else grp_of k w))"
proof (induction targets arbitrary: st w)
  case Nil
  then show ?case by (simp add: target_keys_def)
next
  case (Cons tv targets)
  obtain t vo where tv: "tv = (t, vo)" by (cases tv)
  show ?case
  proof (cases vo)
    case None
    with Cons.prems tv show ?thesis
      using push_task_targets_flags [of env dflt chunks targets] by fastforce
  next
    case (Some v)
    let ?g = "effective_group dflt (tt_target_group_name t)"
    obtain ok n es w1 where p: "push_chunks (\<lambda>_ chunk. post_batch env v ?g chunk Upsert)
        (vault_name v) 0 chunks (ps_chunks_sent st) (ps_errors st) w = (ok, n, es, w1)"
      using prod_cases4 by blast
    let ?st = "st\<lparr>ps_chunks_sent := n, ps_errors := es,
        ps_any_success := ps_any_success st \<or> ok, ps_all_succeeded := ps_all_succeeded st \<and> ok\<rparr>"
    have rest: "push_task_targets env dflt chunks targets ?st w1 = (st', w')"
      using Cons.prems(1) p by (simp add: tv Some)
    then have ok: "ok" using push_task_targets_flags [OF rest] Cons.prems(2) by simp
    have own: "grp_of (key_of v ?g) w1 = apply_batch Upsert (concat chunks) (grp_of (key_of v ?g) w)"
      using push_upserts [where mode = "\<lambda>_. Upsert", OF refl p [unfolded eqTrueI [OF ok]]] .
    have oth: "k \<noteq> key_of v ?g \<Longrightarrow> grp_of k w1 = grp_of k w" for k
      using push_others [where mode = "\<lambda>_. Upsert"] p by blast
    note IH = Cons.IH [OF rest Cons.prems(2)]
    show ?thesis
    proof (intro conjI allI)
      show "\<forall>(t, vo) \<in> set (tv # targets). vo \<noteq> None" using IH tv Some by auto
      fix k
      show "grp_of k w' = (if k \<in> target_keys dflt (tv # targets)
          then apply_batch Upsert (concat chunks) (grp_of k w) else grp_of k w)"
        using IH own oth [of k] applied_twice
        by (cases "k = key_of v ?g") (auto simp: tv Some target_keys_Cons)
    qed
  qed
qed

lemma execute_delivers:
  assumes "sync_execute nets env task source targets w = Some ((summary, True), w')"
  shows "\<exists>sv delta w1. source = Some sv
    \<and> get_ips_delta env sv (task_source_group_name task) (task_last_sync_at task) True w = Some (Inr delta, w1)
    \<and> (\<forall>(t, vo) \<in> set targets. vo \<noteq> None)
    \<and> (\<forall>k. grp_of k w' =
        (if k \<in> target_keys (task_target_group_name task) targets
         then apply_batch Upsert (fst (filter_delta nets (task_skip_bogon_filtering task) (map to_batch_record delta))) (grp_of k w)
         else grp_of k w))"
proof -
  obtain sv where sv: "source = Some sv" using assms by (auto simp: sync_execute_def Let_def split: option.splits)
  then obtain delta w1 where d: "get_ips_delta env sv (task_source_group_name task) (task_last_sync_at task) True w
      = Some (Inr delta, w1)"
    using assms by (auto simp: sync_execute_def Let_def split: option.splits sum.splits prod.splits)
  obtain mapped bg where f: "filter_delta nets (task_skip_bogon_filtering task) (map to_batch_record delta) = (mapped, bg)"
    by fastforce
  obtain st where p: "push_task_targets env (task_target_group_name task) (chunk_records mapped MAX_BATCH_SIZE) targets
      \<lparr>ps_chunks_sent = 0, ps_errors = [], ps_any_success = (targets = []), ps_all_succeeded = True\<rparr> w1 = (st, w')"
    "ps_all_succeeded st"
    using assms sv d f by (auto simp: sync_execute_def Let_def split: prod.splits)
  have "concat (chunk_records mapped MAX_BATCH_SIZE) = mapped"
    by (rule concat_chunk_records) (simp add: MAX_BATCH_SIZE_def)
  then show ?thesis
    using push_all_targets [OF p] delta_keeps [OF d] sv d f by auto
qed

end

section \<open>Properties\<close>

text \<open>
  C6. The high-water mark is safe: when an execution reports that every target succeeded
  (the only case in which \<open>last_sync_at\<close> moves), the source was read to the end, every
  target vault exists, and each target group has received every record of the delta that
  survives the reserved-range filter; groups that are not targets are as before.
\<close>

theorem sync_delivers_before_advancing:
  assumes "vault_fleet env key_of grp_of apply_batch"
    and "sync_execute nets env task source targets w = Some ((summary, True), w')"
  shows "\<exists>sv delta w1. source = Some sv
    \<and> get_ips_delta env sv (task_source_group_name task) (task_last_sync_at task) True w = Some (Inr delta, w1)
    \<and> (\<forall>t v. (t, v) \<in> set targets \<longrightarrow> (\<exists>vault. v = Some vault
        \<and> grp_of (key_of vault (effective_group (task_target_group_name task) (tt_target_group_name t))) w' =
          apply_batch Upsert (fst (filter_delta nets (task_skip_bogon_filtering task) (map to_batch_record delta)))
            (grp_of (key_of vault (effective_group (task_target_group_name task) (tt_target_group_name t))) w)))
    \<and> (\<forall>k. (\<forall>t vault. (t, Some vault) \<in> set targets \<longrightarrow>
          k \<noteq> key_of vault (effective_group (task_target_group_name task) (tt_target_group_name t))) \<longrightarrow>
        grp_of k w' = grp_of k w)"
proof -
  note keys = vault_fleet.target_keys_def [OF assms(1)]
  obtain sv delta w1 where d: "source = Some sv"
    "get_ips_delta env sv (task_source_group_name task) (task_last_sync_at task) True w = Some (Inr delta, w1)"
    "\<forall>(t, vo) \<in> set targets. vo \<noteq> None"
    "\<forall>k. grp_of k w' =
        (if k \<in> vault_fleet.target_keys key_of (task_target_group_name task) targets
         then apply_batch Upsert (fst (filter_delta nets (task_skip_bogon_filtering task) (map to_batch_record delta))) (grp_of k w)
         else grp_of k w)"
    using vault_fleet.execute_delivers [OF assms] by (elim exE conjE) (rule that)
  let ?recs = "fst (filter_delta nets (task_skip_bogon_filtering task) (map to_batch_record delta))"
  let ?key = "\<lambda>t vault. key_of vault (effective_group (task_target_group_name task) (tt_target_group_name t))"
  have own: "\<exists>vault. v = Some vault \<and> grp_of (?key t vault) w' = apply_batch Upsert ?recs (grp_of (?key t vault) w)"
    if "(t, v) \<in> set targets" for t v
  proof -
    obtain vault where v: "v = Some vault" "(t, Some vault) \<in> set targets"
      using bspec [OF d(3) \<open>(t, v) \<in> set targets\<close>] \<open>(t, v) \<in> set targets\<close> by auto
    then have "?key t vault \<in> vault_fleet.target_keys key_of (task_target_group_name task) targets"
      by (auto simp: keys)
    then show ?thesis using v(1) d(4) [rule_format, of "?key t vault"] by simp
  qed
  have oth: "grp_of k w' = grp_of k w"
    if "\<forall>t vault. (t, Some vault) \<in> set targets \<longrightarrow> k \<noteq> ?key t vault" for k
  proof -
    have "k \<notin> vault_fleet.target_keys key_of (task_target_group_name task) targets"
      using that by (auto simp: keys)
    then show ?thesis using d(4) [rule_format, of k] by simp
  qed
  from own have c: "\<forall>t v. (t, v) \<in> set targets \<longrightarrow>
      (\<exists>vault. v = Some vault \<and> grp_of (?key t vault) w' = apply_batch Upsert ?recs (grp_of (?key t vault) w))"
    by simp
  from oth have o: "\<forall>k. (\<forall>t vault. (t, Some vault) \<in> set targets \<longrightarrow> k \<noteq> ?key t vault) \<longrightarrow> grp_of k w' = grp_of k w"
    by simp
  show ?thesis
    by (rule exI [of _ sv], rule exI [of _ delta], rule exI [of _ w1], intro conjI, fact d(1), fact d(2), fact c, fact o)
qed

definition sim_task :: vault_sync_task where
  "sim_task = \<lparr>task_id = 5, task_name = ''t'', task_source_vault_id = 1, task_source_group_name = ''src'',
     task_target_group_name = ''dst'', task_cron_schedule = ''0 0 * * * *'', task_last_sync_at = None,
     task_mode = ''upsert'', task_is_active = True, task_skip_bogon_filtering = True,
     task_owner_key_id = None, task_created_at = 0, task_updated_at = 0\<rparr>"

definition sim_target :: task_target where
  "sim_target = \<lparr>tt_task_id = 5, tt_vault_id = 1, tt_target_group_name = None\<rparr>"

lemma sim_delta:
  "get_ips_delta sim_env sim_endpoint g since True w = Some (Inr sim_listing, w)"
  using sim_pages.page_loop_all [where w = w and offset = 0 and acc = "[]"]
  by (auto simp: get_ips_delta_def sim_env_simps)

lemma sim_execute:
  "\<exists>summary w'. sync_execute cidr_ops sim_env sim_task (Some sim_endpoint) [(sim_target, Some sim_endpoint)]
      \<lparr>sim_live = (\<lambda>_. {}), sim_limit = 9\<rparr> = Some ((summary, True), w')"
proof -
  have "chunk_records [x] MAX_BATCH_SIZE = [[x]]" for x :: batch_record
    by (simp add: chunk_records_step MAX_BATCH_SIZE_def)
  then show ?thesis
    by (simp add: sync_execute_def sim_delta sim_task_def sim_target_def filter_delta_def sim_listing_def
        post_batch_def sim_retry Let_def)
qed

theorem sync_delivers_before_advancing_witness:
  "\<exists>summary w'. sync_execute cidr_ops sim_env sim_task (Some sim_endpoint) [(sim_target, Some sim_endpoint)]
      \<lparr>sim_live = (\<lambda>_. {}), sim_limit = 9\<rparr> = Some ((summary, True), w')
    \<and> sim_group (sim_key sim_endpoint ''dst'') w' = {''8.8.8.8''}"
proof -
  let ?w = "\<lparr>sim_live = (\<lambda>_. {}), sim_limit = 9\<rparr>"
  obtain summary w' where e: "sync_execute cidr_ops sim_env sim_task (Some sim_endpoint)
      [(sim_target, Some sim_endpoint)] ?w = Some ((summary, True), w')"
    using sim_execute by blast
  from sync_delivers_before_advancing [OF sim_fleet.vault_fleet_axioms e]
  have "sim_group (sim_key sim_endpoint ''dst'') w' =
      apply_live Upsert (map to_batch_record sim_listing) (sim_group (sim_key sim_endpoint ''dst'') ?w)"
    by (auto simp: sim_delta filter_delta_def sim_task_def sim_target_def effective_group_def)
  also have "\<dots> = {''8.8.8.8''}"
    by (simp add: apply_live_def live_item_def is_tombstone_def to_batch_record_def sim_listing_def sim_group_def)
  finally show ?thesis using e by blast
qed

text \<open>
  What one run of a task changes: a missing task changes nothing; otherwise exactly one
  \<open>sync_logs\<close> row with the run's outcome is added, \<open>last_sync_at\<close> becomes the start of the run
  if every target succeeded and keeps its value otherwise, and no other table or row changes.
\<close>

theorem sync_run_effect:
  assumes "sync_run nets env fresh i db w = Some ((Inr summary, db'), w')"
  shows "\<exists>task ok w1. find_task db i = Some task
    \<and> sync_execute nets env task (find_vault db (task_source_vault_id task)) (task_targets_of db i) w
        = Some ((summary, ok), w1)
    \<and> (\<exists>log. sync_logs db' = sync_logs db @ [log] \<and> slog_job_id log = i \<and> slog_job_type log = ''VAULT_SYNC''
          \<and> slog_status log = sum_status summary \<and> slog_error_message log = sum_error_message summary)
    \<and> tasks db' = (if ok then replace_row task_id (task\<lparr>task_last_sync_at := Some (utc_now (env_world env) w)\<rparr>) (tasks db)
                   else tasks db)
    \<and> db' = db\<lparr>sync_logs := sync_logs db', tasks := tasks db'\<rparr> \<and> db_ok db'"
proof -
  obtain task where t: "find_task db i = Some task"
    using assms by (cases "find_task db i") (simp_all add: sync_run_def Let_def)
  let ?now = "utc_now (env_world env) w"
  let ?exec = "sync_execute nets env task (find_vault db (task_source_vault_id task)) (task_targets_of db i) w"
  obtain s ok w1 where e: "?exec = Some ((s, ok), w1)"
    using assms t by (cases ?exec) (auto simp: sync_run_def Let_def)
  let ?t = "task\<lparr>task_last_sync_at := Some ?now\<rparr>"
  have run: "try_h (sql (write_sync_log fresh ''VAULT_SYNC'' i (task_name task) s ?now db)) db (\<lambda>db1.
      if ok then try_h (sql (update_task ?t db1)) db1 (\<lambda>db2. (Inr s, db2)) else (Inr s, db1)) = (Inr summary, db')"
    using assms t e by (simp add: sync_run_def Let_def)
  then obtain db1 where l: "write_sync_log fresh ''VAULT_SYNC'' i (task_name task) s ?now db = Inr db1"
    and rest: "(if ok then try_h (sql (update_task ?t db1)) db1 (\<lambda>db2. (Inr s, db2)) else (Inr s, db1)) = (Inr summary, db')"
    by (auto simp: try_h_eq_Inr)
  then have s: "s = summary" by (auto simp: try_h_eq_Inr split: if_splits)
  from l obtain log where db1: "db1 = db\<lparr>sync_logs := sync_logs db @ [log]\<rparr>" "db_ok db1"
    and log: "slog_job_id log = i" "slog_job_type log = ''VAULT_SYNC''"
      "slog_status log = sum_status s" "slog_error_message log = sum_error_message s"
    by (simp add: write_sync_log_def insert_sync_log_def)
  have db': "db' = (if ok then db1\<lparr>tasks := replace_row task_id ?t (tasks db)\<rparr> else db1)" and ok': "db_ok db'"
    using rest db1 by (auto simp: try_h_eq_Inr update_task_def split: if_splits)
  show ?thesis
    by (intro exI [of _ task] exI [of _ ok] exI [of _ w1] conjI exI [of _ log] ok')
      (simp_all add: t e s [symmetric] log db' db1(1))
qed

definition sim_db :: database where
  "sim_db = \<lparr>api_keys = [], permissions = [], vaults = [sim_endpoint], groups = [], group_targets = [],
     feeds = [], tasks = [sim_task], task_targets = [sim_target], sync_logs = [], audit_logs = []\<rparr>"

theorem sync_run_effect_witness:
  "\<exists>summary db' w'. sync_run cidr_ops sim_env 99 5 sim_db \<lparr>sim_live = (\<lambda>_. {}), sim_limit = 9\<rparr>
      = Some ((Inr summary, db'), w')
    \<and> map task_last_sync_at (tasks db') = [Some 0] \<and> length (sync_logs db') = 1"
proof -
  let ?w = "\<lparr>sim_live = (\<lambda>_. {}), sim_limit = 9\<rparr>"
  obtain summary w1 where e: "sync_execute cidr_ops sim_env sim_task (Some sim_endpoint)
      [(sim_target, Some sim_endpoint)] ?w = Some ((summary, True), w1)"
    using sim_execute by blast
  have lk: "find_task sim_db 5 = Some sim_task" "find_vault sim_db (task_source_vault_id sim_task) = Some sim_endpoint"
    "task_targets_of sim_db 5 = [(sim_target, Some sim_endpoint)]"
    by (simp_all add: find_task_def find_vault_def task_targets_of_def sim_db_def sim_task_def sim_target_def sim_endpoint_def)
  have "\<exists>db'. sync_run cidr_ops sim_env 99 5 sim_db ?w = Some ((Inr summary, db'), w1)"
    unfolding sync_run_def lk option.case e prod.case Let_def
    by (simp add: write_sync_log_def insert_sync_log_def checked_def update_task_def db_ok_defs replace_row_def
        sim_db_def sim_task_def sim_target_def sim_endpoint_def)
  then obtain db' where r: "sync_run cidr_ops sim_env 99 5 sim_db ?w = Some ((Inr summary, db'), w1)" by blast
  from sync_run_effect [OF r] e lk
  have "tasks db' = replace_row task_id (sim_task\<lparr>task_last_sync_at := Some (utc_now (env_world sim_env) ?w)\<rparr>) (tasks sim_db)"
    "\<exists>log. sync_logs db' = sync_logs sim_db @ [log]"
    by auto
  then have "map task_last_sync_at (tasks db') = [Some 0] \<and> length (sync_logs db') = 1"
    by (auto simp: replace_row_def sim_db_def sim_task_def sim_env_def)
  with r show ?thesis by (intro exI [of _ summary] exI [of _ db'] exI [of _ w1]) simp
qed

text \<open>
  The status of an execution: \<open>SUCCESS\<close> exactly when every target succeeded and the run
  was not a first synchronisation that fetched nothing; \<open>FAILED\<close> only when no target
  succeeded (or nothing could be read); an execution in which every target succeeded never
  reports \<open>FAILED\<close>.
\<close>

theorem sync_status_meaning:
  assumes "sync_execute nets env task (Some sv) targets w = Some ((summary, all_ok), w')"
    and "get_ips_delta env sv (task_source_group_name task) (task_last_sync_at task) True w = Some (Inr delta, w1)"
  shows "(sum_status summary = ''SUCCESS'' \<longleftrightarrow> all_ok \<and> \<not> (task_last_sync_at task = None \<and> delta = []))
    \<and> (all_ok \<longrightarrow> sum_status summary \<noteq> ''FAILED'')"
proof -
  obtain mapped bg where f: "filter_delta nets (task_skip_bogon_filtering task) (map to_batch_record delta) = (mapped, bg)"
    by fastforce
  obtain st w2 where p: "push_task_targets env (task_target_group_name task) (chunk_records mapped MAX_BATCH_SIZE) targets
      \<lparr>ps_chunks_sent = 0, ps_errors = [], ps_any_success = (targets = []), ps_all_succeeded = True\<rparr> w1 = (st, w2)"
    by fastforce
  have "sum_status summary = sync_status (task_last_sync_at task = None \<and> delta = []) st" "all_ok = ps_all_succeeded st"
    using assms f p by (auto simp: sync_execute_def Let_def)
  moreover have "ps_all_succeeded st \<longleftrightarrow> ps_errors st = []"
    using push_task_targets_flags [OF p] by simp
  ultimately show ?thesis
    by (auto simp: sync_status_def)
qed

theorem sync_status_meaning_witness:
  "\<exists>summary w'. sync_execute cidr_ops sim_env sim_task (Some sim_endpoint) [(sim_target, Some sim_endpoint)]
      \<lparr>sim_live = (\<lambda>_. {}), sim_limit = 9\<rparr> = Some ((summary, True), w')
    \<and> sum_status summary = ''SUCCESS'' \<and> sum_status summary \<noteq> ''FAILED''"
proof -
  let ?w = "\<lparr>sim_live = (\<lambda>_. {}), sim_limit = 9\<rparr>"
  obtain summary w' where e: "sync_execute cidr_ops sim_env sim_task (Some sim_endpoint)
      [(sim_target, Some sim_endpoint)] ?w = Some ((summary, True), w')"
    using sim_execute by blast
  show ?thesis
    using sync_status_meaning [OF e sim_delta] e by (auto simp: sim_listing_def)
qed

end
