(* ===== verification/Replay.thy ===== *)
theory Replay
  imports Prelude "HOL-Library.AList"
begin

text \<open>
  \<open>src/replay.rs\<close>: the in-memory cache of accepted signatures. The hash map is an
  association list with distinct keys (so that its length is \<open>len()\<close>), the two mutexes
  carry a flag saying whether they are poisoned, and the monotonic clock is an argument, in
  milliseconds. The reference it is compared with, \<open>spec_run\<close>, keeps every accepted
  signature for ever and has no sweep.
\<close>

section \<open>The code\<close>

datatype signature_id = SignatureId (sig_key: uuid) (sig_digest: bytes)

definition MAX_TRACKED_SIGNATURES :: nat where
  "MAX_TRACKED_SIGNATURES = 100000"

record replay_guard =
  seen :: "(signature_id \<times> instant) list"
  seen_poisoned :: bool
  window :: int
  last_sweep :: instant
  sweep_poisoned :: bool

definition replay_new :: "int \<Rightarrow> instant \<Rightarrow> replay_guard" where
  "replay_new window_secs now =
     \<lparr>seen = [], seen_poisoned = False, window = 1000 * max 1 (min 3600 window_secs),
      last_sweep = now, sweep_poisoned = False\<rparr>"

definition prune_if_due :: "replay_guard \<Rightarrow> instant \<Rightarrow> replay_guard" where
  "prune_if_due g now =
     (let routine_interval = window g div 4;
          due = (\<not> sweep_poisoned g \<and> routine_interval \<le> max 0 (now - last_sweep g));
          g1 = (if due then g\<lparr>last_sweep := now\<rparr> else g);
          over_capacity = (\<not> seen_poisoned g1 \<and> MAX_TRACKED_SIGNATURES \<le> length (seen g1))
      in if (due \<or> over_capacity) \<and> \<not> seen_poisoned g1
         then g1\<lparr>seen := filter (\<lambda>(_, expires_at). now < expires_at) (seen g1)\<rparr>
         else g1)"

definition check_and_record :: "replay_guard \<Rightarrow> instant \<Rightarrow> uuid \<Rightarrow> bytes \<Rightarrow> bool \<times> replay_guard" where
  "check_and_record g now key_id digest =
     (let g1 = prune_if_due g now in
      if seen_poisoned g1 then (False, g1)
      else let sid = SignatureId key_id digest;
               record_it = (True, g1\<lparr>seen := AList.update sid (now + window g1) (seen g1)\<rparr>) in
           case map_of (seen g1) sid of
             Some expires_at \<Rightarrow> if now < expires_at then (False, g1) else record_it
           | None \<Rightarrow> record_it)"

text \<open>A sequence of calls, each with the instant it is made at, and the answers.\<close>

fun replay_run :: "replay_guard \<Rightarrow> (instant \<times> uuid \<times> bytes) list \<Rightarrow> bool list" where
  "replay_run g [] = []"
| "replay_run g ((now, k, d) # calls) =
     (case check_and_record g now k d of (ok, g') \<Rightarrow> ok # replay_run g' calls)"

section \<open>The reference: remember everything\<close>

fun spec_run :: "int \<Rightarrow> (signature_id \<times> instant) set \<Rightarrow> (instant \<times> uuid \<times> bytes) list \<Rightarrow> bool list" where
  "spec_run w acc [] = []"
| "spec_run w acc ((now, k, d) # calls) =
     (let fresh = (\<forall>t. (SignatureId k d, t) \<in> acc \<longrightarrow> t + w \<le> now) in
      fresh # spec_run w (if fresh then insert (SignatureId k d, now) acc else acc) calls)"

text \<open>
  The simulation: from the given instant on, an entry of the cache is live exactly when the
  signature was accepted less than a window ago.
\<close>

definition live :: "replay_guard \<Rightarrow> signature_id \<Rightarrow> instant \<Rightarrow> bool" where
  "live g sid n \<longleftrightarrow> (\<exists>e. map_of (seen g) sid = Some e \<and> n < e)"

definition replay_rel :: "instant \<Rightarrow> replay_guard \<Rightarrow> (signature_id \<times> instant) set \<Rightarrow> bool" where
  "replay_rel now g acc \<longleftrightarrow>
     distinct (map fst (seen g)) \<and> \<not> seen_poisoned g \<and> 0 \<le> window g \<and>
     (\<forall>sid n. now \<le> n \<longrightarrow> (live g sid n \<longleftrightarrow> (\<exists>t. (sid, t) \<in> acc \<and> n < t + window g)))"

lemma prune_window [simp]:
  "window (prune_if_due g now) = window g" "seen_poisoned (prune_if_due g now) = seen_poisoned g"
  by (simp_all add: prune_if_due_def Let_def)

lemma prune_seen:
  "seen (prune_if_due g now) = seen g \<or>
   seen (prune_if_due g now) = filter (\<lambda>(_, e). now < e) (seen g)"
  by (simp add: prune_if_due_def Let_def)

lemma map_of_filter_distinct:
  "distinct (map fst xs) \<Longrightarrow> map_of (filter (\<lambda>(_, e). P e) xs) k =
     (case map_of xs k of None \<Rightarrow> None | Some e \<Rightarrow> if P e then Some e else None)"
  by (induction xs) (auto split: option.splits dest: map_of_SomeD simp: rev_image_eqI)

lemma prune_live:
  assumes "distinct (map fst (seen g))" and "now \<le> n"
  shows "live (prune_if_due g now) sid n \<longleftrightarrow> live g sid n"
  using prune_seen [of g now] assms
  by (auto simp: live_def map_of_filter_distinct split: option.splits if_splits)

lemma prune_distinct:
  "distinct (map fst (seen g)) \<Longrightarrow> distinct (map fst (seen (prune_if_due g now)))"
  using prune_seen [of g now] by (auto simp: distinct_map_filter)

lemma check_and_record_sim:
  assumes r: "replay_rel t0 g acc" and "t0 \<le> now" and c: "check_and_record g now k d = (ok, g')"
  shows "ok \<longleftrightarrow> (\<forall>t. (SignatureId k d, t) \<in> acc \<longrightarrow> t + window g \<le> now)"
    and "replay_rel now g' (if ok then insert (SignatureId k d, now) acc else acc)"
    and "window g' = window g"
proof -
  let ?g1 = "prune_if_due g now" and ?s = "SignatureId k d"
  have dist: "distinct (map fst (seen ?g1))" and np: "\<not> seen_poisoned ?g1"
    using r prune_distinct by (auto simp: replay_rel_def)
  have l1: "live ?g1 sid n \<longleftrightarrow> (\<exists>t. (sid, t) \<in> acc \<and> n < t + window g)" if "now \<le> n" for sid n
    using r assms(2) that prune_live [of g now n sid] by (auto simp: replay_rel_def)
  have cr: "check_and_record g now k d =
      (if live ?g1 ?s now then (False, ?g1)
       else (True, ?g1\<lparr>seen := AList.update ?s (now + window g) (seen ?g1)\<rparr>))"
    using np by (auto simp: check_and_record_def Let_def live_def split: option.splits)
  show "ok \<longleftrightarrow> (\<forall>t. (?s, t) \<in> acc \<longrightarrow> t + window g \<le> now)"
    using c cr l1 [of now ?s] by (auto simp: not_less split: if_splits)
  show "window g' = window g"
    using c cr by (auto split: if_splits)
  show "replay_rel now g' (if ok then insert (?s, now) acc else acc)"
  proof (cases "live ?g1 ?s now")
    case True
    with c cr l1 r dist show ?thesis by (auto simp: replay_rel_def)
  next
    case False
    with c cr have ok: "ok" and g': "g' = ?g1\<lparr>seen := AList.update ?s (now + window g) (seen ?g1)\<rparr>"
      by auto
    have "live g' sid n \<longleftrightarrow> (if sid = ?s then n < now + window g else live ?g1 sid n)" for sid n
      by (auto simp: g' live_def update_conv')
    moreover have "\<not> (\<exists>t. (?s, t) \<in> acc \<and> n < t + window g)" if "now \<le> n" for n
      using False l1 [of now ?s] that by fastforce
    ultimately show ?thesis
      using ok l1 r dist by (auto simp: replay_rel_def g' distinct_update)
  qed
qed

lemma replay_run_refines:
  assumes "replay_rel t0 g acc" and "sorted (map fst calls)" and "\<And>c. c \<in> set calls \<Longrightarrow> t0 \<le> fst c"
  shows "replay_run g calls = spec_run (window g) acc calls"
  using assms
proof (induction calls arbitrary: g acc t0)
  case Nil
  then show ?case by simp
next
  case (Cons c calls)
  obtain now k d where c: "c = (now, k, d)" by (cases c)
  obtain ok g' where cr: "check_and_record g now k d = (ok, g')" by fastforce
  note sim = check_and_record_sim [OF Cons.prems(1) _ cr]
  have t: "t0 \<le> now" using Cons.prems(3) [of c] c by simp
  have "replay_run g' calls = spec_run (window g') (if ok then insert (SignatureId k d, now) acc else acc) calls"
    using Cons.prems c by (intro Cons.IH [OF sim(2) [OF t]]) auto
  then show ?case using c cr sim(1,3) [OF t] by (simp add: Let_def)
qed

lemma spec_run_length [simp]: "length (spec_run w acc calls) = length calls"
  by (induction w acc calls rule: spec_run.induct) (auto simp: Let_def)

lemma spec_run_nth:
  assumes "j < length calls"
  shows "spec_run w acc calls ! j \<longleftrightarrow>
    (\<forall>t. (SignatureId (fst (snd (calls ! j))) (snd (snd (calls ! j))), t) \<in> acc \<longrightarrow> t + w \<le> fst (calls ! j)) \<and>
    (\<forall>i < j. spec_run w acc calls ! i \<and> snd (calls ! i) = snd (calls ! j) \<longrightarrow>
       fst (calls ! i) + w \<le> fst (calls ! j))"
  using assms
proof (induction w acc calls arbitrary: j rule: spec_run.induct)
  case (1 w acc)
  then show ?case by simp
next
  case (2 w acc now k d calls)
  show ?case
  proof (cases j)
    case 0
    then show ?thesis by (simp add: Let_def)
  next
    case (Suc m)
    then show ?thesis
      using "2.IH" [OF refl, of m] "2.prems"
      by (cases "calls ! m") (auto simp: Let_def All_less_Suc2 split: if_splits)
  qed
qed

lemma replay_new_rel: "replay_rel t0 (replay_new w t0) {}"
  by (simp add: replay_rel_def replay_new_def live_def)

section \<open>Property\<close>

text \<open>
  C10. Over every sequence of calls made at non-decreasing instants, a signature is accepted
  exactly when no accepted call with the same key and digest was made less than one window
  (the configured one, clamped to one second up to an hour) earlier. The routine and
  the capacity-triggered sweeps never make a replay pass and never refuse a fresh signature.
\<close>

theorem replay_guard_single_use:
  assumes "sorted (map fst calls)" and "\<And>c. c \<in> set calls \<Longrightarrow> t0 \<le> fst c"
    and "j < length calls"
  shows "replay_run (replay_new w t0) calls ! j \<longleftrightarrow>
    \<not> (\<exists>i < j. replay_run (replay_new w t0) calls ! i \<and> snd (calls ! i) = snd (calls ! j) \<and>
        fst (calls ! j) < fst (calls ! i) + 1000 * max 1 (min 3600 w))"
  using replay_run_refines [OF replay_new_rel assms(1,2)] spec_run_nth [OF assms(3)]
  by (auto simp: replay_new_def not_less)

theorem replay_guard_single_use_witness:
  "replay_run (replay_new 300 0) [(5, 1, ''d''), (200000, 1, ''d''), (300005, 1, ''d'')] ! 2"
proof -
  let ?cs = "[(5, 1, ''d''), (200000, 1, ''d''), (300005, 1, ''d'')] :: (instant \<times> uuid \<times> bytes) list"
  have "replay_run (replay_new 300 0) ?cs ! 1 \<longleftrightarrow>
    \<not> (\<exists>i < 1. replay_run (replay_new 300 0) ?cs ! i \<and> snd (?cs ! i) = snd (?cs ! 1) \<and>
        fst (?cs ! 1) < fst (?cs ! i) + 1000 * max 1 (min 3600 300))"
    by (rule replay_guard_single_use) auto
  moreover have "replay_run (replay_new 300 0) ?cs ! 2 \<longleftrightarrow>
    \<not> (\<exists>i < 2. replay_run (replay_new 300 0) ?cs ! i \<and> snd (?cs ! i) = snd (?cs ! 2) \<and>
        fst (?cs ! 2) < fst (?cs ! i) + 1000 * max 1 (min 3600 300))"
    by (rule replay_guard_single_use) auto
  moreover have "replay_run (replay_new 300 0) ?cs ! 0"
    by (simp add: replay_new_def check_and_record_def prune_if_due_def MAX_TRACKED_SIGNATURES_def Let_def)
  ultimately show ?thesis by (auto simp: less_Suc_eq numeral_2_eq_2)
qed

end
