(* ===== verification/Guards.thy ===== *)
theory Guards
  imports Errors IpAddr
begin

text \<open>
  \<open>src/api/guards.rs\<close>, every authorization decision of the API as a function to an error or
  unit, and \<open>src/api/support.rs\<close>, the helpers the handlers share. \<open>request_env\<close> is what a
  request brings from outside: the clock, the client's address, and the random values the
  handler draws (\<open>Uuid::new_v4\<close>, key material and nonces), by position.
\<close>

section \<open>Guards\<close>

text \<open>The section sign of the messages, as its UTF-8 bytes.\<close>

definition sect :: string where
  "sect = [CHR 0xC2, CHR 0xA7]"

definition guard_resource_creation :: "api_key \<Rightarrow> bool \<Rightarrow> app_error + unit" where
  "guard_resource_creation caller has_right =
     (if is_master caller \<or> has_right then Inr ()
      else Inl (Forbidden ''missing the resource-creation right for this action''))"

definition guard_scope_elevation :: "api_key \<Rightarrow> bool \<Rightarrow> bool \<Rightarrow> bool \<Rightarrow> app_error + unit" where
  "guard_scope_elevation caller wants_keys wants_sources wants_vaults =
     (if (wants_keys \<or> wants_sources \<or> wants_vaults) \<and> \<not> is_master caller
      then Inl (Forbidden ''only the Master key may grant can_manage_keys, can_manage_sources, or can_manage_vaults'')
      else Inr ())"

definition guard_resource_manage :: "api_key \<Rightarrow> permission option \<Rightarrow> app_error + unit" where
  "guard_resource_manage caller perm =
     (if is_master caller then Inr ()
      else if can_manage_keys caller \<and> (case perm of None \<Rightarrow> False | Some p \<Rightarrow> can_manage p) then Inr ()
      else Inl (Forbidden ''managing this resource requires can_manage_keys and a can_manage grant on it (RBAC R2)''))"

definition guard_resource_lifecycle :: "api_key \<Rightarrow> uuid option \<Rightarrow> app_error + unit" where
  "guard_resource_lifecycle caller owner =
     (if is_master caller \<or> owner = Some (key_id caller) then Inr ()
      else Inl (Forbidden (''only the Master key or this resource'' @ [CHR 0x27] @ ''s owner may delete or rename it (RBAC ''
                           @ sect @ ''3)'')))"

definition guard_can_sync :: "api_key \<Rightarrow> permission option \<Rightarrow> app_error + unit" where
  "guard_can_sync caller perm =
     (if is_master caller \<or> (case perm of None \<Rightarrow> False | Some p \<Rightarrow> can_sync p) then Inr ()
      else Inl (Forbidden ''missing can_sync permission on this resource''))"

definition guard_can_view_logs :: "api_key \<Rightarrow> permission option \<Rightarrow> bool" where
  "guard_can_view_logs caller perm \<longleftrightarrow>
     is_master caller \<or> (case perm of None \<Rightarrow> False | Some p \<Rightarrow> can_view_logs p)"

definition guard_delegated_grant ::
  "api_key \<Rightarrow> permission option \<Rightarrow> bool \<Rightarrow> bool \<Rightarrow> bool \<Rightarrow> app_error + unit" where
  "guard_delegated_grant caller perm grant_sync grant_manage grant_view =
     (if is_master caller then Inr ()
      else ebind (guard_resource_manage caller perm) (\<lambda>_.
        let has = (\<lambda>get. case perm of None \<Rightarrow> False | Some p \<Rightarrow> get p) in
        if grant_sync \<and> \<not> has can_sync
        then Inl (Forbidden ''cannot grant can_sync without holding it yourself on this resource (RBAC R1)'')
        else if grant_view \<and> \<not> has can_view_logs
        then Inl (Forbidden ''cannot grant can_view_logs without holding it yourself on this resource (RBAC R1)'')
        else if grant_manage \<and> \<not> has can_manage
        then Inl (Forbidden ''cannot grant can_manage without holding it yourself on this resource (RBAC R1)'')
        else Inr ()))"

definition guard_revocation :: "api_key \<Rightarrow> permission option \<Rightarrow> app_error + unit" where
  "guard_revocation caller perm = guard_resource_manage caller perm"

definition guard_master_immutable :: "bool \<Rightarrow> bool \<Rightarrow> app_error + unit" where
  "guard_master_immutable target_is_master changing =
     (if target_is_master \<and> changing
      then Inl (Forbidden (''the Master key is immutable through the API except for its own bound_ips (RBAC '' @ sect @ ''5)''))
      else Inr ())"

definition guard_rotation_allowed :: "bool \<Rightarrow> app_error + unit" where
  "guard_rotation_allowed target_is_master =
     (if target_is_master
      then Inl (Forbidden (''the Master key'' @ [CHR 0x27] @ ''s credentials cannot be rotated through the API (RBAC '' @ sect @ ''5)''))
      else Inr ())"

definition guard_manage_keys :: "api_key \<Rightarrow> app_error + unit" where
  "guard_manage_keys caller =
     (if is_master caller \<or> can_manage_keys caller then Inr ()
      else Inl (Forbidden ''missing can_manage_keys''))"

text \<open>When each guard lets a caller pass.\<close>

lemma guards_pass [guard_simps]:
  "guard_resource_creation c r = Inr u \<longleftrightarrow> is_master c \<or> r"
  "guard_scope_elevation c a b d = Inr u \<longleftrightarrow> is_master c \<or> \<not> (a \<or> b \<or> d)"
  "guard_resource_manage c p = Inr u \<longleftrightarrow> is_master c \<or> (can_manage_keys c \<and> (\<exists>q. p = Some q \<and> can_manage q))"
  "guard_resource_lifecycle c ow = Inr u \<longleftrightarrow> is_master c \<or> ow = Some (key_id c)"
  "guard_can_sync c p = Inr u \<longleftrightarrow> is_master c \<or> (\<exists>q. p = Some q \<and> can_sync q)"
  "guard_can_view_logs c p \<longleftrightarrow> is_master c \<or> (\<exists>q. p = Some q \<and> can_view_logs q)"
  "guard_revocation c p = Inr u \<longleftrightarrow> is_master c \<or> (can_manage_keys c \<and> (\<exists>q. p = Some q \<and> can_manage q))"
  "guard_master_immutable m ch = Inr u \<longleftrightarrow> \<not> (m \<and> ch)"
  "guard_rotation_allowed m = Inr u \<longleftrightarrow> \<not> m"
  "guard_manage_keys c = Inr u \<longleftrightarrow> is_master c \<or> can_manage_keys c"
  by (auto simp: guard_resource_creation_def guard_scope_elevation_def guard_resource_manage_def
      guard_resource_lifecycle_def guard_can_sync_def guard_can_view_logs_def guard_revocation_def
      guard_master_immutable_def guard_rotation_allowed_def guard_manage_keys_def split: option.splits)

lemma guard_delegated_grant_pass [guard_simps]:
  "guard_delegated_grant c p s m v = Inr u \<longleftrightarrow>
     is_master c \<or>
     (can_manage_keys c \<and> (\<exists>q. p = Some q \<and> can_manage q \<and> (s \<longrightarrow> can_sync q) \<and> (v \<longrightarrow> can_view_logs q)))"
  by (cases p) (auto simp: guard_delegated_grant_def guard_simps Let_def)

section \<open>Support\<close>

record request_env =
  now :: instant
  client_ip :: ip_addr
  fresh :: "nat \<Rightarrow> uuid"
  entropy :: "nat \<Rightarrow> bytes"

definition RESOURCE_DESTINATION_GROUP :: string where
  "RESOURCE_DESTINATION_GROUP = ''destination_group''"

definition RESOURCE_SYNC_TASK :: string where
  "RESOURCE_SYNC_TASK = ''sync_task''"

definition RESOURCE_VAULT_ENDPOINT :: string where
  "RESOURCE_VAULT_ENDPOINT = ''vault_endpoint''"

definition generate_random_key :: "crypto_ops \<Rightarrow> bytes \<Rightarrow> string" where
  "generate_random_key cs random32 = hex_encode cs random32"

definition hash_key :: "crypto_ops \<Rightarrow> string \<Rightarrow> string" where
  "hash_key cs plaintext = hex_encode cs (sha256 cs plaintext)"

definition prefix_of_key :: "string \<Rightarrow> string" where
  "prefix_of_key plaintext = take_chars 8 plaintext"

definition find_permission :: "database \<Rightarrow> uuid \<Rightarrow> string \<Rightarrow> uuid \<Rightarrow> permission option" where
  "find_permission db api_key_id resource_type resource_id =
     List.find (\<lambda>p. perm_api_key_id p = api_key_id \<and> perm_resource_type p = resource_type
                    \<and> perm_resource_id p = resource_id) (permissions db)"

definition grant_full_permission ::
  "uuid \<Rightarrow> instant \<Rightarrow> uuid \<Rightarrow> string \<Rightarrow> uuid \<Rightarrow> database \<Rightarrow> app_error + database" where
  "grant_full_permission new_id t api_key_id resource_type resource_id db =
     sql (insert_permission
       \<lparr>perm_id = new_id, perm_api_key_id = api_key_id, perm_resource_type = resource_type,
        perm_resource_id = resource_id, can_sync = True, can_manage = True, can_view_logs = True,
        perm_created_at = t\<rparr> db)"

definition create_audit_log ::
  "uuid \<Rightarrow> instant \<Rightarrow> api_key \<Rightarrow> ip_addr \<Rightarrow> string \<Rightarrow> string option \<Rightarrow> string option \<Rightarrow> database
    \<Rightarrow> app_error + database" where
  "create_audit_log new_id t key ip action target_resource details db =
     sql (insert_audit_log
       \<lparr>alog_id = new_id, alog_api_key_id = Some (key_id key), alog_api_key_name = key_name key,
        alog_api_key_prefix = key_prefix key, alog_client_ip = show_ip ip, alog_action = action,
        alog_target_resource = target_resource, alog_details = details, alog_timestamp = t\<rparr> db)"

lemma find_permission_Some:
  "find_permission db k ty r = Some p \<Longrightarrow>
     p \<in> set (permissions db) \<and> perm_api_key_id p = k \<and> perm_resource_type p = ty \<and> perm_resource_id p = r"
  by (auto simp: find_permission_def dest: find_eq_Some_D)

text \<open>An audit row and a granted permission change only their own table.\<close>

lemma create_audit_log_Inr [step_simps]:
  "create_audit_log i t k ip act tr d db = Inr db' \<longleftrightarrow>
     db_ok db' \<and> (\<exists>l. db' = db\<lparr>audit_logs := audit_logs db @ [l]\<rparr> \<and> l =
       \<lparr>alog_id = i, alog_api_key_id = Some (key_id k), alog_api_key_name = key_name k,
        alog_api_key_prefix = key_prefix k, alog_client_ip = show_ip ip, alog_action = act,
        alog_target_resource = tr, alog_details = d, alog_timestamp = t\<rparr>)"
  by (auto simp: create_audit_log_def insert_audit_log_def)

lemma grant_full_permission_Inr [step_simps]:
  "grant_full_permission i t k ty r db = Inr db' \<longleftrightarrow>
     db_ok db' \<and> db' = db\<lparr>permissions := permissions db @ [
       \<lparr>perm_id = i, perm_api_key_id = k, perm_resource_type = ty, perm_resource_id = r,
        can_sync = True, can_manage = True, can_view_logs = True, perm_created_at = t\<rparr>]\<rparr>"
  by (auto simp: grant_full_permission_def insert_permission_def)

lemma audit_ok: "create_audit_log i t k ip act tr d db = Inr db' \<Longrightarrow> db_ok db'"
  by (auto simp: create_audit_log_Inr)

lemma audit_keeps:
  "create_audit_log i t k ip act tr d db = Inr db' \<Longrightarrow>
     api_keys db' = api_keys db \<and> permissions db' = permissions db \<and> vaults db' = vaults db \<and>
     groups db' = groups db \<and> feeds db' = feeds db \<and> tasks db' = tasks db \<and>
     group_targets db' = group_targets db \<and> task_targets db' = task_targets db \<and> sync_logs db' = sync_logs db"
  by (auto simp: create_audit_log_Inr)

end
