(* ===== verification/Keys.thy ===== *)
theory Keys
  imports Guards
begin

text \<open>
  \<open>src/api/keys.rs\<close>: the API key endpoints. A handler takes the cryptography and the request's
  outside values, the authenticated caller and the payload, and returns its result and the
  database it leaves; the handlers use no transaction, so a failing audit write keeps the change
  before it. \<open>delete_api_key\<close> may not end on a cyclic lineage, hence its option.

  The lemmas are the rules of the access model: the global rights come from the Master only
  (R4), a grant never exceeds what the granting key holds (R1, R7), the Master row is
  immutable but for its bound addresses (section 5), and a deletion takes a whole subtree and
  is refused while one of its keys owns a resource (section 6).
\<close>

section \<open>Payloads and responses\<close>

record api_key_response =
  kr_id :: uuid
  kr_name :: string
  kr_prefix :: string
  kr_is_master :: bool
  kr_can_manage_keys :: bool
  kr_can_manage_sources :: bool
  kr_can_manage_vaults :: bool
  kr_parent_key_id :: "uuid option"
  kr_bound_ips :: "string option"
  kr_created_at :: instant
  kr_updated_at :: instant

definition to_key_response :: "api_key \<Rightarrow> api_key_response" where
  "to_key_response m =
     \<lparr>kr_id = key_id m, kr_name = key_name m, kr_prefix = key_prefix m, kr_is_master = is_master m,
      kr_can_manage_keys = can_manage_keys m, kr_can_manage_sources = can_manage_sources m,
      kr_can_manage_vaults = can_manage_vaults m, kr_parent_key_id = parent_key_id m,
      kr_bound_ips = bound_ips m, kr_created_at = key_created_at m, kr_updated_at = key_updated_at m\<rparr>"

record create_key_payload =
  ck_name :: string
  ck_can_manage_keys :: bool
  ck_can_manage_sources :: bool
  ck_can_manage_vaults :: bool
  ck_bound_ips :: "string option"

record update_key_payload =
  uk_name :: "string option"
  uk_can_manage_keys :: "bool option"
  uk_can_manage_sources :: "bool option"
  uk_can_manage_vaults :: "bool option"
  uk_bound_ips :: "string option"

record grant_payload =
  gp_resource_type :: string
  gp_resource_id :: uuid
  gp_can_sync :: bool
  gp_can_manage :: bool
  gp_can_view_logs :: bool

text \<open>The value of an optional field, or the one already stored.\<close>

definition or_else :: "'a option \<Rightarrow> 'a \<Rightarrow> 'a" where
  "or_else x dflt = (case x of None \<Rightarrow> dflt | Some v \<Rightarrow> v)"

lemma or_else_simps [simp]: "or_else None d = d" "or_else (Some v) d = v"
  by (simp_all add: or_else_def)

section \<open>Reading\<close>

definition can_administer :: "api_key \<Rightarrow> api_key \<Rightarrow> bool" where
  "can_administer caller target \<longleftrightarrow>
     is_master caller \<or> (can_manage_keys caller \<and> parent_key_id target = Some (key_id caller))"

definition get_me :: "api_key \<Rightarrow> api_key_response" where
  "get_me caller = to_key_response caller"

definition list_api_keys :: "api_key \<Rightarrow> database \<Rightarrow> api_key_response list" where
  "list_api_keys caller db =
     map to_key_response
       (if is_master caller then api_keys db
        else filter (\<lambda>k. key_id k = key_id caller \<or> parent_key_id k = Some (key_id caller)) (api_keys db))"

definition key_visible :: "api_key \<Rightarrow> api_key \<Rightarrow> bool" where
  "key_visible caller target \<longleftrightarrow>
     is_master caller \<or> key_id target = key_id caller \<or> parent_key_id target = Some (key_id caller)"

definition get_api_key :: "api_key \<Rightarrow> uuid \<Rightarrow> database \<Rightarrow> app_error + api_key_response" where
  "get_api_key caller i db =
     ebind (ok_or NotFound (find_key db i)) (\<lambda>target.
     if \<not> key_visible caller target then Inl NotFound else Inr (to_key_response target))"

definition list_key_permissions :: "api_key \<Rightarrow> uuid \<Rightarrow> database \<Rightarrow> app_error + permission list" where
  "list_key_permissions caller i db =
     ebind (ok_or NotFound (find_key db i)) (\<lambda>target.
     if \<not> key_visible caller target then Inl NotFound
     else Inr (filter (\<lambda>p. perm_api_key_id p = i) (permissions db)))"

section \<open>Creating and updating\<close>

definition create_api_key ::
  "crypto_ops \<Rightarrow> secret_cipher \<Rightarrow> request_env \<Rightarrow> api_key \<Rightarrow> create_key_payload \<Rightarrow> database
    \<Rightarrow> (app_error + api_key_response \<times> string \<times> string) \<times> database"
where
  "create_api_key cs cipher rq caller payload db =
     try_h (guard_manage_keys caller) db (\<lambda>_.
     try_h (guard_scope_elevation caller (ck_can_manage_keys payload) (ck_can_manage_sources payload)
              (ck_can_manage_vaults payload)) db (\<lambda>_.
     let plaintext_key = generate_random_key cs (entropy rq 0);
         plaintext_secret = generate_signing_secret cs (entropy rq 1) in
     try_h (crypto_result (seal cs cipher (entropy rq 2) plaintext_secret)) db (\<lambda>sealed.
     let model = \<lparr>key_id = fresh rq 0, key_name = ck_name payload, key_hash = hash_key cs plaintext_key,
           key_signing_secret = Some sealed, key_prefix = prefix_of_key plaintext_key, is_master = False,
           can_manage_keys = ck_can_manage_keys payload, can_manage_sources = ck_can_manage_sources payload,
           can_manage_vaults = ck_can_manage_vaults payload, parent_key_id = Some (key_id caller),
           bound_ips = ck_bound_ips payload, key_created_at = now rq, key_updated_at = now rq\<rparr> in
     try_h (sql (insert_key model db)) db (\<lambda>db1.
     try_h (create_audit_log (fresh rq 1) (now rq) caller (client_ip rq) ''KEY_CREATE'' (Some (key_name model)) None db1) db1 (\<lambda>db2.
     (Inr (to_key_response model, plaintext_key, plaintext_secret), db2))))))"

definition touches_non_bound_ips :: "update_key_payload \<Rightarrow> bool" where
  "touches_non_bound_ips p \<longleftrightarrow>
     uk_name p \<noteq> None \<or> uk_can_manage_keys p \<noteq> None \<or> uk_can_manage_sources p \<noteq> None \<or> uk_can_manage_vaults p \<noteq> None"

definition apply_key_update :: "instant \<Rightarrow> update_key_payload \<Rightarrow> api_key \<Rightarrow> api_key" where
  "apply_key_update t p k =
     k\<lparr>key_name := or_else (uk_name p) (key_name k),
       can_manage_keys := or_else (uk_can_manage_keys p) (can_manage_keys k),
       can_manage_sources := or_else (uk_can_manage_sources p) (can_manage_sources k),
       can_manage_vaults := or_else (uk_can_manage_vaults p) (can_manage_vaults k),
       bound_ips := (case uk_bound_ips p of None \<Rightarrow> bound_ips k | Some b \<Rightarrow> Some b),
       key_updated_at := t\<rparr>"

definition no_authority :: app_error where
  "no_authority = Forbidden ''no administrative authority over this key''"

definition update_api_key ::
  "request_env \<Rightarrow> api_key \<Rightarrow> uuid \<Rightarrow> update_key_payload \<Rightarrow> database
    \<Rightarrow> (app_error + api_key_response) \<times> database"
where
  "update_api_key rq caller i payload db =
     try_h (guard_manage_keys caller) db (\<lambda>_.
     try_h (ok_or NotFound (find_key db i)) db (\<lambda>target.
     if \<not> can_administer caller target then (Inl no_authority, db)
     else
     try_h (guard_master_immutable (is_master target) (touches_non_bound_ips payload)) db (\<lambda>_.
     try_h (guard_scope_elevation caller (or_else (uk_can_manage_keys payload) False)
              (or_else (uk_can_manage_sources payload) False) (or_else (uk_can_manage_vaults payload) False)) db (\<lambda>_.
     let updated = apply_key_update (now rq) payload target in
     try_h (sql (update_key updated db)) db (\<lambda>db1.
     try_h (create_audit_log (fresh rq 0) (now rq) caller (client_ip rq) ''KEY_UPDATE'' (Some (key_name updated)) None db1) db1 (\<lambda>db2.
     (Inr (to_key_response updated), db2)))))))"

section \<open>Deleting\<close>

partial_function (option) collect_loop ::
  "database \<Rightarrow> uuid list \<Rightarrow> api_key list \<Rightarrow> api_key list option" where
  "collect_loop db frontier result =
     (if frontier = [] then Some result
      else let children = filter (\<lambda>k. case parent_key_id k of None \<Rightarrow> False | Some p \<Rightarrow> p \<in> set frontier) (api_keys db) in
           collect_loop db (map key_id children) (result @ children))"

declare collect_loop.simps [code]

definition collect_subtree :: "database \<Rightarrow> api_key \<Rightarrow> api_key list option" where
  "collect_subtree db root = collect_loop db [key_id root] [root]"

definition owned_by :: "uuid list \<Rightarrow> uuid option \<Rightarrow> bool" where
  "owned_by key_ids owner = (case owner of None \<Rightarrow> False | Some o' \<Rightarrow> o' \<in> set key_ids)"

definition owned_resource_inventory :: "database \<Rightarrow> uuid list \<Rightarrow> owned_resource list" where
  "owned_resource_inventory db key_ids =
     map (\<lambda>v. \<lparr>owned_type = ''vault_endpoint'', owned_id = vault_id v, owned_name = vault_name v, owned_owner = vault_owner_key_id v\<rparr>)
       (filter (\<lambda>v. owned_by key_ids (vault_owner_key_id v)) (vaults db))
     @ map (\<lambda>g. \<lparr>owned_type = ''destination_group'', owned_id = group_id g, owned_name = group_name g, owned_owner = group_owner_key_id g\<rparr>)
       (filter (\<lambda>g. owned_by key_ids (group_owner_key_id g)) (groups db))
     @ map (\<lambda>t. \<lparr>owned_type = ''sync_task'', owned_id = task_id t, owned_name = task_name t, owned_owner = task_owner_key_id t\<rparr>)
       (filter (\<lambda>t. owned_by key_ids (task_owner_key_id t)) (tasks db))"

definition still_owns_message :: string where
  "still_owns_message = ''this key (or a daughter in its subtree) still owns resources; reassign or delete them first''"

definition delete_api_key ::
  "request_env \<Rightarrow> api_key \<Rightarrow> uuid \<Rightarrow> database \<Rightarrow> ((app_error + unit) \<times> database) option"
where
  "delete_api_key rq caller i db =
     (case guard_manage_keys caller of
        Inl e \<Rightarrow> Some (Inl e, db)
      | Inr _ \<Rightarrow>
     (case find_key db i of
        None \<Rightarrow> Some (Inl NotFound, db)
      | Some target \<Rightarrow>
        if is_master target
        then Some (Inl (Forbidden (''the Master key cannot be deleted through the API (RBAC '' @ sect @ ''5)'')), db)
        else if \<not> can_administer caller target then Some (Inl no_authority, db)
        else
     (case collect_subtree db target of
        None \<Rightarrow> None
      | Some subtree \<Rightarrow>
        let subtree_ids = map key_id subtree;
            inventory = owned_resource_inventory db subtree_ids in
        if inventory \<noteq> [] then Some (Inl (ConflictWithDetails still_owns_message inventory), db)
        else if filter (\<lambda>k. key_id k \<in> set subtree_ids) (api_keys db) = [] then Some (Inl NotFound, db)
        else let db1 = delete_keys subtree_ids db in
             Some (try_h (create_audit_log (fresh rq 0) (now rq) caller (client_ip rq) ''KEY_DELETE'' (Some (key_name target)) None db1) db1 (\<lambda>db2.
                   (Inr (), db2))))))"

section \<open>Rotating\<close>

definition rotate_api_key ::
  "crypto_ops \<Rightarrow> request_env \<Rightarrow> api_key \<Rightarrow> uuid \<Rightarrow> database \<Rightarrow> (app_error + string) \<times> database"
where
  "rotate_api_key cs rq caller i db =
     try_h (guard_manage_keys caller) db (\<lambda>_.
     try_h (ok_or NotFound (find_key db i)) db (\<lambda>target.
     try_h (guard_rotation_allowed (is_master target)) db (\<lambda>_.
     if \<not> can_administer caller target then (Inl no_authority, db)
     else
     let plaintext_key = generate_random_key cs (entropy rq 0);
         updated = target\<lparr>key_hash := hash_key cs plaintext_key, key_prefix := prefix_of_key plaintext_key,
                          key_updated_at := now rq\<rparr> in
     try_h (sql (update_key updated db)) db (\<lambda>db1.
     try_h (create_audit_log (fresh rq 0) (now rq) caller (client_ip rq) ''KEY_ROTATE'' (Some (key_name updated)) None db1) db1 (\<lambda>db2.
     (Inr plaintext_key, db2))))))"

definition rotate_signing_secret ::
  "crypto_ops \<Rightarrow> secret_cipher \<Rightarrow> request_env \<Rightarrow> api_key \<Rightarrow> uuid \<Rightarrow> database \<Rightarrow> (app_error + string) \<times> database"
where
  "rotate_signing_secret cs cipher rq caller i db =
     try_h (guard_manage_keys caller) db (\<lambda>_.
     try_h (ok_or NotFound (find_key db i)) db (\<lambda>target.
     try_h (guard_rotation_allowed (is_master target)) db (\<lambda>_.
     if \<not> can_administer caller target then (Inl no_authority, db)
     else
     let plaintext_secret = generate_signing_secret cs (entropy rq 0) in
     try_h (crypto_result (seal cs cipher (entropy rq 1) plaintext_secret)) db (\<lambda>sealed.
     let updated = target\<lparr>key_signing_secret := Some sealed, key_updated_at := now rq\<rparr> in
     try_h (sql (update_key updated db)) db (\<lambda>db1.
     try_h (create_audit_log (fresh rq 0) (now rq) caller (client_ip rq) ''KEY_ROTATE_SECRET'' (Some (key_name updated)) None db1) db1 (\<lambda>db2.
     (Inr plaintext_secret, db2)))))))"

section \<open>Permissions\<close>

definition valid_resource_type :: "string \<Rightarrow> bool" where
  "valid_resource_type ty \<longleftrightarrow>
     ty = ''destination_group'' \<or> ty = ''sync_task'' \<or> ty = ''vault_endpoint''"

definition grant_key_permission ::
  "(uuid \<Rightarrow> string) \<Rightarrow> request_env \<Rightarrow> api_key \<Rightarrow> uuid \<Rightarrow> grant_payload \<Rightarrow> database
    \<Rightarrow> (app_error + permission) \<times> database"
where
  "grant_key_permission show_uuid rq caller i payload db =
     try_h (guard_manage_keys caller) db (\<lambda>_.
     try_h (ok_or NotFound (find_key db i)) db (\<lambda>target.
     if \<not> valid_resource_type (gp_resource_type payload)
     then (Inl (InvalidInput ''resource_type must be destination_group, sync_task, or vault_endpoint''), db)
     else
     try_h (guard_delegated_grant caller
              (find_permission db (key_id caller) (gp_resource_type payload) (gp_resource_id payload))
              (gp_can_sync payload) (gp_can_manage payload) (gp_can_view_logs payload)) db (\<lambda>_.
     let existing = find_permission db (key_id target) (gp_resource_type payload) (gp_resource_id payload);
         row = (case existing of
                  Some e \<Rightarrow> e\<lparr>can_sync := gp_can_sync payload, can_manage := gp_can_manage payload,
                              can_view_logs := gp_can_view_logs payload\<rparr>
                | None \<Rightarrow> \<lparr>perm_id = fresh rq 0, perm_api_key_id = key_id target,
                           perm_resource_type = gp_resource_type payload, perm_resource_id = gp_resource_id payload,
                           can_sync = gp_can_sync payload, can_manage = gp_can_manage payload,
                           can_view_logs = gp_can_view_logs payload, perm_created_at = now rq\<rparr>) in
     try_h (sql (if existing = None then insert_permission row db else update_permission row db)) db (\<lambda>db1.
     try_h (create_audit_log (fresh rq 1) (now rq) caller (client_ip rq) ''PERMISSION_GRANT''
              (Some (key_name target @ '' on '' @ gp_resource_type payload @ '':'' @ show_uuid (gp_resource_id payload))) None db1) db1 (\<lambda>db2.
     (Inr row, db2))))))"

definition revoke_key_permission ::
  "(uuid \<Rightarrow> string) \<Rightarrow> request_env \<Rightarrow> api_key \<Rightarrow> uuid \<Rightarrow> uuid \<Rightarrow> database
    \<Rightarrow> (app_error + unit) \<times> database"
where
  "revoke_key_permission show_uuid rq caller i permission_id db =
     try_h (guard_manage_keys caller) db (\<lambda>_.
     try_h (ok_or NotFound (find_perm_by_id db permission_id)) db (\<lambda>perm.
     if perm_api_key_id perm \<noteq> i then (Inl NotFound, db)
     else
     try_h (guard_revocation caller
              (find_permission db (key_id caller) (perm_resource_type perm) (perm_resource_id perm))) db (\<lambda>_.
     let db1 = delete_permission permission_id db in
     try_h (create_audit_log (fresh rq 0) (now rq) caller (client_ip rq) ''PERMISSION_REVOKE''
              (Some (''permission '' @ show_uuid permission_id)) None db1) db1 (\<lambda>db2.
     (Inr (), db2)))))"

section \<open>All requests\<close>

datatype key_request =
    CreateKey create_key_payload
  | UpdateKey uuid update_key_payload
  | DeleteKey uuid
  | RotateKey uuid
  | RotateSecret uuid
  | GrantPermission uuid grant_payload
  | RevokePermission uuid uuid

record key_ctx =
  kc_crypto :: crypto_ops
  kc_cipher :: secret_cipher
  kc_show_uuid :: "uuid \<Rightarrow> string"

text \<open>The database each request leaves, successful or not.\<close>

fun handle_key :: "key_ctx \<Rightarrow> request_env \<Rightarrow> api_key \<Rightarrow> key_request \<Rightarrow> database \<Rightarrow> database option" where
  "handle_key cx rq caller (CreateKey p) db = Some (snd (create_api_key (kc_crypto cx) (kc_cipher cx) rq caller p db))"
| "handle_key cx rq caller (UpdateKey i p) db = Some (snd (update_api_key rq caller i p db))"
| "handle_key cx rq caller (DeleteKey i) db = map_option snd (delete_api_key rq caller i db)"
| "handle_key cx rq caller (RotateKey i) db = Some (snd (rotate_api_key (kc_crypto cx) rq caller i db))"
| "handle_key cx rq caller (RotateSecret i) db = Some (snd (rotate_signing_secret (kc_crypto cx) (kc_cipher cx) rq caller i db))"
| "handle_key cx rq caller (GrantPermission i p) db = Some (snd (grant_key_permission (kc_show_uuid cx) rq caller i p db))"
| "handle_key cx rq caller (RevokePermission i j) db = Some (snd (revoke_key_permission (kc_show_uuid cx) rq caller i j db))"

section \<open>The access model of the key endpoints\<close>

text \<open>
  What a caller may do to the key tables, one rule per kind of effect; an effect is the change
  of a request before its audit row.
\<close>

definition holds_flag :: "(api_key \<Rightarrow> bool) \<Rightarrow> api_key \<Rightarrow> api_key \<Rightarrow> api_key \<Rightarrow> bool" where
  "holds_flag flag caller old k \<longleftrightarrow> flag k \<longrightarrow> flag old \<or> is_master caller"

inductive key_effect :: "api_key \<Rightarrow> database \<Rightarrow> database \<Rightarrow> bool" for caller db where
  eff_none: "key_effect caller db db"
| eff_create: "\<lbrakk>is_master caller \<or> can_manage_keys caller; \<not> is_master k; parent_key_id k = Some (key_id caller);
     can_manage_keys k \<or> can_manage_sources k \<or> can_manage_vaults k \<longrightarrow> is_master caller;
     insert_key k db = Inr db'\<rbrakk> \<Longrightarrow> key_effect caller db db'"
| eff_update: "\<lbrakk>is_master caller \<or> can_manage_keys caller; find_key db i = Some old; can_administer caller old;
     key_id k = key_id old; is_master k = is_master old; parent_key_id k = parent_key_id old;
     is_master old \<longrightarrow> k = old\<lparr>bound_ips := bound_ips k, key_updated_at := key_updated_at k\<rparr>;
     holds_flag can_manage_keys caller old k; holds_flag can_manage_sources caller old k;
     holds_flag can_manage_vaults caller old k; update_key k db = Inr db'\<rbrakk> \<Longrightarrow> key_effect caller db db'"
| eff_delete: "\<lbrakk>is_master caller \<or> can_manage_keys caller; find_key db i = Some root; can_administer caller root;
     \<not> is_master root; collect_subtree db root = Some subtree;
     owned_resource_inventory db (map key_id subtree) = []\<rbrakk>
     \<Longrightarrow> key_effect caller db (delete_keys (map key_id subtree) db)"
| eff_grant: "\<lbrakk>is_master caller \<or> (can_manage_keys caller \<and>
       (\<exists>q. find_permission db (key_id caller) (perm_resource_type p) (perm_resource_id p) = Some q \<and> can_manage q \<and>
            (can_sync p \<longrightarrow> can_sync q) \<and> (can_view_logs p \<longrightarrow> can_view_logs q)));
     valid_resource_type (perm_resource_type p); has_key db (perm_api_key_id p);
     insert_permission p db = Inr db' \<or> update_permission p db = Inr db'\<rbrakk> \<Longrightarrow> key_effect caller db db'"
| eff_revoke: "\<lbrakk>is_master caller \<or> (can_manage_keys caller \<and>
       (\<exists>q. find_permission db (key_id caller) (perm_resource_type p) (perm_resource_id p) = Some q \<and> can_manage q));
     p \<in> set (permissions db)\<rbrakk> \<Longrightarrow> key_effect caller db (delete_permission (perm_id p) db)"

definition audited :: "database \<Rightarrow> database \<Rightarrow> bool" where
  "audited mid db' \<longleftrightarrow> db' = mid \<or> (\<exists>l. db' = mid\<lparr>audit_logs := audit_logs mid @ [l]\<rparr> \<and> db_ok db')"

lemma audited_refl [intro!]: "audited d d"
  by (simp add: audited_def)

lemma audited_log: "create_audit_log i t k ip act tr d db = Inr db' \<Longrightarrow> audited db db'"
  by (auto simp: create_audit_log_Inr audited_def)

lemma audited_sel:
  "audited mid db' \<Longrightarrow> api_keys db' = api_keys mid \<and> permissions db' = permissions mid"
  by (auto simp: audited_def)

lemma audited_ok: "audited mid db' \<Longrightarrow> db_ok mid \<Longrightarrow> db_ok db'"
  by (auto simp: audited_def)

definition key_outcome :: "api_key \<Rightarrow> database \<Rightarrow> database \<Rightarrow> bool" where
  "key_outcome caller db db' \<longleftrightarrow> (\<exists>mid. key_effect caller db mid \<and> audited mid db')"

lemma key_outcome_refl: "key_outcome caller db db"
  by (auto simp: key_outcome_def intro: eff_none)

lemma key_outcome_try:
  "(\<And>a. r = Inr a \<Longrightarrow> key_outcome caller db (snd (k a))) \<Longrightarrow> key_outcome caller db (snd (try_h r db k))"
  by (cases r) (auto simp: key_outcome_refl)

lemma key_outcome_if:
  "(b \<Longrightarrow> key_outcome caller db (snd x)) \<Longrightarrow> (\<not> b \<Longrightarrow> key_outcome caller db (snd y)) \<Longrightarrow>
   key_outcome caller db (snd (if b then x else y))"
  by simp

lemma key_outcome_error: "key_outcome caller db (snd (e, db))"
  by (simp add: key_outcome_refl)

lemmas key_outcome_intros = key_outcome_try key_outcome_if key_outcome_error

lemma key_outcome_audit:
  "key_effect caller db mid \<Longrightarrow> key_outcome caller db (snd (try_h (create_audit_log i t k ip act tr d mid) mid (\<lambda>db2. (f db2, db2))))"
  by (cases "create_audit_log i t k ip act tr d mid") (auto simp: key_outcome_def intro: audited_log)

lemma create_key_outcome: "key_outcome caller db (snd (create_api_key cs cipher rq caller p db))"
  unfolding create_api_key_def Let_def
  by (intro key_outcome_intros key_outcome_audit, rule eff_create) (auto simp: guard_simps)

lemma update_key_outcome: "key_outcome caller db (snd (update_api_key rq caller i p db))"
proof -
  have "key_effect caller db db1"
    if "guard_manage_keys caller = Inr u" "find_key db i = Some target" "can_administer caller target"
      "guard_master_immutable (is_master target) (touches_non_bound_ips p) = Inr u1"
      "guard_scope_elevation caller (or_else (uk_can_manage_keys p) False) (or_else (uk_can_manage_sources p) False)
         (or_else (uk_can_manage_vaults p) False) = Inr u2"
      "update_key (apply_key_update t p target) db = Inr db1" for u target u1 u2 t db1
    by (rule eff_update [where k = "apply_key_update t p target" and old = target])
      (use that in \<open>auto simp: guard_simps apply_key_update_def touches_non_bound_ips_def holds_flag_def or_else_def split: option.splits\<close>)
  then show ?thesis
    unfolding update_api_key_def Let_def
    by (intro key_outcome_intros key_outcome_audit) (simp only: ok_or_eq_Inr sql_eq_Inr not_not)
qed

lemma delete_key_outcome: "delete_api_key rq caller i db = Some (r, db') \<Longrightarrow> key_outcome caller db db'"
  unfolding delete_api_key_def Let_def
  by (auto simp: guard_simps key_outcome_refl split: sum.splits option.splits if_splits dest!: arg_cong [where f = snd]
      intro!: key_outcome_audit eff_delete)

lemma rotate_effect:
  assumes "guard_manage_keys caller = Inr u" "find_key db i = Some target" "guard_rotation_allowed (is_master target) = Inr v"
    "can_administer caller target" "update_key k db = Inr db1"
    "key_id k = key_id target" "is_master k = is_master target" "parent_key_id k = parent_key_id target"
    "can_manage_keys k = can_manage_keys target" "can_manage_sources k = can_manage_sources target"
    "can_manage_vaults k = can_manage_vaults target"
  shows "key_effect caller db db1"
  by (rule eff_update [where k = k and old = target]) (use assms in \<open>auto simp: guard_simps holds_flag_def\<close>)

lemma rotate_key_outcome: "key_outcome caller db (snd (rotate_api_key cs rq caller i db))"
  unfolding rotate_api_key_def Let_def
  by (intro key_outcome_intros key_outcome_audit;
      simp only: ok_or_eq_Inr sql_eq_Inr crypto_result_eq_Inr not_not; erule (4) rotate_effect; simp)

lemma rotate_secret_outcome: "key_outcome caller db (snd (rotate_signing_secret cs cipher rq caller i db))"
  unfolding rotate_signing_secret_def Let_def
  by (intro key_outcome_intros key_outcome_audit;
      simp only: ok_or_eq_Inr sql_eq_Inr crypto_result_eq_Inr not_not; erule (4) rotate_effect; simp)

lemma grant_outcome: "key_outcome caller db (snd (grant_key_permission sh rq caller i p db))"
proof -
  let ?find = "\<lambda>k. find_permission db k (gp_resource_type p) (gp_resource_id p)"
  have "key_effect caller db db1"
    if "find_key db i = Some target" "valid_resource_type (gp_resource_type p)"
      "guard_delegated_grant caller (?find (key_id caller)) (gp_can_sync p) (gp_can_manage p) (gp_can_view_logs p) = Inr u"
      "(if ?find (key_id target) = None then insert_permission row db else update_permission row db) = Inr db1"
      "row = (case ?find (key_id target) of
                Some e \<Rightarrow> e\<lparr>can_sync := gp_can_sync p, can_manage := gp_can_manage p, can_view_logs := gp_can_view_logs p\<rparr>
              | None \<Rightarrow> \<lparr>perm_id = n, perm_api_key_id = key_id target, perm_resource_type = gp_resource_type p,
                  perm_resource_id = gp_resource_id p, can_sync = gp_can_sync p, can_manage = gp_can_manage p,
                  can_view_logs = gp_can_view_logs p, perm_created_at = t\<rparr>)" for target u db1 row n t
  proof (rule eff_grant [where p = row])
    have shape: "perm_resource_type row = gp_resource_type p" "perm_resource_id row = gp_resource_id p"
      "perm_api_key_id row = key_id target" "can_sync row = gp_can_sync p" "can_view_logs row = gp_can_view_logs p"
      using that(5) by (cases "?find (key_id target)"; auto dest: find_permission_Some)+
    show "is_master caller \<or> (can_manage_keys caller \<and>
       (\<exists>q. find_permission db (key_id caller) (perm_resource_type row) (perm_resource_id row) = Some q \<and> can_manage q \<and>
            (can_sync row \<longrightarrow> can_sync q) \<and> (can_view_logs row \<longrightarrow> can_view_logs q)))"
      using that(3) by (simp add: guard_simps shape)
    show "valid_resource_type (perm_resource_type row)" "has_key db (perm_api_key_id row)"
      using that(1,2) by (auto simp: shape has_key_def dest: find_key_Some)
    show "insert_permission row db = Inr db1 \<or> update_permission row db = Inr db1"
      using that(4) by (auto split: if_splits)
  qed
  note effect = this
  show ?thesis
    unfolding grant_key_permission_def Let_def
    by (intro key_outcome_intros key_outcome_audit; simp only: ok_or_eq_Inr sql_eq_Inr not_not; rule effect; assumption?)
      (rule refl)
qed

lemma revoke_outcome: "key_outcome caller db (snd (revoke_key_permission sh rq caller i j db))"
proof -
  have "key_effect caller db (delete_permission j db)"
    if "find_perm_by_id db j = Some p"
      "guard_revocation caller (find_permission db (key_id caller) (perm_resource_type p) (perm_resource_id p)) = Inr u" for p u
    using that eff_revoke [of caller db p] by (auto simp: guard_simps find_perm_by_id_def dest!: find_eq_Some_D)
  then show ?thesis
    unfolding revoke_key_permission_def Let_def
    by (intro key_outcome_intros key_outcome_audit) (simp only: ok_or_eq_Inr)
qed

lemmas key_outcomes = create_key_outcome update_key_outcome rotate_key_outcome rotate_secret_outcome
  grant_outcome revoke_outcome

text \<open>Every request refines the access model.\<close>

lemma handle_key_outcome:
  "handle_key cx rq caller r db = Some db' \<Longrightarrow> key_outcome caller db db'"
  by (cases r) (auto simp: key_outcomes dest: delete_key_outcome)

section \<open>Lineage\<close>

text \<open>A key is created under an existing key, so a parent stands before its daughters; the Master has none.\<close>

fun lineage :: "uuid list \<Rightarrow> api_key list \<Rightarrow> bool" where
  "lineage seen [] \<longleftrightarrow> True"
| "lineage seen (k # ks) \<longleftrightarrow>
     (case parent_key_id k of None \<Rightarrow> True | Some p \<Rightarrow> p \<in> set seen \<and> \<not> is_master k) \<and> lineage (key_id k # seen) ks"

definition lineage_ok :: "database \<Rightarrow> bool" where
  "lineage_ok db \<longleftrightarrow> lineage [] (api_keys db)"

definition child_of :: "database \<Rightarrow> uuid \<Rightarrow> uuid \<Rightarrow> bool" where
  "child_of db p i \<longleftrightarrow> (\<exists>k \<in> set (api_keys db). parent_key_id k = Some p \<and> key_id k = i)"

abbreviation descends :: "database \<Rightarrow> uuid \<Rightarrow> uuid \<Rightarrow> bool" where
  "descends db \<equiv> (child_of db)\<^sup>*\<^sup>*"

lemma lineage_append [simp]:
  "lineage seen (xs @ ys) \<longleftrightarrow> lineage seen xs \<and> lineage (rev (map key_id xs) @ seen) ys"
  by (induction xs arbitrary: seen) auto

lemma lineage_parent:
  "lineage seen ks \<Longrightarrow> k \<in> set ks \<Longrightarrow> parent_key_id k = Some p \<Longrightarrow> p \<in> set seen \<union> key_id ` set ks"
proof (induction ks arbitrary: seen)
  case (Cons x xs)
  then show ?case using Cons.IH [of "key_id x # seen"] by (cases "k = x") auto
qed simp

lemma lineage_master: "lineage seen ks \<Longrightarrow> k \<in> set ks \<Longrightarrow> is_master k \<Longrightarrow> parent_key_id k = None"
  by (induction ks arbitrary: seen) (auto split: option.splits)

lemma lineage_replace:
  "lineage seen ks \<Longrightarrow> (\<And>x. x \<in> set ks \<Longrightarrow> key_id (f x) = key_id x \<and> parent_key_id (f x) = parent_key_id x \<and> is_master (f x) = is_master x)
   \<Longrightarrow> lineage seen (map f ks)"
  by (induction ks arbitrary: seen) (auto split: option.splits)

lemma lineage_filter:
  assumes "lineage seen ks"
    and "\<And>k p. k \<in> set ks \<Longrightarrow> parent_key_id k = Some p \<Longrightarrow> p \<in> D \<Longrightarrow> key_id k \<in> D"
  shows "lineage (filter (\<lambda>i. i \<notin> D) seen) (filter (\<lambda>k. key_id k \<notin> D) ks)"
  using assms
proof (induction ks arbitrary: seen)
  case (Cons k ks)
  have "lineage (filter (\<lambda>i. i \<notin> D) (key_id k # seen)) (filter (\<lambda>k. key_id k \<notin> D) ks)"
    using Cons.prems by (intro Cons.IH) auto
  then show ?case using Cons.prems by (auto split: option.splits if_splits)
qed simp

text \<open>On a sound lineage the breadth-first collection ends: each level lies further down the table.\<close>

lemma collect_loop_ends:
  assumes "api_keys db = pre @ post" "lineage_ok db" "distinct (map key_id (api_keys db))"
    and "set frontier \<inter> key_id ` set pre = {}"
  shows "\<exists>res. collect_loop db frontier acc = Some res"
  using assms(1,4)
proof (induction post arbitrary: pre frontier acc)
  case Nil
  have "p \<notin> set frontier" if "k \<in> set (api_keys db)" "parent_key_id k = Some p" for k p
    using lineage_parent [OF assms(2) [unfolded lineage_ok_def] that] Nil by auto
  then have none: "filter (\<lambda>k. case parent_key_id k of None \<Rightarrow> False | Some p \<Rightarrow> p \<in> set frontier) (api_keys db) = []"
    by (auto simp: filter_empty_conv split: option.splits)
  have "collect_loop db [] acc = Some acc"
    by (subst collect_loop.simps) simp
  then show ?case
    by (subst collect_loop.simps) (simp add: none Let_def)
next
  case (Cons k post)
  define children where
    "children = filter (\<lambda>k. case parent_key_id k of None \<Rightarrow> False | Some p \<Rightarrow> p \<in> set frontier) (api_keys db)"
  have lin: "lineage [] pre" "case parent_key_id k of None \<Rightarrow> True | Some p \<Rightarrow> p \<in> key_id ` set pre"
    using assms(2) Cons.prems(1) by (auto simp: lineage_ok_def split: option.splits)
  have fresh: "c \<notin> set (pre @ [k])" if "c \<in> set children" for c
  proof -
    from that obtain p where p: "parent_key_id c = Some p" "p \<in> set frontier"
      by (auto simp: children_def split: option.splits)
    with Cons.prems(2) have "p \<notin> key_id ` set pre" by blast
    moreover from this have "c \<noteq> k" using lin(2) p(1) by auto
    moreover have "c \<notin> set pre" using lineage_parent [OF lin(1) _ p(1)] calculation(1) by auto
    ultimately show ?thesis by simp
  qed
  have "set children \<subseteq> set (api_keys db)" "set (pre @ [k]) \<subseteq> set (api_keys db)"
    using Cons.prems(1) by (auto simp: children_def)
  then have "key_id c \<noteq> key_id x" if "c \<in> set children" "x \<in> set (pre @ [k])" for c x
    using that fresh [OF that(1)] distinct_map_eq [OF assms(3), of c x] by blast
  then have "set (map key_id children) \<inter> key_id ` set (pre @ [k]) = {}"
    by (simp only: set_map) blast
  moreover have "api_keys db = (pre @ [k]) @ post"
    using Cons.prems(1) by simp
  ultimately obtain res where "collect_loop db (map key_id children) (acc @ children) = Some res"
    using Cons.IH by blast
  then show ?case
    by (subst collect_loop.simps) (simp add: children_def Let_def)
qed

lemma collect_subtree_ends:
  "lineage_ok db \<Longrightarrow> db_ok db \<Longrightarrow> \<exists>res. collect_subtree db root = Some res"
  using collect_loop_ends [of db "[]" "api_keys db"] by (simp add: collect_subtree_def db_ok_defs)

lemma descends_top: "descends db c i \<longleftrightarrow> c = i \<or> (\<exists>d. child_of db c d \<and> descends db d i)"
  by (auto elim: converse_rtranclpE intro: converse_rtranclp_into_rtranclp)

lemma collect_loop_ids:
  "collect_loop db frontier acc = Some res \<Longrightarrow>
     key_id ` set res = key_id ` set acc \<union> {i. \<exists>f \<in> set frontier. \<exists>c. child_of db f c \<and> descends db c i}"
proof (induction rule: collect_loop.raw_induct [rotated, consumes 1])
  case (1 loop db frontier acc res)
  show ?case
  proof (cases "frontier = []")
    case False
    define children where
      "children = filter (\<lambda>k. case parent_key_id k of None \<Rightarrow> False | Some p \<Rightarrow> p \<in> set frontier) (api_keys db)"
    have c: "c \<in> key_id ` set children \<longleftrightarrow> (\<exists>f \<in> set frontier. child_of db f c)" for c
      by (force simp: children_def child_of_def split: option.splits)
    have "loop db (map key_id children) (acc @ children) = Some res"
      using 1 False by (simp add: children_def Let_def)
    note ids = 1(1) [OF this]
    have "{i. \<exists>f \<in> set frontier. \<exists>c. child_of db f c \<and> descends db c i} =
        key_id ` set children \<union> {i. \<exists>f \<in> key_id ` set children. \<exists>c. child_of db f c \<and> descends db c i}"
      by (subst descends_top) (use c in blast)
    then show ?thesis by (simp add: ids image_Un Un_assoc)
  qed (use 1 in auto)
qed

lemma collect_subtree_ids:
  assumes "collect_subtree db root = Some res"
  shows "set (map key_id res) = {i. descends db (key_id root) i}"
  using collect_loop_ids [OF assms [unfolded collect_subtree_def]] descends_top [of db "key_id root"] by auto

section \<open>What the access model guarantees\<close>

lemma update_key_Inr [step_simps]:
  "update_key k db = Inr db' \<longleftrightarrow>
     has_key db (key_id k) \<and> db' = db\<lparr>api_keys := replace_row key_id k (api_keys db)\<rparr> \<and> db_ok db'"
  by (auto simp: update_key_def)

lemma insert_key_Inr [step_simps]:
  "insert_key k db = Inr db' \<longleftrightarrow> db' = db\<lparr>api_keys := api_keys db @ [k]\<rparr> \<and> db_ok db'"
  by (auto simp: insert_key_def)

lemma insert_permission_Inr [step_simps]:
  "insert_permission p db = Inr db' \<longleftrightarrow> db' = db\<lparr>permissions := permissions db @ [p]\<rparr> \<and> db_ok db'"
  by (auto simp: insert_permission_def)

lemma update_permission_Inr [step_simps]:
  "update_permission p db = Inr db' \<longleftrightarrow>
     perm_id p \<in> perm_id ` set (permissions db) \<and>
     db' = db\<lparr>permissions := replace_row perm_id p (permissions db)\<rparr> \<and> db_ok db'"
  by (auto simp: update_permission_def)

lemma set_replace_row: "x \<in> set (replace_row f r rs) \<Longrightarrow> x = r \<or> (x \<in> set rs \<and> f x \<noteq> f r)"
  by (auto simp: replace_row_def split: if_splits)

lemma ids_replace_row: "f ` set (replace_row f r rs) = f ` set rs"
  by (induction rs) (auto simp: replace_row_def)

lemma in_replace_row:
  "x \<in> set rs \<Longrightarrow> f x = f r \<Longrightarrow> r \<in> set (replace_row f r rs)"
  "x \<in> set rs \<Longrightarrow> f x \<noteq> f r \<Longrightarrow> x \<in> set (replace_row f r rs)"
  by (auto simp: replace_row_def rev_image_eqI)

lemma key_effect_ok: "key_effect caller db mid \<Longrightarrow> db_ok db \<Longrightarrow> db_ok mid"
  by (cases rule: key_effect.cases) (auto simp: delete_ok dest: statement_ok)

lemma insert_lineage:
  assumes "lineage_ok db" "has_key db (key_id caller)" "parent_key_id k = Some (key_id caller)" "\<not> is_master k"
  shows "lineage_ok (db\<lparr>api_keys := api_keys db @ [k]\<rparr>)"
  using assms by (auto simp: lineage_ok_def has_key_def)

lemma update_lineage:
  assumes "lineage_ok db" "db_ok db" "find_key db i = Some old"
    "key_id k = key_id old" "is_master k = is_master old" "parent_key_id k = parent_key_id old"
  shows "lineage_ok (db\<lparr>api_keys := replace_row key_id k (api_keys db)\<rparr>)"
proof -
  have old: "x = old" if "x \<in> set (api_keys db)" "key_id x = key_id old" for x
    using that find_key_Some [OF assms(3)] distinct_map_eq [of key_id "api_keys db" x old] assms(2)
    by (simp add: db_ok_defs)
  have "lineage [] (map (\<lambda>x. if key_id x = key_id k then k else x) (api_keys db))"
    by (rule lineage_replace) (use assms old in \<open>auto simp: lineage_ok_def\<close>)
  then show ?thesis
    by (simp add: lineage_ok_def replace_row_def)
qed

lemma delete_lineage:
  assumes "lineage_ok db" "collect_subtree db root = Some subtree"
  shows "lineage_ok (delete_keys (map key_id subtree) db)"
proof -
  have "key_id k \<in> set (map key_id subtree)"
    if "k \<in> set (api_keys db)" "parent_key_id k = Some p" "p \<in> set (map key_id subtree)" for k p
    using that rtranclp.rtrancl_into_rtrancl [of "child_of db" "key_id root" p "key_id k"]
    unfolding collect_subtree_ids [OF assms(2)] by (auto simp: child_of_def)
  from lineage_filter [OF assms(1) [unfolded lineage_ok_def] this] show ?thesis
    by (simp add: lineage_ok_def delete_keys_def)
qed

lemma key_effect_lineage:
  "key_effect caller db mid \<Longrightarrow> db_ok db \<Longrightarrow> lineage_ok db \<Longrightarrow> has_key db (key_id caller) \<Longrightarrow> lineage_ok mid"
  by (cases rule: key_effect.cases)
    (auto simp: step_simps insert_lineage update_lineage delete_lineage, auto simp: lineage_ok_def delete_permission_def)

lemma handle_key_total:
  "db_ok db \<Longrightarrow> lineage_ok db \<Longrightarrow> \<exists>db'. handle_key cx rq caller r db = Some db'"
proof (cases r)
  case (DeleteKey i)
  assume "db_ok db" "lineage_ok db"
  then have "\<exists>x. collect_subtree db t = Some x" for t by (simp add: collect_subtree_ends)
  then show ?thesis
    by (auto simp: DeleteKey delete_api_key_def Let_def split: sum.splits option.splits)
      (metis option.distinct(1), meson surj_pair)
qed simp_all

text \<open>
  C16. Every key request returns (the walk over the subtree of a deleted key ends), and leaves a
  database in which every constraint holds and the lineage is still sound: parents exist
  before their daughters and the Master has no parent.\<close>

theorem key_requests_keep_invariants:
  assumes "db_ok db" "lineage_ok db" "has_key db (key_id caller)"
  shows "\<exists>db'. handle_key cx rq caller r db = Some db' \<and> db_ok db' \<and> lineage_ok db'"
proof -
  obtain db' where db': "handle_key cx rq caller r db = Some db'"
    using handle_key_total assms by blast
  from handle_key_outcome [OF this] obtain mid where "key_effect caller db mid" "audited mid db'"
    by (auto simp: key_outcome_def)
  then show ?thesis
    using db' assms key_effect_ok key_effect_lineage audited_ok audited_sel by (fastforce simp: lineage_ok_def)
qed

lemma key_effect_master:
  assumes "key_effect caller db mid" "db_ok db" "lineage_ok db" "m \<in> set (api_keys db)" "is_master m"
  shows "\<exists>b t. m\<lparr>bound_ips := b, key_updated_at := t\<rparr> \<in> set (api_keys mid)"
  using assms(1)
proof (cases rule: key_effect.cases)
  case (eff_update i old k)
  show ?thesis
  proof (cases "key_id m = key_id k")
    case True
    then have "m = old"
      using eff_update find_key_unique [OF assms(2,4)] find_key_Some [of db i old] by auto
    then have "m\<lparr>bound_ips := bound_ips k, key_updated_at := key_updated_at k\<rparr> = k"
      using eff_update assms(5) by simp
    then show ?thesis
      using eff_update(11) in_replace_row(1) [OF assms(4) True] by (auto simp: step_simps) metis
  next
    case False
    have "m\<lparr>bound_ips := bound_ips m, key_updated_at := key_updated_at m\<rparr> \<in> set (replace_row key_id k (api_keys db))"
      using in_replace_row(2) [OF assms(4) False] by simp
    moreover have "api_keys mid = replace_row key_id k (api_keys db)"
      using eff_update(11) by (simp add: step_simps)
    ultimately show ?thesis by metis
  qed
next
  case (eff_delete i root subtree)
  have "\<not> descends db (key_id root) (key_id m)"
  proof
    assume "descends db (key_id root) (key_id m)"
    then show False
    proof (cases rule: rtranclp.cases)
      case rtrancl_refl
      then have "m = root"
        using eff_delete find_key_unique [OF assms(2,4)] find_key_Some [of db i root] by auto
      then show False using eff_delete assms(5) by simp
    next
      case (rtrancl_into_rtrancl p)
      then obtain k where "k \<in> set (api_keys db)" "parent_key_id k = Some p" "key_id k = key_id m"
        by (auto simp: child_of_def)
      moreover from this have "k = m"
        using find_key_unique [OF assms(2)] assms(4) by (metis option.inject)
      ultimately show False
        using lineage_master assms(3,4,5) by (fastforce simp: lineage_ok_def)
    qed
  qed
  then have "m \<in> set (api_keys mid)"
    using assms(4) collect_subtree_ids [OF eff_delete(6)] eff_delete(1) by (auto simp: delete_keys_def)
  moreover have "m\<lparr>bound_ips := bound_ips m, key_updated_at := key_updated_at m\<rparr> = m" by simp
  ultimately show ?thesis by metis
qed (use assms(4) in \<open>auto simp: step_simps delete_permission_def intro!: exI [of _ "bound_ips m"] exI [of _ "key_updated_at m"]\<close>)

lemma key_effect_flag:
  assumes "key_effect caller db mid" "\<not> is_master caller" "k' \<in> set (api_keys mid)"
  shows "(\<exists>k \<in> set (api_keys db). key_id k = key_id k' \<and> (is_master k' \<longrightarrow> is_master k) \<and>
     (can_manage_keys k' \<longrightarrow> can_manage_keys k) \<and> (can_manage_sources k' \<longrightarrow> can_manage_sources k) \<and>
     (can_manage_vaults k' \<longrightarrow> can_manage_vaults k))
     \<or> (\<not> is_master k' \<and> \<not> can_manage_keys k' \<and> \<not> can_manage_sources k' \<and> \<not> can_manage_vaults k')"
  using assms(1)
proof (cases rule: key_effect.cases)
  case (eff_update i old k)
  then show ?thesis
    using assms(2,3) find_key_Some [of db i old]
    by (auto simp: step_simps holds_flag_def dest!: set_replace_row)
qed (use assms(2,3) in \<open>auto simp: step_simps delete_keys_def delete_permission_def\<close>)

lemma key_effect_new_perm:
  assumes "key_effect caller db mid" "\<not> is_master caller" "p \<in> set (permissions mid)" "p \<notin> set (permissions db)"
  shows "can_manage_keys caller \<and>
    (\<exists>q. find_permission db (key_id caller) (perm_resource_type p) (perm_resource_id p) = Some q \<and> can_manage q \<and>
         (can_sync p \<longrightarrow> can_sync q) \<and> (can_view_logs p \<longrightarrow> can_view_logs q))"
  using assms(1)
proof (cases rule: key_effect.cases)
  case (eff_grant p')
  then have "p = p'"
    using assms(3,4) by (auto simp: step_simps replace_row_def split: if_splits)
  then show ?thesis using eff_grant assms(2) by simp
qed (use assms in \<open>auto simp: step_simps delete_keys_def delete_permission_def\<close>)

lemma key_effect_lost_perm:
  assumes "key_effect caller db mid" "\<not> is_master caller" "db_ok db" "p \<in> set (permissions db)"
    "perm_id p \<notin> perm_id ` set (permissions mid)" "perm_api_key_id p \<in> key_id ` set (api_keys mid)"
  shows "can_manage_keys caller \<and>
    (\<exists>q. find_permission db (key_id caller) (perm_resource_type p) (perm_resource_id p) = Some q \<and> can_manage q)"
  using assms(1)
proof (cases rule: key_effect.cases)
  case (eff_grant p')
  then show ?thesis
    using assms(4,5) by (auto simp: step_simps ids_replace_row)
next
  case (eff_revoke p')
  then have "perm_id p = perm_id p'"
    using assms(4,5) by (auto simp: delete_permission_def)
  then have "p = p'"
    using eff_revoke assms(3,4) distinct_map_eq [of perm_id "permissions db"] by (simp add: db_ok_defs)
  then show ?thesis using eff_revoke assms(2) by simp
qed (use assms in \<open>auto simp: step_simps delete_keys_def\<close>)

lemma handle_key_effect:
  assumes "handle_key cx rq caller r db = Some db'"
  obtains mid where "key_effect caller db mid" "api_keys db' = api_keys mid" "permissions db' = permissions mid"
  using handle_key_outcome [OF assms] by (auto simp: key_outcome_def dest: audited_sel)

text \<open>
  C17. The Master row survives every key request unchanged but for its bound addresses and its
  update time, and no request adds a second Master (RBAC section 5).\<close>

theorem master_row_immutable:
  assumes "handle_key cx rq caller r db = Some db'"
    and "db_ok db" "lineage_ok db" "m \<in> set (api_keys db)" "is_master m"
  shows "(\<exists>b t. m\<lparr>bound_ips := b, key_updated_at := t\<rparr> \<in> set (api_keys db')) \<and>
    (\<forall>k \<in> set (api_keys db'). is_master k \<longrightarrow> key_id k = key_id m)"
proof -
  obtain mid where mid: "key_effect caller db mid" "audited mid db'"
    using handle_key_outcome [OF assms(1)] by (auto simp: key_outcome_def)
  obtain b t where bt: "m\<lparr>bound_ips := b, key_updated_at := t\<rparr> \<in> set (api_keys db')"
    using key_effect_master [OF mid(1) assms(2-5)] audited_sel [OF mid(2)] by auto
  have "db_ok db'"
    using mid key_effect_ok audited_ok assms(2) by blast
  then have "k = m\<lparr>bound_ips := b, key_updated_at := t\<rparr>" if "k \<in> set (api_keys db')" "is_master k" for k
    using at_most_one_master [OF _ that(1) bt that(2)] assms(5) by simp
  with bt show ?thesis by (metis api_key.select_convs(1) api_key.update_convs(11,13) api_key.surjective)
qed

text \<open>
  A request of a key that is not the Master never gives any key a global right it lacked
  (RBAC R4): a row of the resulting table that is Master or may manage keys, sources or
  vaults had that right before, under the same id.\<close>

theorem global_rights_only_from_master:
  assumes "handle_key cx rq caller r db = Some db'" "\<not> is_master caller" "k' \<in> set (api_keys db')"
    and "flag \<in> {is_master, can_manage_keys, can_manage_sources, can_manage_vaults}" "flag k'"
  shows "\<exists>k \<in> set (api_keys db). key_id k = key_id k' \<and> flag k"
proof -
  obtain mid where "key_effect caller db mid" "api_keys db' = api_keys mid"
    using assms(1) by (rule handle_key_effect)
  then show ?thesis
    using key_effect_flag [of caller db mid k'] assms(2-5) by auto
qed

text \<open>
  C18. A request of a key that is not the Master never amplifies permissions (RBAC R1, R7): a
  permission row that is new or changed grants at most what the caller holds itself on that
  resource, and a row of a surviving key is only removed by a caller that manages its
  resource; both need \<open>can_manage_keys\<close> and \<open>can_manage\<close>.\<close>

theorem grants_never_amplify:
  assumes "handle_key cx rq caller r db = Some db'" "\<not> is_master caller" "db_ok db"
  shows "(\<forall>p \<in> set (permissions db') - set (permissions db).
      can_manage_keys caller \<and>
      (\<exists>q. find_permission db (key_id caller) (perm_resource_type p) (perm_resource_id p) = Some q \<and> can_manage q \<and>
           (can_sync p \<longrightarrow> can_sync q) \<and> (can_view_logs p \<longrightarrow> can_view_logs q))) \<and>
    (\<forall>p \<in> set (permissions db). perm_id p \<notin> perm_id ` set (permissions db') \<and> has_key db' (perm_api_key_id p) \<longrightarrow>
      can_manage_keys caller \<and>
      (\<exists>q. find_permission db (key_id caller) (perm_resource_type p) (perm_resource_id p) = Some q \<and> can_manage q))"
proof -
  obtain mid where mid: "key_effect caller db mid" and sel: "api_keys db' = api_keys mid" "permissions db' = permissions mid"
    using assms(1) by (rule handle_key_effect)
  show ?thesis
    using key_effect_new_perm [OF mid assms(2)] key_effect_lost_perm [OF mid assms(2,3)]
    by (auto simp: sel has_key_def)
qed

lemma inventory_Nil:
  "owned_resource_inventory db ids = [] \<longleftrightarrow>
     (\<forall>v \<in> set (vaults db). \<not> owned_by ids (vault_owner_key_id v)) \<and>
     (\<forall>g \<in> set (groups db). \<not> owned_by ids (group_owner_key_id g)) \<and>
     (\<forall>t \<in> set (tasks db). \<not> owned_by ids (task_owner_key_id t))"
  by (auto simp: owned_resource_inventory_def filter_empty_conv)

lemma delete_api_key_success:
  assumes "delete_api_key rq caller i db = Some (Inr u, db')"
  obtains target subtree where "find_key db i = Some target" "\<not> is_master target" "can_administer caller target"
    "collect_subtree db target = Some subtree" "owned_resource_inventory db (map key_id subtree) = []"
    "audited (delete_keys (map key_id subtree) db) db'"
  using assms
  by (auto simp: delete_api_key_def Let_def step_simps audited_def
      split: sum.splits option.splits if_splits dest: audited_log)

text \<open>
  C19. A key deletion that succeeds removes exactly the key and its descendants, and none of
  them owned a vault, a destination group or a synchronisation task: no resource is left
  without its owner (RBAC section 6).\<close>

theorem delete_removes_exactly_the_subtree:
  assumes "delete_api_key rq caller i db = Some (Inr u, db')"
  shows "api_keys db' = filter (\<lambda>k. \<not> descends db i (key_id k)) (api_keys db) \<and>
    vaults db' = vaults db \<and> groups db' = groups db \<and> tasks db' = tasks db \<and>
    (\<forall>k \<in> Collect (descends db i).
       (\<forall>v \<in> set (vaults db'). vault_owner_key_id v \<noteq> Some k) \<and>
       (\<forall>g \<in> set (groups db'). group_owner_key_id g \<noteq> Some k) \<and>
       (\<forall>t \<in> set (tasks db'). task_owner_key_id t \<noteq> Some k))"
proof -
  from assms obtain target subtree where target: "find_key db i = Some target"
    and subtree: "collect_subtree db target = Some subtree"
    and unowned: "owned_resource_inventory db (map key_id subtree) = []"
    and audit: "audited (delete_keys (map key_id subtree) db) db'"
    by (rule delete_api_key_success)
  have ids: "set (map key_id subtree) = {k. descends db i k}"
    using collect_subtree_ids [OF subtree] find_key_Some [OF target] by simp
  have "vaults db' = vaults db" "groups db' = groups db" "tasks db' = tasks db"
    "api_keys db' = filter (\<lambda>k. key_id k \<notin> {k. descends db i k}) (api_keys db)"
    unfolding ids [symmetric] using audit by (auto simp: audited_def delete_keys_def)
  then show ?thesis
    using unowned [unfolded inventory_Nil owned_by_def ids] by (auto split: option.splits)
qed

text \<open>
  A deletion that the caller may ask for is refused, with the inventory and no change, while
  the key or one of its descendants owns a resource.\<close>

theorem delete_refused_while_owning:
  assumes "db_ok db" "lineage_ok db" "find_key db i = Some target" "\<not> is_master target"
    and "guard_manage_keys caller = Inr ()" "can_administer caller target"
    and "descends db i k" "v \<in> set (vaults db)" "vault_owner_key_id v = Some k"
  shows "\<exists>inventory. delete_api_key rq caller i db = Some (Inl (ConflictWithDetails still_owns_message inventory), db) \<and>
    \<lparr>owned_type = ''vault_endpoint'', owned_id = vault_id v, owned_name = vault_name v, owned_owner = Some k\<rparr> \<in> set inventory"
proof -
  obtain subtree where subtree: "collect_subtree db target = Some subtree"
    using collect_subtree_ends assms(1,2) by blast
  have "k \<in> set (map key_id subtree)"
    using collect_subtree_ids [OF subtree] find_key_Some [OF assms(3)] assms(7) by simp
  then have mem: "\<lparr>owned_type = ''vault_endpoint'', owned_id = vault_id v, owned_name = vault_name v, owned_owner = Some k\<rparr>
      \<in> set (owned_resource_inventory db (map key_id subtree))"
    using assms(8,9) by (force simp: owned_resource_inventory_def owned_by_def)
  then have "owned_resource_inventory db (map key_id subtree) \<noteq> []"
    by auto
  then show ?thesis
    using assms subtree mem by (simp add: delete_api_key_def Let_def)
qed

section \<open>Witnesses\<close>

definition plain_key :: "uuid \<Rightarrow> bool \<Rightarrow> bool \<Rightarrow> uuid option \<Rightarrow> api_key" where
  "plain_key i master manages parent =
     \<lparr>key_id = i, key_name = ''key'', key_hash = ''h'' @ dec (unat i), key_signing_secret = None, key_prefix = ''p'',
      is_master = master, can_manage_keys = manages, can_manage_sources = False, can_manage_vaults = False,
      parent_key_id = parent, bound_ips = None, key_created_at = 0, key_updated_at = 0\<rparr>"

text \<open>The Master, a manager below it and the manager's daughter; the manager holds a permission on a vault.\<close>

definition sample_master :: api_key where "sample_master = plain_key 1 True False None"
definition sample_manager :: api_key where "sample_manager = plain_key 2 False True (Some 1)"
definition sample_daughter :: api_key where "sample_daughter = plain_key 3 False False (Some 2)"

definition sample_vault :: "uuid option \<Rightarrow> vault_endpoint" where
  "sample_vault owner = \<lparr>vault_id = 10, vault_name = ''v'', vault_target_url = ''https://v'', vault_api_key = ''k'',
     vault_signing_secret = ''s'', vault_description = None, vault_owner_key_id = owner, vault_created_at = 0,
     vault_updated_at = 0\<rparr>"

definition sample_db :: "uuid option \<Rightarrow> database" where
  "sample_db owner = \<lparr>api_keys = [sample_master, sample_manager, sample_daughter],
     permissions = [\<lparr>perm_id = 20, perm_api_key_id = 2, perm_resource_type = ''vault_endpoint'', perm_resource_id = 10,
       can_sync = True, can_manage = True, can_view_logs = False, perm_created_at = 0\<rparr>],
     vaults = [sample_vault owner], groups = [], group_targets = [], feeds = [], tasks = [], task_targets = [],
     sync_logs = [], audit_logs = []\<rparr>"

definition sample_rq :: request_env where
  "sample_rq = \<lparr>now = 5, client_ip = V4 0x0A000001, fresh = (\<lambda>n. of_nat (n + 100)), entropy = (\<lambda>n. replicate 12 (CHR ''e''))\<rparr>"

definition sample_grant :: grant_payload where
  "sample_grant = \<lparr>gp_resource_type = ''vault_endpoint'', gp_resource_id = 10, gp_can_sync = True, gp_can_manage = False,
     gp_can_view_logs = False\<rparr>"

definition sample_cx :: key_ctx where
  "sample_cx = \<lparr>kc_crypto = toy_crypto, kc_cipher = Plaintext, kc_show_uuid = (\<lambda>i. dec (unat i))\<rparr>"

lemma sample_db_ok: "db_ok (sample_db None)" "lineage_ok (sample_db None)" "has_key (sample_db None) (key_id sample_manager)"
  by code_simp+

lemma sample_db_owned_ok: "db_ok (sample_db (Some 3))" "lineage_ok (sample_db (Some 3))"
  by code_simp+

lemma is_the: "x \<noteq> None \<Longrightarrow> x = Some (the x)"
  by simp

abbreviation sample_granted :: database where
  "sample_granted \<equiv> the (handle_key sample_cx sample_rq sample_manager (GrantPermission 3 sample_grant) (sample_db None))"

theorem key_requests_keep_invariants_witness:
  "\<exists>db'. handle_key sample_cx sample_rq sample_manager (GrantPermission 3 sample_grant) (sample_db None) = Some db' \<and>
     db_ok db' \<and> lineage_ok db'"
  by (rule key_requests_keep_invariants [OF sample_db_ok])

theorem master_row_immutable_witness:
  "\<exists>b t. sample_master\<lparr>bound_ips := b, key_updated_at := t\<rparr> \<in> set (api_keys sample_granted)"
  by (rule conjunct1 [OF master_row_immutable [OF is_the sample_db_ok(1,2)]]) (simp, code_simp+)

theorem global_rights_only_from_master_witness:
  "\<exists>k \<in> set (api_keys (sample_db None)). key_id k = key_id sample_manager \<and> can_manage_keys k"
  by (rule global_rights_only_from_master [where r = "GrantPermission 3 sample_grant" and cx = sample_cx and rq = sample_rq
        and caller = sample_manager, OF is_the]) ((simp; fail) | code_simp)+

definition sample_row :: permission where
  "sample_row = \<lparr>perm_id = 100, perm_api_key_id = 3, perm_resource_type = ''vault_endpoint'', perm_resource_id = 10,
     can_sync = True, can_manage = False, can_view_logs = False, perm_created_at = 5\<rparr>"

theorem grants_never_amplify_witness:
  "sample_row \<in> set (permissions sample_granted) - set (permissions (sample_db None)) \<and>
   (\<exists>q. find_permission (sample_db None) 2 ''vault_endpoint'' 10 = Some q \<and> can_manage q \<and> can_sync q)"
proof -
  have new: "sample_row \<in> set (permissions sample_granted) - set (permissions (sample_db None))"
    by code_simp
  have "\<not> is_master sample_manager" "key_id sample_manager = 2"
    by code_simp+
  then show ?thesis
    using bspec [OF conjunct1 [OF grants_never_amplify [OF is_the _ sample_db_ok(1)]] new] new
    by (simp add: sample_row_def)
qed

theorem delete_removes_exactly_the_subtree_witness:
  "\<exists>db'. delete_api_key sample_rq sample_master 2 (sample_db None) = Some (Inr (), db') \<and>
     api_keys db' = filter (\<lambda>k. \<not> descends (sample_db None) 2 (key_id k)) (api_keys (sample_db None))"
proof -
  have "fst (the (delete_api_key sample_rq sample_master 2 (sample_db None))) = Inr () \<and>
      delete_api_key sample_rq sample_master 2 (sample_db None) \<noteq> None" by code_simp
  then obtain db' where "delete_api_key sample_rq sample_master 2 (sample_db None) = Some (Inr (), db')"
    by (cases "delete_api_key sample_rq sample_master 2 (sample_db None)") auto
  with delete_removes_exactly_the_subtree [OF this] show ?thesis by blast
qed

lemma sample_descends: "descends (sample_db (Some 3)) 2 3"
  by (rule r_into_rtranclp) (simp add: child_of_def sample_db_def sample_daughter_def plain_key_def)

theorem delete_refused_while_owning_witness:
  "\<exists>inventory. delete_api_key sample_rq sample_master 2 (sample_db (Some 3)) =
       Some (Inl (ConflictWithDetails still_owns_message inventory), sample_db (Some 3)) \<and>
     \<lparr>owned_type = ''vault_endpoint'', owned_id = vault_id (sample_vault (Some 3)), owned_name = vault_name (sample_vault (Some 3)),
      owned_owner = Some 3\<rparr> \<in> set inventory"
  by (rule delete_refused_while_owning [OF sample_db_owned_ok _ _ _ _ sample_descends, where target = sample_manager]) code_simp+

end
