(* ===== verification/Scheduler.thy ===== *)
theory Scheduler
  imports Errors
begin

text \<open>
  \<open>src/scheduler.rs\<close>: the handle that keeps one cron job per active destination group and per
  active synchronisation task. The cron library is a parameter (\<open>cron_backend\<close> over a state of
  its own); what the handle relies on is the locale \<open>job_backend\<close>, and its lemmas say which
  jobs are live after each operation. The handle never looks into a job id, so its type is a
  parameter. A mutex is \<open>None\<close> once poisoned.
\<close>

section \<open>Cron expressions\<close>

definition normalize_cron :: "string \<Rightarrow> string" where
  "normalize_cron expr = (if length (split_whitespace expr) = 5 then ''0 '' @ expr else expr)"

text \<open>What runs when a job fires: the ingestion of a group or the execution of a task.\<close>

datatype cron_job = IngestGroup uuid | SyncTask uuid

record ('b, 'j) cron_backend =
  cron_parse :: "string \<Rightarrow> string + unit"
  job_new :: "string \<Rightarrow> string + unit"
  job_add :: "string \<Rightarrow> cron_job \<Rightarrow> 'b \<Rightarrow> (string + 'j) \<times> 'b"
  job_remove :: "'j \<Rightarrow> 'b \<Rightarrow> (string + unit) \<times> 'b"

definition validate_cron_expression :: "('b, 'j) cron_backend \<Rightarrow> string \<Rightarrow> string + unit" where
  "validate_cron_expression bk expr =
     (if trim expr = [] then Inl ''cron_schedule must not be empty''
      else cron_parse bk (normalize_cron expr))"

section \<open>The handle\<close>

type_synonym 'a mutex = "'a option"

record ('b, 'j) scheduler_handle =
  backend :: 'b
  source_jobs :: "(uuid \<rightharpoonup> 'j) mutex"
  task_jobs :: "(uuid \<rightharpoonup> 'j) mutex"

definition scheduler_new :: "'b \<Rightarrow> ('b, 'j) scheduler_handle" where
  "scheduler_new started = \<lparr>backend = started, source_jobs = Some Map.empty, task_jobs = Some Map.empty\<rparr>"

text \<open>Taking an id out of a map: what was registered, and the map without it.\<close>

definition take_out :: "uuid \<Rightarrow> (uuid \<rightharpoonup> 'j) mutex \<Rightarrow> 'j option \<times> (uuid \<rightharpoonup> 'j) mutex" where
  "take_out i mx = (case mx of None \<Rightarrow> (None, None) | Some m \<Rightarrow> (m i, Some (m(i := None))))"

definition put_in :: "uuid \<Rightarrow> 'j \<Rightarrow> (uuid \<rightharpoonup> 'j) mutex \<Rightarrow> (uuid \<rightharpoonup> 'j) mutex" where
  "put_in i j mx = map_option (\<lambda>m. m(i \<mapsto> j)) mx"

definition remove_job :: "('b, 'j) cron_backend \<Rightarrow> 'j option \<Rightarrow> 'b \<Rightarrow> 'b" where
  "remove_job bk existing b = (case existing of None \<Rightarrow> b | Some j \<Rightarrow> snd (job_remove bk j b))"

definition remove_source :: "('b, 'j) cron_backend \<Rightarrow> uuid \<Rightarrow> ('b, 'j) scheduler_handle \<Rightarrow> ('b, 'j) scheduler_handle" where
  "remove_source bk i h =
     (case take_out i (source_jobs h) of
        (existing, m) \<Rightarrow> h\<lparr>backend := remove_job bk existing (backend h), source_jobs := m\<rparr>)"

definition remove_task :: "('b, 'j) cron_backend \<Rightarrow> uuid \<Rightarrow> ('b, 'j) scheduler_handle \<Rightarrow> ('b, 'j) scheduler_handle" where
  "remove_task bk i h =
     (case take_out i (task_jobs h) of
        (existing, m) \<Rightarrow> h\<lparr>backend := remove_job bk existing (backend h), task_jobs := m\<rparr>)"

definition upsert_source :: "('b, 'j) cron_backend \<Rightarrow> destination_group \<Rightarrow> ('b, 'j) scheduler_handle \<Rightarrow> ('b, 'j) scheduler_handle" where
  "upsert_source bk g h0 =
     (let h = remove_source bk (group_id g) h0 in
      if \<not> group_is_active g then h
      else let cron = normalize_cron (group_cron_schedule g) in
        case job_new bk cron of
          Inl _ \<Rightarrow> h
        | Inr _ \<Rightarrow>
           (case job_add bk cron (IngestGroup (group_id g)) (backend h) of
              (Inr j, b) \<Rightarrow> h\<lparr>backend := b, source_jobs := put_in (group_id g) j (source_jobs h)\<rparr>
            | (Inl _, b) \<Rightarrow> h\<lparr>backend := b\<rparr>))"

definition upsert_task :: "('b, 'j) cron_backend \<Rightarrow> vault_sync_task \<Rightarrow> ('b, 'j) scheduler_handle \<Rightarrow> ('b, 'j) scheduler_handle" where
  "upsert_task bk t h0 =
     (let h = remove_task bk (task_id t) h0 in
      if \<not> task_is_active t then h
      else let cron = normalize_cron (task_cron_schedule t) in
        case job_new bk cron of
          Inl _ \<Rightarrow> h
        | Inr _ \<Rightarrow>
           (case job_add bk cron (SyncTask (task_id t)) (backend h) of
              (Inr j, b) \<Rightarrow> h\<lparr>backend := b, task_jobs := put_in (task_id t) j (task_jobs h)\<rparr>
            | (Inl _, b) \<Rightarrow> h\<lparr>backend := b\<rparr>))"

definition boot :: "('b, 'j) cron_backend \<Rightarrow> database \<Rightarrow> ('b, 'j) scheduler_handle \<Rightarrow> ('b, 'j) scheduler_handle" where
  "boot bk db h =
     fold (upsert_task bk) (filter task_is_active (tasks db))
       (fold (upsert_source bk) (filter group_is_active (groups db)) h)"

section \<open>Live jobs\<close>

text \<open>
  \<open>live\<close> is the cron library's table of registered jobs: the resource and the expression under
  each job id. \<open>tracked\<close> is the handle's invariant: its two maps name exactly the live jobs, so
  each resource has at most one. \<open>schedule\<close> is what a reader of the handle cares about.
\<close>

type_synonym ('b, 'j) job_table = "'b \<Rightarrow> 'j \<rightharpoonup> (cron_job \<times> string)"

definition track :: "('b, 'j) job_table \<Rightarrow> (uuid \<Rightarrow> cron_job) \<Rightarrow> 'b \<Rightarrow> (uuid \<rightharpoonup> 'j) mutex \<Rightarrow> bool" where
  "track live mk b mx \<longleftrightarrow> (\<exists>m. mx = Some m \<and> (\<forall>i j. m i = Some j \<longleftrightarrow> (\<exists>c. live b j = Some (mk i, c))))"

definition tracked :: "('b, 'j) job_table \<Rightarrow> ('b, 'j) scheduler_handle \<Rightarrow> bool" where
  "tracked live h \<longleftrightarrow>
     track live IngestGroup (backend h) (source_jobs h) \<and> track live SyncTask (backend h) (task_jobs h)"

definition schedule :: "('b, 'j) job_table \<Rightarrow> 'b \<Rightarrow> cron_job \<Rightarrow> string set" where
  "schedule live b r = {c. \<exists>j. live b j = Some (r, c)}"

text \<open>The expression a resource should run under, if any, and what all rows ask for.\<close>

definition active_cron :: "('b, 'j) cron_backend \<Rightarrow> bool \<Rightarrow> string \<Rightarrow> string set" where
  "active_cron bk active expr = (if active \<and> job_new bk (normalize_cron expr) = Inr () then {normalize_cron expr} else {})"

fun wanted :: "('b, 'j) cron_backend \<Rightarrow> database \<Rightarrow> cron_job \<Rightarrow> string set" where
  "wanted bk db (IngestGroup i) =
     (case find_group db i of None \<Rightarrow> {} | Some g \<Rightarrow> active_cron bk (group_is_active g) (group_cron_schedule g))"
| "wanted bk db (SyncTask i) =
     (case find_task db i of None \<Rightarrow> {} | Some t \<Rightarrow> active_cron bk (task_is_active t) (task_cron_schedule t))"

definition adds_succeed :: "('b, 'j) cron_backend \<Rightarrow> bool" where
  "adds_succeed bk \<longleftrightarrow> (\<forall>c a b. \<exists>j b'. job_add bk c a b = (Inr j, b'))"

text \<open>One resource's jobs replaced by one job or none, all others kept.\<close>

definition registered :: "('b, 'j) job_table \<Rightarrow> cron_job \<Rightarrow> string option \<Rightarrow> 'b \<Rightarrow> 'b \<Rightarrow> bool" where
  "registered live r cron b b' \<longleftrightarrow> schedule live b' = (schedule live b)(r := set_option cron)"

definition without :: "cron_job \<Rightarrow> ('j \<rightharpoonup> (cron_job \<times> string)) \<Rightarrow> 'j \<rightharpoonup> (cron_job \<times> string)" where
  "without r m j = (case m j of None \<Rightarrow> None | Some (a, c) \<Rightarrow> if a = r then None else Some (a, c))"

lemma without_eq [simp]:
  "without r m j = Some (a, c) \<longleftrightarrow> m j = Some (a, c) \<and> a \<noteq> r"
  "without r m j = None \<longleftrightarrow> (\<forall>a c. m j = Some (a, c) \<longrightarrow> a = r)"
  by (auto simp: without_def split: option.splits prod.splits if_splits)

lemma without_id: "(\<And>c. m j \<noteq> Some (r, c)) \<Longrightarrow> without r m j = m j"
  by (auto simp: without_def split: option.splits)

section \<open>The library below and the handle's invariant\<close>

text \<open>
  What the cron library documents: \<open>add\<close> registers the job under a new id or fails and changes
  nothing, \<open>remove\<close> takes a registered job away, and the two parsers agree.
\<close>

locale job_backend =
  fixes bk :: "('b, 'j) cron_backend"
    and live :: "('b, 'j) job_table"
  assumes add_ok: "job_add bk c a b = (Inr j, b') \<Longrightarrow> live b j = None \<and> live b' = (live b)(j \<mapsto> (a, c))"
    and add_err: "job_add bk c a b = (Inl e, b') \<Longrightarrow> live b' = live b"
    and remove_known: "live b j \<noteq> None \<Longrightarrow> live (snd (job_remove bk j b)) = (live b)(j := None)"
    and same_parser: "(job_new bk c = Inr ()) = (cron_parse bk c = Inr ())"
begin

lemma take_out_live:
  assumes "track live mk b mx" "take_out i mx = (existing, mx')"
  shows "live (remove_job bk existing b) = without (mk i) (live b)"
proof -
  obtain m where m: "mx = Some m" "\<And>j. m i = Some j \<longleftrightarrow> (\<exists>c. live b j = Some (mk i, c))"
    using assms(1) unfolding track_def by blast
  have e: "existing = m i" using assms(2) m(1) by (simp add: take_out_def)
  show ?thesis
  proof (cases "m i")
    case None
    then have "live b j \<noteq> Some (mk i, c)" for j c using m(2) [of j] by (simp add: None)
    then show ?thesis
      by (intro ext) (simp add: e None remove_job_def without_id)
  next
    case (Some j0)
    have own: "j = j0" if "live b j = Some (mk i, c)" for j c
      using iffD2 [OF m(2) exI, OF that] Some by simp
    obtain c0 where c0: "live b j0 = Some (mk i, c0)" using iffD1 [OF m(2) Some] by blast
    then have "live (remove_job bk existing b) = (live b)(j0 := None)"
      by (simp add: e Some remove_job_def remove_known)
    also have "\<dots> = without (mk i) (live b)"
    proof
      fix j show "((live b)(j0 := None)) j = without (mk i) (live b) j"
      proof (cases "j = j0")
        case True
        then show ?thesis using c0 by (simp add: without_def)
      next
        case False
        then have "live b j \<noteq> Some (mk i, c)" for c using own by blast
        then show ?thesis using False by (simp add: without_id)
      qed
    qed
    finally show ?thesis .
  qed
qed

lemma track_without:
  assumes "track live mk b mx" "live b' = without r (live b)"
  shows "(\<forall>i. r \<noteq> mk i) \<Longrightarrow> track live mk b' mx"
    and "r = mk i \<Longrightarrow> inj mk \<Longrightarrow> track live mk b' (snd (take_out i mx))"
  using assms by (auto simp: track_def take_out_def dest: injD)

lemma remove_source_live: "tracked live h \<Longrightarrow> live (backend (remove_source bk i h)) = without (IngestGroup i) (live (backend h))"
  by (cases "take_out i (source_jobs h)") (auto simp: remove_source_def tracked_def dest: take_out_live)

lemma remove_task_live: "tracked live h \<Longrightarrow> live (backend (remove_task bk i h)) = without (SyncTask i) (live (backend h))"
  by (cases "take_out i (task_jobs h)") (auto simp: remove_task_def tracked_def dest: take_out_live)

lemma inj_jobs: "inj IngestGroup" "inj SyncTask"
  by (simp_all add: inj_def)

lemma remove_source_tracked:
  assumes "tracked live h" shows "tracked live (remove_source bk i h)"
proof -
  have "source_jobs (remove_source bk i h) = snd (take_out i (source_jobs h))"
    "task_jobs (remove_source bk i h) = task_jobs h"
    by (auto simp: remove_source_def split: prod.splits)
  then show ?thesis
    using assms track_without [OF _ remove_source_live [OF assms]] inj_jobs by (simp add: tracked_def)
qed

lemma remove_task_tracked:
  assumes "tracked live h" shows "tracked live (remove_task bk i h)"
proof -
  have "task_jobs (remove_task bk i h) = snd (take_out i (task_jobs h))"
    "source_jobs (remove_task bk i h) = source_jobs h"
    by (auto simp: remove_task_def split: prod.splits)
  then show ?thesis
    using assms track_without [OF _ remove_task_live [OF assms]] inj_jobs by (simp add: tracked_def)
qed

lemma track_put_in:
  assumes "track live mk b mx" "inj mk" "live b j = None" "live b' = (live b)(j \<mapsto> (mk i, c))"
    and "\<And>j c. live b j \<noteq> Some (mk i, c)"
  shows "track live mk b' (put_in i j mx)"
  using assms by (auto simp: track_def put_in_def dest: injD)

lemma track_other:
  assumes "track live mk b mx" "live b j = None" "live b' = (live b)(j \<mapsto> (r, c))" "\<forall>i. r \<noteq> mk i"
  shows "track live mk b' mx"
  using assms by (auto simp: track_def)

lemma schedule_without: "live b' = without r (live b) \<Longrightarrow> registered live r None b b'"
  by (auto simp: registered_def schedule_def fun_eq_iff)

lemma schedule_add:
  "live b1 = without r (live b) \<Longrightarrow> live b1 j = None \<Longrightarrow> live b' = (live b1)(j \<mapsto> (r, c)) \<Longrightarrow> registered live r (Some c) b b'"
  by (auto simp: registered_def schedule_def fun_eq_iff) metis

lemma track_cong: "live b' = live b \<Longrightarrow> track live mk b' mx = track live mk b mx"
  by (simp add: track_def)

lemma upsert_source_spec:
  assumes "tracked live h"
  shows "tracked live (upsert_source bk g h) \<and>
    (\<exists>cron. registered live (IngestGroup (group_id g)) cron (backend h) (backend (upsert_source bk g h)) \<and>
       set_option cron \<subseteq> active_cron bk (group_is_active g) (group_cron_schedule g) \<and>
       (adds_succeed bk \<longrightarrow>
          set_option cron = active_cron bk (group_is_active g) (group_cron_schedule g)))"
proof -
  let ?r = "IngestGroup (group_id g)" and ?c = "normalize_cron (group_cron_schedule g)"
  let ?h = "remove_source bk (group_id g) h"
  note l = remove_source_live [OF assms, of "group_id g"] and tr = remove_source_tracked [OF assms, of "group_id g"]
  have none: "live (backend ?h) j \<noteq> Some (?r, c)" for j c by (simp add: l)
  show ?thesis
  proof (cases "active_cron bk (group_is_active g) (group_cron_schedule g) = {}")
    case True
    then have "upsert_source bk g h = ?h"
      by (auto simp: upsert_source_def active_cron_def Let_def split: sum.splits if_splits)
    then show ?thesis using tr schedule_without [OF l] True by (auto intro: exI [of _ None])
  next
    case False
    then have a: "group_is_active g" "job_new bk ?c = Inr ()" and c: "active_cron bk (group_is_active g) (group_cron_schedule g) = {?c}"
      by (auto simp: active_cron_def split: if_splits)
    obtain res b where add: "job_add bk ?c ?r (backend ?h) = (res, b)" by fastforce
    show ?thesis
    proof (cases res)
      case (Inl e)
      have eq: "upsert_source bk g h = ?h\<lparr>backend := b\<rparr>" using a add Inl by (simp add: upsert_source_def Let_def)
      have lb: "live b = live (backend ?h)" using add_err add Inl by simp
      have "\<not> adds_succeed bk"
        using add Inl unfolding adds_succeed_def by (metis Inl_Inr_False prod.inject)
      then show ?thesis
        using tr track_cong [OF lb] schedule_without [of b ?r "backend h"] l lb
        by (auto simp: eq tracked_def intro!: exI [of _ None])
    next
      case (Inr j)
      have eq: "upsert_source bk g h = ?h\<lparr>backend := b, source_jobs := put_in (group_id g) j (source_jobs ?h)\<rparr>"
        using a add Inr by (simp add: upsert_source_def Let_def)
      have lb: "live (backend ?h) j = None" "live b = (live (backend ?h))(j \<mapsto> (?r, ?c))"
        using add_ok add Inr by simp_all
      have "tracked live (upsert_source bk g h)"
        using tr track_put_in [where mk = IngestGroup, OF _ _ lb none] track_other [OF _ lb] inj_jobs by (simp add: eq tracked_def)
      then show ?thesis
        using schedule_add [OF l lb] by (auto simp: eq c intro!: exI [of _ "Some ?c"])
    qed
  qed
qed

lemma upsert_task_spec:
  assumes "tracked live h"
  shows "tracked live (upsert_task bk t h) \<and>
    (\<exists>cron. registered live (SyncTask (task_id t)) cron (backend h) (backend (upsert_task bk t h)) \<and>
       set_option cron \<subseteq> active_cron bk (task_is_active t) (task_cron_schedule t) \<and>
       (adds_succeed bk \<longrightarrow>
          set_option cron = active_cron bk (task_is_active t) (task_cron_schedule t)))"
proof -
  let ?r = "SyncTask (task_id t)" and ?c = "normalize_cron (task_cron_schedule t)"
  let ?h = "remove_task bk (task_id t) h"
  note l = remove_task_live [OF assms, of "task_id t"] and tr = remove_task_tracked [OF assms, of "task_id t"]
  have none: "live (backend ?h) j \<noteq> Some (?r, c)" for j c by (simp add: l)
  show ?thesis
  proof (cases "active_cron bk (task_is_active t) (task_cron_schedule t) = {}")
    case True
    then have "upsert_task bk t h = ?h"
      by (auto simp: upsert_task_def active_cron_def Let_def split: sum.splits if_splits)
    then show ?thesis using tr schedule_without [OF l] True by (auto intro: exI [of _ None])
  next
    case False
    then have a: "task_is_active t" "job_new bk ?c = Inr ()" and c: "active_cron bk (task_is_active t) (task_cron_schedule t) = {?c}"
      by (auto simp: active_cron_def split: if_splits)
    obtain res b where add: "job_add bk ?c ?r (backend ?h) = (res, b)" by fastforce
    show ?thesis
    proof (cases res)
      case (Inl e)
      have eq: "upsert_task bk t h = ?h\<lparr>backend := b\<rparr>" using a add Inl by (simp add: upsert_task_def Let_def)
      have lb: "live b = live (backend ?h)" using add_err add Inl by simp
      have "\<not> adds_succeed bk"
        using add Inl unfolding adds_succeed_def by (metis Inl_Inr_False prod.inject)
      then show ?thesis
        using tr track_cong [OF lb] schedule_without [of b ?r "backend h"] l lb
        by (auto simp: eq tracked_def intro!: exI [of _ None])
    next
      case (Inr j)
      have eq: "upsert_task bk t h = ?h\<lparr>backend := b, task_jobs := put_in (task_id t) j (task_jobs ?h)\<rparr>"
        using a add Inr by (simp add: upsert_task_def Let_def)
      have lb: "live (backend ?h) j = None" "live b = (live (backend ?h))(j \<mapsto> (?r, ?c))"
        using add_ok add Inr by simp_all
      have "tracked live (upsert_task bk t h)"
        using tr track_put_in [where mk = SyncTask, OF _ _ lb none] track_other [OF _ lb] inj_jobs by (simp add: eq tracked_def)
      then show ?thesis
        using schedule_add [OF l lb] by (auto simp: eq c intro!: exI [of _ "Some ?c"])
    qed
  qed
qed

lemma removes_spec:
  assumes "tracked live h"
  shows "tracked live (remove_source bk i h) \<and> schedule live (backend (remove_source bk i h)) = (schedule live (backend h))(IngestGroup i := {})"
    and "tracked live (remove_task bk i h) \<and> schedule live (backend (remove_task bk i h)) = (schedule live (backend h))(SyncTask i := {})"
  using remove_source_tracked [OF assms] remove_task_tracked [OF assms]
    schedule_without [OF remove_source_live [OF assms]] schedule_without [OF remove_task_live [OF assms]]
  by (simp_all add: registered_def)

end

text \<open>A library whose \<open>add\<close> never fails: then the handle registers every job it should.\<close>

locale reliable_backend = job_backend +
  assumes add_total: "adds_succeed bk"
begin

lemma upserts_spec:
  assumes "tracked live h"
  shows "tracked live (upsert_source bk g h) \<and> schedule live (backend (upsert_source bk g h)) =
      (schedule live (backend h))(IngestGroup (group_id g) := active_cron bk (group_is_active g) (group_cron_schedule g))"
    and "tracked live (upsert_task bk t h) \<and> schedule live (backend (upsert_task bk t h)) =
      (schedule live (backend h))(SyncTask (task_id t) := active_cron bk (task_is_active t) (task_cron_schedule t))"
  using upsert_source_spec [OF assms, of g] upsert_task_spec [OF assms, of t] add_total by (auto simp: registered_def)

lemma fold_sources:
  "tracked live h \<Longrightarrow> distinct (map group_id gs) \<Longrightarrow>
   tracked live (fold (upsert_source bk) gs h) \<and>
   (\<forall>r. schedule live (backend (fold (upsert_source bk) gs h)) r =
      (case r of IngestGroup i \<Rightarrow> (case List.find (\<lambda>g. group_id g = i) gs of
           None \<Rightarrow> schedule live (backend h) r | Some g \<Rightarrow> active_cron bk (group_is_active g) (group_cron_schedule g))
       | SyncTask _ \<Rightarrow> schedule live (backend h) r))"
proof (induction gs arbitrary: h)
  case (Cons g gs)
  have notin: "List.find (\<lambda>x. group_id x = group_id g) gs = None"
    using Cons.prems(2) by (auto simp: find_None_iff image_iff)
  note up = upserts_spec(1) [OF Cons.prems(1), of g]
  with Cons.IH [of "upsert_source bk g h"] Cons.prems(2) show ?case
    by (auto simp: notin split: cron_job.splits option.splits)
qed (simp split: cron_job.splits)

lemma fold_tasks:
  "tracked live h \<Longrightarrow> distinct (map task_id ts) \<Longrightarrow>
   tracked live (fold (upsert_task bk) ts h) \<and>
   (\<forall>r. schedule live (backend (fold (upsert_task bk) ts h)) r =
      (case r of SyncTask i \<Rightarrow> (case List.find (\<lambda>t. task_id t = i) ts of
           None \<Rightarrow> schedule live (backend h) r | Some t \<Rightarrow> active_cron bk (task_is_active t) (task_cron_schedule t))
       | IngestGroup _ \<Rightarrow> schedule live (backend h) r))"
proof (induction ts arbitrary: h)
  case (Cons t ts)
  have notin: "List.find (\<lambda>x. task_id x = task_id t) ts = None"
    using Cons.prems(2) by (auto simp: find_None_iff image_iff)
  note up = upserts_spec(2) [OF Cons.prems(1), of t]
  with Cons.IH [of "upsert_task bk t h"] Cons.prems(2) show ?case
    by (auto simp: notin split: cron_job.splits option.splits)
qed (simp split: cron_job.splits)

lemma find_active:
  assumes "distinct (map k xs)" "\<And>x. \<not> act x \<Longrightarrow> F x = {}"
  shows "(case List.find (\<lambda>x. k x = i) (filter act xs) of None \<Rightarrow> {} | Some x \<Rightarrow> F x) =
    (case List.find (\<lambda>x. k x = i) xs of None \<Rightarrow> {} | Some x \<Rightarrow> F x)"
  using assms(1)
proof (induction xs)
  case (Cons x xs)
  have "List.find (\<lambda>y. k y = k x) (filter act xs) = None"
    using Cons.prems by (auto simp: find_None_iff image_iff)
  then show ?case using Cons assms(2) [of x] by auto
qed simp

lemma boot_mirrors:
  assumes "live b = Map.empty" "db_ok db"
  shows "tracked live (boot bk db (scheduler_new b)) \<and>
    schedule live (backend (boot bk db (scheduler_new b))) = wanted bk db"
proof -
  have start: "tracked live (scheduler_new b)" "schedule live (backend (scheduler_new b)) r = {}" for r
    using assms(1) by (auto simp: tracked_def track_def schedule_def scheduler_new_def)
  have d: "distinct (map group_id (groups db))" "distinct (map task_id (tasks db))"
    using assms(2) by (simp_all add: db_ok_defs)
  note sources = fold_sources [OF start(1) distinct_map_filter [OF d(1)], of group_is_active]
  note both = fold_tasks [OF conjunct1 [OF sources] distinct_map_filter [OF d(2)], of task_is_active]
  have "schedule live (backend (boot bk db (scheduler_new b))) r = wanted bk db r" for r
  proof (cases r)
    case (IngestGroup i)
    have "(case List.find (\<lambda>g. group_id g = i) (filter group_is_active (groups db)) of None \<Rightarrow> {}
        | Some g \<Rightarrow> active_cron bk (group_is_active g) (group_cron_schedule g)) = wanted bk db r"
      unfolding IngestGroup wanted.simps find_group_def by (rule find_active [OF d(1)]) (simp add: active_cron_def)
    then show ?thesis using sources both by (simp add: boot_def IngestGroup start(2) cong: option.case_cong)
  next
    case (SyncTask i)
    have "(case List.find (\<lambda>t. task_id t = i) (filter task_is_active (tasks db)) of None \<Rightarrow> {}
        | Some t \<Rightarrow> active_cron bk (task_is_active t) (task_cron_schedule t)) = wanted bk db r"
      unfolding SyncTask wanted.simps find_task_def by (rule find_active [OF d(2)]) (simp add: active_cron_def)
    then show ?thesis using sources both by (simp add: boot_def SyncTask start(2) cong: option.case_cong)
  qed
  with both show ?thesis by (auto simp: boot_def)
qed

end

section \<open>A concrete job table\<close>

text \<open>Jobs under consecutive numbers; six fields make an expression.\<close>

record job_store =
  next_job :: nat
  stored_jobs :: "nat \<rightharpoonup> (cron_job \<times> string)"

definition six_fields :: "string \<Rightarrow> string + unit" where
  "six_fields c = (if length (split_whitespace c) = 6 then Inr () else Inl ''invalid cron'')"

definition table_backend :: "(job_store, nat) cron_backend" where
  "table_backend = \<lparr>cron_parse = six_fields, job_new = six_fields,
     job_add = (\<lambda>c a s. (Inr (next_job s), \<lparr>next_job = Suc (next_job s), stored_jobs = (stored_jobs s)(next_job s \<mapsto> (a, c))\<rparr>)),
     job_remove = (\<lambda>j s. if stored_jobs s j = None then (Inl ''not found'', s)
        else (Inr (), s\<lparr>stored_jobs := (stored_jobs s)(j := None)\<rparr>))\<rparr>"

definition table_live :: "(job_store, nat) job_table" where
  "table_live s j = (if j < next_job s then stored_jobs s j else None)"

lemma table_add: "job_add table_backend c a s =
    (Inr (next_job s), \<lparr>next_job = Suc (next_job s), stored_jobs = (stored_jobs s)(next_job s \<mapsto> (a, c))\<rparr>)"
  by (simp add: table_backend_def)

lemma table_remove: "table_live s j \<noteq> None \<Longrightarrow> snd (job_remove table_backend j s) = s\<lparr>stored_jobs := (stored_jobs s)(j := None)\<rparr>"
  by (auto simp: table_backend_def table_live_def split: if_splits)

lemma table_live_add:
  "table_live s (next_job s) = None"
  "table_live \<lparr>next_job = Suc (next_job s), stored_jobs = (stored_jobs s)(next_job s \<mapsto> x)\<rparr> = (table_live s)(next_job s \<mapsto> x)"
  by (auto simp: table_live_def fun_eq_iff)

lemma table_live_remove: "table_live (s\<lparr>stored_jobs := (stored_jobs s)(j := None)\<rparr>) = (table_live s)(j := None)"
  by (auto simp: table_live_def fun_eq_iff)

interpretation table_jobs: reliable_backend table_backend table_live
proof (standard, goal_cases)
  case (1 c a s j s')
  then show ?case by (auto simp: table_add table_live_add)
next
  case (2 c a s e s')
  then show ?case by (simp add: table_add)
next
  case (3 s j)
  then show ?case by (simp add: table_remove table_live_remove)
next
  case (4 c)
  show ?case by (simp add: table_backend_def)
next
  case 5
  show ?case by (simp add: adds_succeed_def table_add)
qed

section \<open>Properties\<close>

text \<open>
  At boot the handle registers exactly the jobs the database asks for: every active
  destination group and synchronisation task whose expression the cron library accepts has one
  job, under its normalized expression, and there is no other job.\<close>

theorem boot_schedules_active_resources:
  assumes "reliable_backend bk live" "live b = Map.empty" "db_ok db"
  shows "tracked live (boot bk db (scheduler_new b)) \<and>
    schedule live (backend (boot bk db (scheduler_new b))) = wanted bk db"
  by (rule reliable_backend.boot_mirrors [OF assms])

definition empty_jobs :: job_store where
  "empty_jobs = \<lparr>next_job = 0, stored_jobs = Map.empty\<rparr>"

definition cron_group :: "uuid \<Rightarrow> string \<Rightarrow> string \<Rightarrow> bool \<Rightarrow> destination_group" where
  "cron_group i nm c act = \<lparr>group_id = i, group_name = nm, group_target_group_name = ''t'', group_cron_schedule = c,
     group_mode = ''upsert'', group_is_active = act, group_skip_bogon_filtering = False, group_last_run_at = None,
     group_owner_key_id = None, group_created_at = 0, group_updated_at = 0\<rparr>"

definition cron_db :: database where
  "cron_db = \<lparr>api_keys = [], permissions = [], vaults = [],
     groups = [cron_group 1 ''a'' ''0 0 * * *'' True, cron_group 2 ''b'' ''0 0 * * *'' False],
     group_targets = [], feeds = [], tasks = [], task_targets = [], sync_logs = [], audit_logs = []\<rparr>"

lemma cron_db_wanted:
  "wanted table_backend cron_db (IngestGroup 1) = {''0 0 0 * * *''}" "wanted table_backend cron_db (IngestGroup 2) = {}"
  by code_simp+

theorem boot_schedules_active_resources_witness:
  "schedule table_live (backend (boot table_backend cron_db (scheduler_new empty_jobs))) (IngestGroup 1) = {''0 0 0 * * *''} \<and>
   schedule table_live (backend (boot table_backend cron_db (scheduler_new empty_jobs))) (IngestGroup 2) = {}"
proof -
  have "table_live empty_jobs = Map.empty" by (simp add: table_live_def empty_jobs_def fun_eq_iff)
  moreover have "db_ok cron_db" by code_simp
  ultimately show ?thesis
    using boot_schedules_active_resources [OF table_jobs.reliable_backend_axioms] by (simp add: cron_db_wanted del: wanted.simps)
qed

end
