(* ===== verification/VaultApi.thy ===== *)
theory VaultApi
  imports Keys
begin

text \<open>
  \<open>src/api/vaults.rs\<close>: the vault endpoint handlers. They use no transaction: a failing permission
  or audit row keeps the statements before it. The theorems say who may change a vault, that a
  stored signing secret is always an envelope of the cipher, and what deleting a vault takes
  with it.
\<close>

section \<open>Payloads and responses\<close>

record vault_response =
  vr_id :: uuid
  vr_name :: string
  vr_target_url :: string
  vr_description :: "string option"
  vr_owner_key_id :: "uuid option"
  vr_created_at :: instant
  vr_updated_at :: instant

definition to_vault_response :: "vault_endpoint \<Rightarrow> vault_response" where
  "to_vault_response m =
     \<lparr>vr_id = vault_id m, vr_name = vault_name m, vr_target_url = vault_target_url m,
      vr_description = vault_description m, vr_owner_key_id = vault_owner_key_id m,
      vr_created_at = vault_created_at m, vr_updated_at = vault_updated_at m\<rparr>"

record create_vault_payload =
  cv_name :: string
  cv_target_url :: string
  cv_api_key :: string
  cv_signing_secret :: string
  cv_description :: "string option"

record update_vault_payload =
  uv_name :: "string option"
  uv_target_url :: "string option"
  uv_api_key :: "string option"
  uv_signing_secret :: "string option"
  uv_description :: "string option"

section \<open>Handlers\<close>

text \<open>Owner, Master, or a key with any permission row on the resource.\<close>

definition resource_visible :: "database \<Rightarrow> api_key \<Rightarrow> string \<Rightarrow> uuid \<Rightarrow> uuid option \<Rightarrow> bool" where
  "resource_visible db caller ty i owner \<longleftrightarrow>
     is_master caller \<or> owner = Some (key_id caller) \<or> find_permission db (key_id caller) ty i \<noteq> None"

definition list_vault_endpoints :: "api_key \<Rightarrow> database \<Rightarrow> vault_response list" where
  "list_vault_endpoints caller db =
     map to_vault_response
       (filter (\<lambda>v. resource_visible db caller RESOURCE_VAULT_ENDPOINT (vault_id v) (vault_owner_key_id v)) (vaults db))"

definition get_vault_endpoint :: "api_key \<Rightarrow> uuid \<Rightarrow> database \<Rightarrow> app_error + vault_response" where
  "get_vault_endpoint caller i db =
     ebind (ok_or NotFound (find_vault db i)) (\<lambda>v.
     if \<not> resource_visible db caller RESOURCE_VAULT_ENDPOINT i (vault_owner_key_id v) then Inl NotFound
     else Inr (to_vault_response v))"

text \<open>A unique violation of a named resource becomes a 409 with the name.\<close>

definition conflict_on_unique :: "string \<Rightarrow> string \<Rightarrow> db_err + 'a \<Rightarrow> app_error + 'a" where
  "conflict_on_unique what nm r =
     map_err (\<lambda>e. if e = UniqueConstraintViolation
                  then Conflict (''a '' @ what @ '' named '' @ squoted nm @ '' already exists'')
                  else DbError e) r"

lemma conflict_on_unique_Inr [simp]: "conflict_on_unique what nm r = Inr a \<longleftrightarrow> r = Inr a"
  by (simp add: conflict_on_unique_def)

definition create_vault_endpoint ::
  "crypto_ops \<Rightarrow> secret_cipher \<Rightarrow> request_env \<Rightarrow> api_key \<Rightarrow> create_vault_payload \<Rightarrow> database
    \<Rightarrow> (app_error + vault_response) \<times> database"
where
  "create_vault_endpoint cs cipher rq caller payload db =
     try_h (guard_resource_creation caller (can_manage_vaults caller)) db (\<lambda>_.
     try_h (crypto_result (seal cs cipher (entropy rq 0) (cv_signing_secret payload))) db (\<lambda>sealed_secret.
     let i = fresh rq 0;
         model = \<lparr>vault_id = i, vault_name = cv_name payload, vault_target_url = cv_target_url payload,
           vault_api_key = cv_api_key payload, vault_signing_secret = sealed_secret,
           vault_description = cv_description payload, vault_owner_key_id = Some (key_id caller),
           vault_created_at = now rq, vault_updated_at = now rq\<rparr> in
     try_h (conflict_on_unique ''vault endpoint'' (cv_name payload) (insert_vault model db)) db (\<lambda>db1.
     try_h (grant_full_permission (fresh rq 1) (now rq) (key_id caller) RESOURCE_VAULT_ENDPOINT i db1) db1 (\<lambda>db2.
     try_h (create_audit_log (fresh rq 2) (now rq) caller (client_ip rq) ''VAULT_CREATE'' (Some (vault_name model)) None db2) db2 (\<lambda>db3.
     (Inr (to_vault_response model), db3))))))"

text \<open>The row with the payload's fields; sealing a new secret may fail.\<close>

definition apply_vault_update ::
  "crypto_ops \<Rightarrow> secret_cipher \<Rightarrow> request_env \<Rightarrow> update_vault_payload \<Rightarrow> vault_endpoint \<Rightarrow> app_error + vault_endpoint"
where
  "apply_vault_update cs cipher rq p v =
     (let v1 = v\<lparr>vault_name := or_else (uv_name p) (vault_name v),
                 vault_target_url := or_else (uv_target_url p) (vault_target_url v),
                 vault_api_key := or_else (uv_api_key p) (vault_api_key v)\<rparr> in
      ebind (case uv_signing_secret p of
               None \<Rightarrow> Inr v1
             | Some secret \<Rightarrow> ebind (crypto_result (seal cs cipher (entropy rq 0) secret)) (\<lambda>sealed.
                 Inr (v1\<lparr>vault_signing_secret := sealed\<rparr>)))
        (\<lambda>v2. Inr (v2\<lparr>vault_description := (case uv_description p of None \<Rightarrow> vault_description v2 | Some d \<Rightarrow> Some d),
                       vault_updated_at := now rq\<rparr>)))"

definition update_vault_endpoint ::
  "crypto_ops \<Rightarrow> secret_cipher \<Rightarrow> request_env \<Rightarrow> api_key \<Rightarrow> uuid \<Rightarrow> update_vault_payload \<Rightarrow> database
    \<Rightarrow> (app_error + vault_response) \<times> database"
where
  "update_vault_endpoint cs cipher rq caller i payload db =
     try_h (ok_or NotFound (find_vault db i)) db (\<lambda>existing.
     try_h (guard_resource_manage caller (find_permission db (key_id caller) RESOURCE_VAULT_ENDPOINT i)) db (\<lambda>_.
     try_h (apply_vault_update cs cipher rq payload existing) db (\<lambda>updated.
     try_h (sql (update_vault updated db)) db (\<lambda>db1.
     try_h (create_audit_log (fresh rq 0) (now rq) caller (client_ip rq) ''VAULT_UPDATE'' (Some (vault_name updated)) None db1) db1 (\<lambda>db2.
     (Inr (to_vault_response updated), db2))))))"

definition delete_vault_endpoint ::
  "request_env \<Rightarrow> api_key \<Rightarrow> uuid \<Rightarrow> database \<Rightarrow> (app_error + unit) \<times> database"
where
  "delete_vault_endpoint rq caller i db =
     try_h (ok_or NotFound (find_vault db i)) db (\<lambda>existing.
     try_h (guard_resource_lifecycle caller (vault_owner_key_id existing)) db (\<lambda>_.
     if \<not> has_vault db i then (Inl NotFound, db)
     else let db1 = delete_vault_row i db in
     try_h (create_audit_log (fresh rq 0) (now rq) caller (client_ip rq) ''VAULT_DELETE'' (Some (vault_name existing)) None db1) db1 (\<lambda>db2.
     (Inr (), db2))))"

section \<open>Constraints\<close>

lemma try_ok:
  assumes "db_ok db" and "\<And>a. r = Inr a \<Longrightarrow> db_ok (snd (k a))"
  shows "db_ok (snd (try_h r db k))"
  using assms by (cases r) auto

lemma audit_step_ok: "db_ok mid \<Longrightarrow> db_ok (snd (try_h (create_audit_log i t k ip act tr d mid) mid (\<lambda>db2. (f db2, db2))))"
  by (rule try_ok) (auto dest: audit_ok)

lemma grant_ok: "grant_full_permission i t k ty r db = Inr db' \<Longrightarrow> db_ok db'"
  by (auto simp: grant_full_permission_Inr)

lemmas handler_ok = statement_ok delete_ok audit_ok grant_ok

lemma create_vault_ok: "db_ok db \<Longrightarrow> db_ok (snd (create_vault_endpoint cs cipher rq caller p db))"
  unfolding create_vault_endpoint_def Let_def
  by (intro try_ok audit_step_ok; simp; drule handler_ok; assumption)

lemma update_vault_ok: "db_ok db \<Longrightarrow> db_ok (snd (update_vault_endpoint cs cipher rq caller i p db))"
  unfolding update_vault_endpoint_def Let_def
  by (intro try_ok audit_step_ok; simp; drule handler_ok; assumption)

lemma delete_vault_ok: "db_ok db \<Longrightarrow> db_ok (snd (delete_vault_endpoint rq caller i db))"
  unfolding delete_vault_endpoint_def Let_def
  by (intro try_ok) (auto intro!: audit_step_ok delete_ok)

section \<open>Who may change a vault\<close>

datatype vault_request =
    CreateVault create_vault_payload
  | UpdateVault uuid update_vault_payload
  | DeleteVault uuid

fun handle_vault :: "key_ctx \<Rightarrow> request_env \<Rightarrow> api_key \<Rightarrow> vault_request \<Rightarrow> database \<Rightarrow> database" where
  "handle_vault cx rq caller (CreateVault p) db = snd (create_vault_endpoint (kc_crypto cx) (kc_cipher cx) rq caller p db)"
| "handle_vault cx rq caller (UpdateVault i p) db = snd (update_vault_endpoint (kc_crypto cx) (kc_cipher cx) rq caller i p db)"
| "handle_vault cx rq caller (DeleteVault i) db = snd (delete_vault_endpoint rq caller i db)"

lemma handle_vault_ok: "db_ok db \<Longrightarrow> db_ok (handle_vault cx rq caller r db)"
  by (cases r) (simp_all add: create_vault_ok update_vault_ok delete_vault_ok)

text \<open>RBAC R2 on a resource: the global right to manage keys and \<open>can_manage\<close> on it.\<close>

definition manages :: "database \<Rightarrow> api_key \<Rightarrow> string \<Rightarrow> uuid \<Rightarrow> bool" where
  "manages db caller ty i \<longleftrightarrow>
     is_master caller \<or> (can_manage_keys caller \<and> (\<exists>q. find_permission db (key_id caller) ty i = Some q \<and> can_manage q))"

definition governs :: "api_key \<Rightarrow> uuid option \<Rightarrow> bool" where
  "governs caller owner \<longleftrightarrow> is_master caller \<or> owner = Some (key_id caller)"

lemma manages_guard: "guard_resource_manage caller (find_permission db (key_id caller) ty i) = Inr u \<longleftrightarrow> manages db caller ty i"
  by (simp add: guard_simps manages_def)

lemma governs_guard: "guard_resource_lifecycle caller owner = Inr u \<longleftrightarrow> governs caller owner"
  by (simp add: guard_simps governs_def)

text \<open>
  How a request may change the table of a resource (its id, owner and resource type): the
  kinds of effect of one caller, and what any of them implies for the rows before and after.
\<close>

inductive row_effect ::
  "('r \<Rightarrow> uuid) \<Rightarrow> ('r \<Rightarrow> uuid option) \<Rightarrow> string \<Rightarrow> bool \<Rightarrow> api_key \<Rightarrow> database \<Rightarrow> 'r list \<Rightarrow> 'r list \<Rightarrow> bool"
  for idf owner ty creates caller db rows where
  re_none: "row_effect idf owner ty creates caller db rows rows"
| re_create: "creates \<or> is_master caller \<Longrightarrow> owner r = Some (key_id caller) \<Longrightarrow>
     row_effect idf owner ty creates caller db rows (rows @ [r])"
| re_update: "manages db caller ty (idf old) \<Longrightarrow> old \<in> set rows \<Longrightarrow> idf r = idf old \<Longrightarrow> owner r = owner old \<Longrightarrow>
     row_effect idf owner ty creates caller db rows (replace_row idf r rows)"
| re_delete: "governs caller (owner old) \<Longrightarrow> old \<in> set rows \<Longrightarrow>
     row_effect idf owner ty creates caller db rows (filter (\<lambda>r. idf r \<noteq> idf old) rows)"

definition row_authorized ::
  "('r \<Rightarrow> uuid) \<Rightarrow> ('r \<Rightarrow> uuid option) \<Rightarrow> string \<Rightarrow> bool \<Rightarrow> api_key \<Rightarrow> database \<Rightarrow> 'r list \<Rightarrow> 'r list \<Rightarrow> bool" where
  "row_authorized idf owner ty creates caller db rows rows' \<longleftrightarrow>
     (\<forall>r \<in> set rows. idf r \<notin> idf ` set rows' \<longrightarrow> governs caller (owner r)) \<and>
     (\<forall>r \<in> set rows. \<forall>r' \<in> set rows'. idf r' = idf r \<and> r' \<noteq> r \<longrightarrow> manages db caller ty (idf r) \<and> owner r' = owner r) \<and>
     (\<forall>r' \<in> set rows'. idf r' \<notin> idf ` set rows \<longrightarrow> (creates \<or> is_master caller) \<and> owner r' = Some (key_id caller))"

lemma row_effect_authorized:
  assumes "row_effect idf owner ty creates caller db rows rows'" "distinct (map idf rows)" "distinct (map idf rows')"
  shows "row_authorized idf owner ty creates caller db rows rows'"
  using assms(1)
proof (cases rule: row_effect.cases)
  case re_none
  then show ?thesis using assms distinct_map_eq [OF assms(2)] by (auto simp: row_authorized_def)
next
  case (re_create r)
  then show ?thesis
    using assms distinct_map_eq [OF assms(2)] by (auto simp: row_authorized_def image_iff)
next
  case (re_update old r)
  have old: "x = old" if "x \<in> set rows" "idf x = idf old" for x
    using that distinct_map_eq [OF assms(2) that(1) re_update(3)] by simp
  have "manages db caller ty (idf x) \<and> owner y = owner x"
    if "x \<in> set rows" "y \<in> set rows'" "idf y = idf x" "y \<noteq> x" for x y
  proof -
    have "y = r" using set_replace_row [of y idf r rows] that re_update(1) distinct_map_eq [OF assms(2), of y x] by auto
    moreover have "x = old" using old [OF that(1)] that(3) calculation re_update(4) by simp
    ultimately show ?thesis using re_update by simp
  qed
  then show ?thesis
    using re_update by (auto simp: row_authorized_def ids_replace_row dest!: set_replace_row)
next
  case (re_delete old)
  have "x = old" if "x \<in> set rows" "idf x = idf old" for x
    using that distinct_map_eq [OF assms(2) that(1) re_delete(3)] by simp
  then show ?thesis
    using re_delete distinct_map_eq [OF assms(2)] by (auto simp: row_authorized_def)
qed

abbreviation vault_effect :: "api_key \<Rightarrow> database \<Rightarrow> vault_endpoint list \<Rightarrow> bool" where
  "vault_effect caller db \<equiv>
     row_effect vault_id vault_owner_key_id ''vault_endpoint'' (can_manage_vaults caller) caller db (vaults db)"

lemma row_effect_try:
  assumes "row_effect f ow ty c caller db rows (t mid)" "\<And>a. r = Inr a \<Longrightarrow> row_effect f ow ty c caller db rows (t (snd (k a)))"
  shows "row_effect f ow ty c caller db rows (t (snd (try_h r mid k)))"
  using assms by (cases r) auto

lemma insert_vault_Inr [step_simps]:
  "insert_vault v db = Inr db' \<longleftrightarrow> db' = db\<lparr>vaults := vaults db @ [v]\<rparr> \<and> db_ok db'"
  by (auto simp: insert_vault_def)

lemma update_vault_Inr [step_simps]:
  "update_vault v db = Inr db' \<longleftrightarrow>
     has_vault db (vault_id v) \<and> db' = db\<lparr>vaults := replace_row vault_id v (vaults db)\<rparr> \<and> db_ok db'"
  by (auto simp: update_vault_def)

lemma apply_vault_update_keeps:
  "apply_vault_update cs cipher rq p v = Inr v' \<Longrightarrow> vault_id v' = vault_id v \<and> vault_owner_key_id v' = vault_owner_key_id v"
  by (auto simp: apply_vault_update_def Let_def split: option.splits)

lemma grant_keeps:
  "grant_full_permission i t k ty r db = Inr db' \<Longrightarrow>
     api_keys db' = api_keys db \<and> vaults db' = vaults db \<and> groups db' = groups db \<and> feeds db' = feeds db \<and>
     tasks db' = tasks db \<and> group_targets db' = group_targets db \<and> task_targets db' = task_targets db \<and> sync_logs db' = sync_logs db"
  by (auto simp: grant_full_permission_Inr)

lemma delete_vault_row_vaults: "vaults (delete_vault_row i db) = filter (\<lambda>v. vault_id v \<noteq> i) (vaults db)"
  by (simp add: delete_vault_row_def Let_def)

lemma handle_vault_effect: "vault_effect caller db (vaults (handle_vault cx rq caller r db))"
proof (cases r)
  case (CreateVault p)
  show ?thesis
    unfolding CreateVault handle_vault.simps create_vault_endpoint_def Let_def
    by (intro row_effect_try [where t = vaults] re_none)
      (auto simp: guard_simps step_simps intro: re_create dest!: grant_keeps audit_keeps)
next
  case (UpdateVault i p)
  have "vault_effect caller db (replace_row vault_id v (vaults db))"
    if "find_vault db i = Some old" "manages db caller RESOURCE_VAULT_ENDPOINT i"
      "apply_vault_update cs cipher rq p old = Inr v" for old v cs cipher
    using that re_update [of db caller "''vault_endpoint''" vault_id old "vaults db" v vault_owner_key_id] find_vault_Some [OF that(1)] apply_vault_update_keeps [OF that(3)]
    by (simp add: RESOURCE_VAULT_ENDPOINT_def)
  then show ?thesis
    unfolding UpdateVault handle_vault.simps update_vault_endpoint_def Let_def
    by (intro row_effect_try [where t = vaults] re_none) (auto simp: manages_guard step_simps dest!: audit_keeps)
next
  case (DeleteVault i)
  have "vault_effect caller db (filter (\<lambda>v. vault_id v \<noteq> i) (vaults db))"
    if "find_vault db i = Some old" "governs caller (vault_owner_key_id old)" for old
    using that re_delete [of caller vault_owner_key_id old "vaults db" vault_id] find_vault_Some [OF that(1)] by simp
  then show ?thesis
    unfolding DeleteVault handle_vault.simps delete_vault_endpoint_def Let_def
    by (intro row_effect_try [where t = vaults] re_none)
      (auto simp: governs_guard delete_vault_row_vaults try_h_def intro: re_none split: sum.splits dest!: audit_keeps)
qed

text \<open>
  C20. A vault row changes only by a caller that may change it: a row disappears only for the Master
  or its owner, a row of the same id differs only for a caller that manages it (RBAC R2) and
  keeps its owner, and a new row belongs to its creator, who may create vaults.\<close>

theorem vault_changes_authorized:
  assumes "db_ok db"
  shows "row_authorized vault_id vault_owner_key_id ''vault_endpoint'' (can_manage_vaults caller) caller db
    (vaults db) (vaults (handle_vault cx rq caller r db))"
  by (rule row_effect_authorized [OF handle_vault_effect])
    (use assms handle_vault_ok [OF assms, of cx rq caller r] in \<open>simp_all add: db_ok_defs\<close>)

lemma find_vault_unique: "db_ok db \<Longrightarrow> v \<in> set (vaults db) \<Longrightarrow> find_vault db (vault_id v) = Some v"
  by (simp add: find_vault_def db_ok_defs find_distinct)

lemma from_env_key: "from_env cs var = Inr (Sealed key) \<Longrightarrow> length key = KEY_LEN"
  using from_hex_key_Inr [of cs] by (fastforce simp: from_env_def KEY_LEN_def split: option.splits if_splits)

text \<open>
  A created vault is found under the id of the response, belongs to the caller, who holds every
  permission on it, and its stored signing secret opens to the submitted one.\<close>

theorem created_vault_usable:
  assumes "crypto_suite cs" "from_env cs var = Inr cipher" "length (entropy rq 0) = NONCE_LEN"
    and "utf8_valid (cv_signing_secret p)" "create_vault_endpoint cs cipher rq caller p db = (Inr resp, db')"
  shows "\<exists>v q. find_vault db' (vr_id resp) = Some v \<and> vault_owner_key_id v = Some (key_id caller) \<and>
    open_secret cs cipher (vault_signing_secret v) = Inr (cv_signing_secret p) \<and>
    q \<in> set (permissions db') \<and> perm_key q = (key_id caller, ''vault_endpoint'', vr_id resp) \<and>
    can_sync q \<and> can_manage q \<and> can_view_logs q"
proof -
  define row where "row sealed = \<lparr>vault_id = fresh rq 0, vault_name = cv_name p, vault_target_url = cv_target_url p,
    vault_api_key = cv_api_key p, vault_signing_secret = sealed, vault_description = cv_description p,
    vault_owner_key_id = Some (key_id caller), vault_created_at = now rq, vault_updated_at = now rq\<rparr>" for sealed
  obtain sealed db1 db2 where seal: "seal cs cipher (entropy rq 0) (cv_signing_secret p) = Inr sealed"
    and db1: "insert_vault (row sealed) db = Inr db1" and resp: "resp = to_vault_response (row sealed)"
    and db2: "grant_full_permission (fresh rq 1) (now rq) (key_id caller) RESOURCE_VAULT_ENDPOINT (fresh rq 0) db1 = Inr db2"
    and log: "create_audit_log (fresh rq 2) (now rq) caller (client_ip rq) ''VAULT_CREATE'' (Some (vault_name (row sealed))) None db2 = Inr db'"
    using assms(5) unfolding create_vault_endpoint_def Let_def row_def [symmetric]
    by (auto simp only: try_h_eq_Inr crypto_result_eq_Inr conflict_on_unique_Inr prod.inject sum.inject)
  define v where "v = row sealed"
  have v: "vault_id v = vr_id resp" "fresh rq 0 = vr_id resp" "vault_signing_secret v = sealed" "vault_owner_key_id v = Some (key_id caller)"
    by (simp_all add: v_def row_def resp to_vault_response_def)
  note db1 = db1 [folded v_def] and db2 = db2 [unfolded v]
  have "v \<in> set (vaults db')"
    using db1 grant_keeps [OF db2] audit_keeps [OF log] by (auto simp: insert_vault_Inr)
  then have "find_vault db' (vr_id resp) = Some v"
    using find_vault_unique [OF audit_ok [OF log], of v] by (simp add: v)
  moreover have "open_secret cs cipher sealed = Inr (cv_signing_secret p)"
    by (rule crypto_suite.open_seal [OF assms(1) _ assms(4) _ seal])
      (use assms(2,3) from_env_key in \<open>cases cipher; auto simp: NONCE_LEN_def KEY_LEN_def\<close>)+
  moreover have "\<exists>q \<in> set (permissions db'). perm_key q = (key_id caller, ''vault_endpoint'', vr_id resp) \<and>
      can_sync q \<and> can_manage q \<and> can_view_logs q"
    using db2 audit_keeps [OF log] by (auto simp: grant_full_permission_Inr perm_key_def RESOURCE_VAULT_ENDPOINT_def)
  ultimately show ?thesis using v by blast
qed

text \<open>
  Deleting a vault removes with it every synchronisation task that reads from it and every
  target mapping that names it or one of those tasks, and nothing else of the configuration.\<close>

theorem vault_delete_cascades:
  assumes "delete_vault_endpoint rq caller i db = (Inr u, db')"
  shows "vaults db' = filter (\<lambda>v. vault_id v \<noteq> i) (vaults db) \<and>
    tasks db' = filter (\<lambda>t. task_source_vault_id t \<noteq> i) (tasks db) \<and>
    task_targets db' = filter (\<lambda>tt. tt_vault_id tt \<noteq> i \<and>
       \<not> list_ex (\<lambda>t. task_source_vault_id t = i \<and> task_id t = tt_task_id tt) (tasks db)) (task_targets db) \<and>
    group_targets db' = filter (\<lambda>gt. gt_vault_id gt \<noteq> i) (group_targets db) \<and>
    groups db' = groups db \<and> feeds db' = feeds db \<and> api_keys db' = api_keys db"
proof -
  have "audited (delete_vault_row i db) db'"
    using assms by (auto simp: delete_vault_endpoint_def Let_def try_h_eq_Inr split: if_splits dest: audited_log)
  then show ?thesis
    by (auto simp: audited_def delete_vault_row_def delete_tasks_where_def Let_def filter_filter conj_commute intro: filter_cong)
qed

section \<open>Witnesses\<close>

lemma run_ok: "\<not> isl (fst x) \<Longrightarrow> \<exists>r s. x = (Inr r, s)"
  by (cases x; cases "fst x") auto

definition nonce_rq :: request_env where
  "nonce_rq = sample_rq\<lparr>entropy := (\<lambda>_. replicate 24 (CHR ''n''))\<rparr>"

definition sample_create_vault :: create_vault_payload where
  "sample_create_vault = \<lparr>cv_name = ''w'', cv_target_url = ''https://w'', cv_api_key = ''k'', cv_signing_secret = ''s'',
     cv_description = None\<rparr>"

definition rename_vault :: update_vault_payload where
  "rename_vault = \<lparr>uv_name = Some ''renamed'', uv_target_url = None, uv_api_key = None, uv_signing_secret = None,
     uv_description = None\<rparr>"

theorem vault_changes_authorized_witness:
  "\<exists>v'. v' \<in> set (vaults (handle_vault sample_cx sample_rq sample_manager (UpdateVault 10 rename_vault) (sample_db None))) \<and>
     v' \<noteq> sample_vault None \<and> manages (sample_db None) sample_manager ''vault_endpoint'' (vault_id (sample_vault None))"
proof -
  let ?vs = "vaults (handle_vault sample_cx sample_rq sample_manager (UpdateVault 10 rename_vault) (sample_db None))"
  let ?v' = "(sample_vault None)\<lparr>vault_name := ''renamed'', vault_updated_at := 5\<rparr>"
  have new: "?v' \<in> set ?vs" by code_simp
  have old: "sample_vault None \<in> set (vaults (sample_db None))" by (simp add: sample_db_def)
  have "?v' \<noteq> sample_vault None \<and> vault_id ?v' = vault_id (sample_vault None)" by (simp add: sample_vault_def)
  with vault_changes_authorized [OF sample_db_ok(1), of sample_manager sample_cx sample_rq "UpdateVault 10 rename_vault"] old new
  show ?thesis unfolding row_authorized_def by blast
qed

theorem created_vault_usable_witness:
  "\<exists>resp db' v. create_vault_endpoint toy_crypto Plaintext nonce_rq sample_master sample_create_vault (sample_db None) = (Inr resp, db') \<and>
     find_vault db' (vr_id resp) = Some v \<and> open_secret toy_crypto Plaintext (vault_signing_secret v) = Inr ''s''"
proof -
  let ?run = "create_vault_endpoint toy_crypto Plaintext nonce_rq sample_master sample_create_vault (sample_db None)"
  have "\<not> isl (fst ?run)" by code_simp
  then obtain resp db' where run: "?run = (Inr resp, db')" using run_ok by blast
  have "from_env toy_crypto None = Inr Plaintext" by (simp add: from_env_def)
  moreover have "length (entropy nonce_rq 0) = NONCE_LEN" by (simp add: nonce_rq_def NONCE_LEN_def)
  moreover have "utf8_valid (cv_signing_secret sample_create_vault)" by code_simp
  ultimately show ?thesis
    using created_vault_usable [OF toy_suite.crypto_suite_axioms _ _ _ run] run by (fastforce simp: sample_create_vault_def)
qed

theorem vault_delete_cascades_witness:
  "\<exists>db'. delete_vault_endpoint sample_rq sample_master 10 (sample_db None) = (Inr (), db') \<and> vaults db' = []"
proof -
  let ?run = "delete_vault_endpoint sample_rq sample_master 10 (sample_db None)"
  have "fst ?run = Inr ()" by code_simp
  then obtain db' where run: "?run = (Inr (), db')" by (cases ?run) auto
  with vault_delete_cascades [OF run] show ?thesis by (simp add: sample_db_def sample_vault_def)
qed

end
