(* ===== verification/TaskApi.thy ===== *)
theory TaskApi
  imports VaultApi Scheduler VaultSync
begin

text \<open>
  \<open>src/api/sync_tasks.rs\<close>: the synchronisation task handlers over the part of \<open>AppState\<close> they
  change: the database, the scheduler handle and the running jobs. Create and update run their
  statements in a transaction, written as a chain in the sum type whose error leaves the state
  of the entry; the scheduler follows after the commit. Deleting uses no transaction.
\<close>

section \<open>State, payloads and responses\<close>

record ('b, 'j) app_state =
  app_db :: database
  app_sched :: "('b, 'j) scheduler_handle"
  app_jobs :: running_jobs

record target_spec =
  ts_vault_endpoint_id :: uuid
  ts_target_group_name :: "string option"

record task_response =
  tr_task :: vault_sync_task
  tr_targets :: "target_spec list"

record create_task_payload =
  ct_name :: string
  ct_source_vault_id :: uuid
  ct_source_group_name :: string
  ct_target_group_name :: string
  ct_cron_schedule :: string
  ct_is_active :: bool
  ct_skip_bogon_filtering :: bool
  ct_targets :: "target_spec list"

record update_task_payload =
  ut_name :: "string option"
  ut_source_vault_id :: "uuid option"
  ut_source_group_name :: "string option"
  ut_target_group_name :: "string option"
  ut_cron_schedule :: "string option"
  ut_is_active :: "bool option"
  ut_skip_bogon_filtering :: "bool option"
  ut_targets :: "target_spec list option"

definition load_task_targets :: "database \<Rightarrow> uuid \<Rightarrow> target_spec list" where
  "load_task_targets db i =
     map (\<lambda>r. \<lparr>ts_vault_endpoint_id = tt_vault_id r, ts_target_group_name = tt_target_group_name r\<rparr>)
       (filter (\<lambda>r. tt_task_id r = i) (task_targets db))"

text \<open>The response repeats every field of the row beside the resolved targets.\<close>

definition to_task_response :: "vault_sync_task \<Rightarrow> target_spec list \<Rightarrow> task_response" where
  "to_task_response m targets = \<lparr>tr_task = m, tr_targets = targets\<rparr>"

definition task_target_rows :: "uuid \<Rightarrow> target_spec list \<Rightarrow> task_target list" where
  "task_target_rows i targets =
     map (\<lambda>t. \<lparr>tt_task_id = i, tt_vault_id = ts_vault_endpoint_id t, tt_target_group_name = ts_target_group_name t\<rparr>) targets"

section \<open>Reading\<close>

definition task_visible_to :: "database \<Rightarrow> api_key \<Rightarrow> vault_sync_task \<Rightarrow> bool" where
  "task_visible_to db caller t = resource_visible db caller RESOURCE_SYNC_TASK (task_id t) (task_owner_key_id t)"

definition list_vault_sync_tasks :: "api_key \<Rightarrow> database \<Rightarrow> task_response list" where
  "list_vault_sync_tasks caller db =
     map (\<lambda>t. to_task_response t (load_task_targets db (task_id t))) (filter (task_visible_to db caller) (tasks db))"

definition get_vault_sync_task :: "api_key \<Rightarrow> uuid \<Rightarrow> database \<Rightarrow> app_error + task_response" where
  "get_vault_sync_task caller i db =
     ebind (ok_or NotFound (find_task db i)) (\<lambda>t.
     if \<not> task_visible_to db caller t then Inl NotFound else Inr (to_task_response t (load_task_targets db i)))"

section \<open>Creating, updating, deleting\<close>

definition check_cron :: "('b, 'j) cron_backend \<Rightarrow> string \<Rightarrow> app_error + unit" where
  "check_cron bk expr = map_err (\<lambda>e. InvalidInput (''invalid cron_schedule: '' @ e)) (validate_cron_expression bk expr)"

definition check_cron_opt :: "('b, 'j) cron_backend \<Rightarrow> string option \<Rightarrow> app_error + unit" where
  "check_cron_opt bk expr = (case expr of None \<Rightarrow> Inr () | Some e \<Rightarrow> check_cron bk e)"

definition new_task :: "request_env \<Rightarrow> api_key \<Rightarrow> create_task_payload \<Rightarrow> vault_sync_task" where
  "new_task rq caller p =
     \<lparr>task_id = fresh rq 0, task_name = ct_name p, task_source_vault_id = ct_source_vault_id p,
      task_source_group_name = ct_source_group_name p, task_target_group_name = ct_target_group_name p,
      task_cron_schedule = ct_cron_schedule p, task_last_sync_at = None, task_mode = ''upsert'',
      task_is_active = ct_is_active p, task_skip_bogon_filtering = ct_skip_bogon_filtering p,
      task_owner_key_id = Some (key_id caller), task_created_at = now rq, task_updated_at = now rq\<rparr>"

definition create_task_txn :: "request_env \<Rightarrow> api_key \<Rightarrow> create_task_payload \<Rightarrow> database \<Rightarrow> app_error + database" where
  "create_task_txn rq caller p db =
     ebind (conflict_on_unique ''sync task'' (ct_name p) (insert_task (new_task rq caller p) db)) (\<lambda>db1.
     ebind (sql (insert_task_targets (task_target_rows (fresh rq 0) (ct_targets p)) db1)) (\<lambda>db2.
     ebind (grant_full_permission (fresh rq 1) (now rq) (key_id caller) RESOURCE_SYNC_TASK (fresh rq 0) db2) (\<lambda>db3.
     create_audit_log (fresh rq 2) (now rq) caller (client_ip rq) ''SYNC_TASK_CREATE'' (Some (ct_name p)) None db3)))"

definition create_vault_sync_task ::
  "('b, 'j) cron_backend \<Rightarrow> request_env \<Rightarrow> api_key \<Rightarrow> create_task_payload \<Rightarrow> ('b, 'j) app_state
    \<Rightarrow> (app_error + task_response) \<times> ('b, 'j) app_state"
where
  "create_vault_sync_task bk rq caller p st =
     try_h (guard_resource_creation caller (can_manage_vaults caller)) st (\<lambda>_.
     try_h (check_cron bk (ct_cron_schedule p)) st (\<lambda>_.
     try_h (create_task_txn rq caller p (app_db st)) st (\<lambda>db.
     let row = new_task rq caller p in
     (Inr (to_task_response row (ct_targets p)),
      st\<lparr>app_db := db, app_sched := upsert_task bk row (app_sched st)\<rparr>))))"

definition apply_task_update :: "instant \<Rightarrow> update_task_payload \<Rightarrow> vault_sync_task \<Rightarrow> vault_sync_task" where
  "apply_task_update t p m =
     m\<lparr>task_name := or_else (ut_name p) (task_name m),
       task_source_vault_id := or_else (ut_source_vault_id p) (task_source_vault_id m),
       task_source_group_name := or_else (ut_source_group_name p) (task_source_group_name m),
       task_target_group_name := or_else (ut_target_group_name p) (task_target_group_name m),
       task_cron_schedule := or_else (ut_cron_schedule p) (task_cron_schedule m),
       task_is_active := or_else (ut_is_active p) (task_is_active m),
       task_skip_bogon_filtering := or_else (ut_skip_bogon_filtering p) (task_skip_bogon_filtering m),
       task_updated_at := t\<rparr>"

definition replace_task_targets :: "uuid \<Rightarrow> target_spec list option \<Rightarrow> database \<Rightarrow> db_err + database" where
  "replace_task_targets i targets db =
     (case targets of None \<Rightarrow> Inr db
      | Some ts \<Rightarrow> insert_task_targets (task_target_rows i ts) (delete_task_targets i db))"

definition update_task_txn ::
  "request_env \<Rightarrow> api_key \<Rightarrow> uuid \<Rightarrow> vault_sync_task \<Rightarrow> target_spec list option \<Rightarrow> database \<Rightarrow> app_error + database" where
  "update_task_txn rq caller i row targets db =
     ebind (sql (update_task row db)) (\<lambda>db1.
     ebind (sql (replace_task_targets i targets db1)) (\<lambda>db2.
     create_audit_log (fresh rq 0) (now rq) caller (client_ip rq) ''SYNC_TASK_UPDATE'' (Some (task_name row)) None db2))"

definition update_vault_sync_task ::
  "('b, 'j) cron_backend \<Rightarrow> request_env \<Rightarrow> api_key \<Rightarrow> uuid \<Rightarrow> update_task_payload \<Rightarrow> ('b, 'j) app_state
    \<Rightarrow> (app_error + task_response) \<times> ('b, 'j) app_state"
where
  "update_vault_sync_task bk rq caller i p st =
     try_h (ok_or NotFound (find_task (app_db st) i)) st (\<lambda>existing.
     try_h (guard_resource_manage caller (find_permission (app_db st) (key_id caller) RESOURCE_SYNC_TASK i)) st (\<lambda>_.
     try_h (check_cron_opt bk (ut_cron_schedule p)) st (\<lambda>_.
     let row = apply_task_update (now rq) p existing in
     try_h (update_task_txn rq caller i row (ut_targets p) (app_db st)) st (\<lambda>db.
     (Inr (to_task_response row (load_task_targets db i)),
      st\<lparr>app_db := db, app_sched := upsert_task bk row (app_sched st)\<rparr>)))))"

definition delete_vault_sync_task ::
  "('b, 'j) cron_backend \<Rightarrow> request_env \<Rightarrow> api_key \<Rightarrow> uuid \<Rightarrow> ('b, 'j) app_state
    \<Rightarrow> (app_error + unit) \<times> ('b, 'j) app_state"
where
  "delete_vault_sync_task bk rq caller i st =
     try_h (ok_or NotFound (find_task (app_db st) i)) st (\<lambda>existing.
     try_h (guard_resource_lifecycle caller (task_owner_key_id existing)) st (\<lambda>_.
     if \<not> has_task (app_db st) i then (Inl NotFound, st)
     else let st1 = st\<lparr>app_db := delete_task_row i (app_db st), app_sched := remove_task bk i (app_sched st)\<rparr> in
     try_h (create_audit_log (fresh rq 0) (now rq) caller (client_ip rq) ''SYNC_TASK_DELETE'' (Some (task_name existing)) None
              (app_db st1)) st1 (\<lambda>db.
     (Inr (), st1\<lparr>app_db := db\<rparr>))))"

section \<open>Triggering\<close>

text \<open>The job guard is held across the audit row and the run and released on every exit.\<close>

definition trigger_vault_sync_task ::
  "'n ipnet_ops \<Rightarrow> 'w client_env \<Rightarrow> request_env \<Rightarrow> api_key \<Rightarrow> uuid \<Rightarrow> ('b, 'j) app_state \<Rightarrow> 'w
    \<Rightarrow> (((app_error + job_summary) \<times> ('b, 'j) app_state) \<times> 'w) option"
where
  "trigger_vault_sync_task nets env rq caller i st w =
     (case find_task (app_db st) i of
        None \<Rightarrow> Some ((Inl NotFound, st), w)
      | Some existing \<Rightarrow>
     (case guard_can_sync caller (find_permission (app_db st) (key_id caller) RESOURCE_SYNC_TASK i) of
        Inl e \<Rightarrow> Some ((Inl e, st), w)
      | Inr _ \<Rightarrow>
     (case try_start_job (app_jobs st) i of
        (False, rj) \<Rightarrow> Some ((Inl (Conflict ''a sync for this task is already in progress''), st\<lparr>app_jobs := rj\<rparr>), w)
      | (True, rj) \<Rightarrow>
     (case create_audit_log (fresh rq 0) (now rq) caller (client_ip rq) ''SYNC_TASK_TRIGGER'' (Some (task_name existing)) None (app_db st) of
        Inl e \<Rightarrow> Some ((Inl e, st\<lparr>app_jobs := job_guard_drop rj i\<rparr>), w)
      | Inr db1 \<Rightarrow>
     (case sync_run nets env (fresh rq 1) i db1 w of
        None \<Rightarrow> None
      | Some ((r, db2), w') \<Rightarrow> Some ((r, st\<lparr>app_db := db2, app_jobs := job_guard_drop rj i\<rparr>), w'))))))"

section \<open>The schedule follows the database\<close>

definition mirrors :: "('b, 'j) cron_backend \<Rightarrow> ('b, 'j) job_table \<Rightarrow> ('b, 'j) app_state \<Rightarrow> bool" where
  "mirrors bk live st \<longleftrightarrow>
     tracked live (app_sched st) \<and> schedule live (backend (app_sched st)) = wanted bk (app_db st)"

text \<open>The same up to a relation between the live and the wanted expressions of each resource.\<close>

definition follows ::
  "(string set \<Rightarrow> string set \<Rightarrow> bool) \<Rightarrow> ('b, 'j) cron_backend \<Rightarrow> ('b, 'j) job_table \<Rightarrow> ('b, 'j) app_state \<Rightarrow> bool" where
  "follows R bk live st \<longleftrightarrow>
     tracked live (app_sched st) \<and> (\<forall>r. R (schedule live (backend (app_sched st)) r) (wanted bk (app_db st) r))"

definition covered :: "string set \<Rightarrow> string set \<Rightarrow> bool" where
  "covered s w \<longleftrightarrow> w = {} \<or> s = w"

lemma mirrors_follows: "mirrors bk live st \<longleftrightarrow> follows (=) bk live st"
  by (simp add: mirrors_def follows_def fun_eq_iff)

lemma wanted_cong: "groups db' = groups db \<Longrightarrow> tasks db' = tasks db \<Longrightarrow> wanted bk db' = wanted bk db"
proof
  fix r assume "groups db' = groups db" "tasks db' = tasks db"
  then show "wanted bk db' r = wanted bk db r" by (cases r) (simp_all add: find_group_def find_task_def)
qed

lemma wanted_task_set:
  assumes "groups db' = groups db" "\<And>j. find_task db' j = (if j = i then new else find_task db j)"
  shows "wanted bk db' = (wanted bk db)(SyncTask i :=
    (case new of None \<Rightarrow> {} | Some t \<Rightarrow> active_cron bk (task_is_active t) (task_cron_schedule t)))"
proof
  fix r show "wanted bk db' r = ((wanted bk db)(SyncTask i :=
      (case new of None \<Rightarrow> {} | Some t \<Rightarrow> active_cron bk (task_is_active t) (task_cron_schedule t)))) r"
    using assms by (cases r) (auto simp: find_group_def)
qed

lemma insert_targets_keeps:
  "insert_task_targets rs db = Inr db' \<Longrightarrow> groups db' = groups db \<and> tasks db' = tasks db \<and> vaults db' = vaults db \<and>
     feeds db' = feeds db \<and> api_keys db' = api_keys db \<and> group_targets db' = group_targets db"
  "insert_group_targets gs db = Inr db' \<Longrightarrow> groups db' = groups db \<and> tasks db' = tasks db \<and> vaults db' = vaults db \<and>
     feeds db' = feeds db \<and> api_keys db' = api_keys db \<and> task_targets db' = task_targets db"
  by (induction rs arbitrary: db; fastforce) (induction gs arbitrary: db; fastforce)

lemma insert_task_Inr [step_simps]:
  "insert_task t db = Inr db' \<longleftrightarrow> db' = db\<lparr>tasks := tasks db @ [t]\<rparr> \<and> db_ok db'"
  by (auto simp: insert_task_def)

lemma update_task_Inr [step_simps]:
  "update_task t db = Inr db' \<longleftrightarrow>
     has_task db (task_id t) \<and> db' = db\<lparr>tasks := replace_row task_id t (tasks db)\<rparr> \<and> db_ok db'"
  by (auto simp: update_task_def)

lemma create_task_txn_effect:
  assumes "create_task_txn rq caller p db = Inr db'"
  shows "db_ok db' \<and> groups db' = groups db \<and> tasks db' = tasks db @ [new_task rq caller p]"
proof -
  obtain db1 db2 db3 where i: "insert_task (new_task rq caller p) db = Inr db1"
    and t: "insert_task_targets (task_target_rows (fresh rq 0) (ct_targets p)) db1 = Inr db2"
    and g: "grant_full_permission (fresh rq 1) (now rq) (key_id caller) RESOURCE_SYNC_TASK (fresh rq 0) db2 = Inr db3"
    and a: "create_audit_log (fresh rq 2) (now rq) caller (client_ip rq) ''SYNC_TASK_CREATE'' (Some (ct_name p)) None db3 = Inr db'"
    using assms by (auto simp: create_task_txn_def)
  show ?thesis
    using i insert_targets_keeps(1) [OF t] grant_keeps [OF g] audit_keeps [OF a] audit_ok [OF a] by (simp add: insert_task_Inr)
qed

lemma replace_task_targets_effect:
  assumes "replace_task_targets i ts db = Inr db'" "db_ok db"
  shows "db_ok db' \<and> groups db' = groups db \<and> tasks db' = tasks db"
  using assms insert_targets_ok(2) delete_ok(2)
  by (fastforce simp: replace_task_targets_def delete_task_targets_def split: option.splits dest!: insert_targets_keeps)

lemma update_task_txn_effect:
  assumes "update_task_txn rq caller i row ts db = Inr db'"
  shows "db_ok db' \<and> groups db' = groups db \<and> tasks db' = replace_row task_id row (tasks db) \<and> has_task db (task_id row)"
proof -
  obtain db1 db2 where u: "update_task row db = Inr db1" and r: "replace_task_targets i ts db1 = Inr db2"
    and a: "create_audit_log (fresh rq 0) (now rq) caller (client_ip rq) ''SYNC_TASK_UPDATE'' (Some (task_name row)) None db2 = Inr db'"
    using assms by (auto simp: update_task_txn_def)
  have "db_ok db1" using u by (rule statement_ok)
  then show ?thesis
    using u replace_task_targets_effect [OF r] audit_keeps [OF a] audit_ok [OF a] by (simp add: update_task_Inr)
qed

lemma find_task_append:
  "db_ok db' \<Longrightarrow> tasks db' = tasks db @ [t] \<Longrightarrow> find_task db' j = (if j = task_id t then Some t else find_task db j)"
  by (simp add: find_task_def db_ok_defs find_append_row)

lemma find_task_replace:
  "has_task db (task_id t) \<Longrightarrow> tasks db' = replace_row task_id t (tasks db) \<Longrightarrow>
     find_task db' j = (if j = task_id t then Some t else find_task db j)"
  by (simp add: find_task_def has_task_def find_replace_row)

lemma follows_same:
  "follows R bk live (st\<lparr>app_db := d, app_sched := h\<rparr>) \<Longrightarrow> groups db = groups d \<Longrightarrow> tasks db = tasks d \<Longrightarrow>
   follows R bk live (st\<lparr>app_sched := h, app_db := db\<rparr>)"
  using wanted_cong [of db d bk] by (simp add: follows_def)

lemma follows_if:
  "(b \<Longrightarrow> follows R bk live (snd x)) \<Longrightarrow> (\<not> b \<Longrightarrow> follows R bk live (snd y)) \<Longrightarrow> follows R bk live (snd (if b then x else y))"
  by simp

text \<open>What every handler does to the schedule, for any reflexive relation.\<close>

locale schedule_follower = reliable_backend +
  fixes R :: "string set \<Rightarrow> string set \<Rightarrow> bool"
  assumes R_refl: "R x x"
begin

lemma follows_upsert_task:
  assumes "follows R bk live st" "groups db' = groups (app_db st)"
    and "\<And>j. find_task db' j = (if j = task_id t then Some t else find_task (app_db st) j)"
  shows "follows R bk live (st\<lparr>app_db := db', app_sched := upsert_task bk t (app_sched st)\<rparr>)"
  using assms(1) upserts_spec(2) [of "app_sched st" t] wanted_task_set [OF assms(2,3), of bk] by (simp add: follows_def R_refl)

lemma follows_remove_task:
  assumes "follows R bk live st" "groups db' = groups (app_db st)"
    and "\<And>j. find_task db' j = (if j = i then None else find_task (app_db st) j)"
  shows "follows R bk live (st\<lparr>app_db := db', app_sched := remove_task bk i (app_sched st)\<rparr>)"
  using assms(1) removes_spec(2) [of "app_sched st" i] wanted_task_set [OF assms(2,3), of bk] by (simp add: follows_def R_refl)

lemma follows_create_task:
  assumes "follows R bk live st"
  shows "follows R bk live (snd (create_vault_sync_task bk rq caller p st))"
  unfolding create_vault_sync_task_def Let_def
  by (intro try_h_snd_cases [where P = "follows R bk live"] assms)
    (auto dest!: create_task_txn_effect intro!: follows_upsert_task assms find_task_append)

lemma follows_update_task:
  assumes "follows R bk live st"
  shows "follows R bk live (snd (update_vault_sync_task bk rq caller i p st))"
  unfolding update_vault_sync_task_def Let_def
  by (intro try_h_snd_cases [where P = "follows R bk live"] assms)
    (auto dest!: update_task_txn_effect intro!: follows_upsert_task assms find_task_replace)

lemma delete_task_row_find: "find_task (delete_task_row i db) j = (if j = i then None else find_task db j)"
  by (simp add: find_task_def delete_task_row_def find_filter_row)

lemma follows_delete_task:
  assumes "follows R bk live st"
  shows "follows R bk live (snd (delete_vault_sync_task bk rq caller i st))"
proof -
  have "follows R bk live (st\<lparr>app_db := delete_task_row i (app_db st), app_sched := remove_task bk i (app_sched st)\<rparr>)"
    by (rule follows_remove_task [OF assms]) (simp_all add: delete_task_row_find, simp add: delete_task_row_def delete_tasks_where_def)
  then show ?thesis
    using assms unfolding delete_vault_sync_task_def Let_def
    by (intro try_h_snd_cases [where P = "follows R bk live"] follows_if) (auto dest!: audit_keeps intro: follows_same)
qed

end

sublocale reliable_backend \<subseteq> exact: schedule_follower bk live "(=)"
  by unfold_locales simp

sublocale reliable_backend \<subseteq> cover: schedule_follower bk live covered
  by unfold_locales (simp add: covered_def)

context reliable_backend
begin

lemmas exact_follower = exact.schedule_follower_axioms
lemmas cover_follower = cover.schedule_follower_axioms

end

section \<open>Requests\<close>

datatype task_request =
    CreateTask create_task_payload
  | UpdateTask uuid update_task_payload
  | DeleteTask uuid

fun handle_task ::
  "('b, 'j) cron_backend \<Rightarrow> request_env \<Rightarrow> api_key \<Rightarrow> task_request \<Rightarrow> ('b, 'j) app_state \<Rightarrow> bool \<times> ('b, 'j) app_state"
where
  "handle_task bk rq caller (CreateTask p) st = (case create_vault_sync_task bk rq caller p st of (r, st') \<Rightarrow> (\<not> isl r, st'))"
| "handle_task bk rq caller (UpdateTask i p) st = (case update_vault_sync_task bk rq caller i p st of (r, st') \<Rightarrow> (\<not> isl r, st'))"
| "handle_task bk rq caller (DeleteTask i) st = (case delete_vault_sync_task bk rq caller i st of (r, st') \<Rightarrow> (\<not> isl r, st'))"

lemma snd_handle_task:
  "snd (handle_task bk rq caller (CreateTask p) st) = snd (create_vault_sync_task bk rq caller p st)"
  "snd (handle_task bk rq caller (UpdateTask i u) st) = snd (update_vault_sync_task bk rq caller i u st)"
  "snd (handle_task bk rq caller (DeleteTask i) st) = snd (delete_vault_sync_task bk rq caller i st)"
  by (simp_all add: prod.case_eq_if)

context schedule_follower
begin

lemma follows_task_request:
  assumes "follows R bk live st"
  shows "follows R bk live (snd (handle_task bk rq caller r st))"
  using follows_create_task [OF assms] follows_update_task [OF assms] follows_delete_task [OF assms]
  by (cases r) (simp_all only: snd_handle_task)

end

lemma new_task_owner [simp]: "task_owner_key_id (new_task rq caller p) = Some (key_id caller)"
  by (simp add: new_task_def)

lemma audit_effect:
  "create_audit_log i t k ip act tr d db = Inr db' \<Longrightarrow> db_ok db' \<and> tasks db' = tasks db \<and> groups db' = groups db \<and> feeds db' = feeds db"
  using audit_ok audit_keeps by blast

lemma create_task_db:
  "row_effect task_id task_owner_key_id ''sync_task'' (can_manage_vaults caller) caller (app_db st) (tasks (app_db st))
     (tasks (app_db (snd (create_vault_sync_task bk rq caller p st)))) \<and>
   (db_ok (app_db st) \<longrightarrow> db_ok (app_db (snd (create_vault_sync_task bk rq caller p st))))"
  unfolding create_vault_sync_task_def Let_def
  by (auto simp: try_h_def guard_simps split: sum.splits dest!: create_task_txn_effect intro!: re_none re_create)

lemma update_task_db:
  "row_effect task_id task_owner_key_id ''sync_task'' (can_manage_vaults caller) caller (app_db st) (tasks (app_db st))
     (tasks (app_db (snd (update_vault_sync_task bk rq caller i p st)))) \<and>
   (db_ok (app_db st) \<longrightarrow> db_ok (app_db (snd (update_vault_sync_task bk rq caller i p st))))"
proof -
  have "row_effect task_id task_owner_key_id ''sync_task'' c caller db (tasks db) (replace_row task_id (apply_task_update t p old) (tasks db))"
    if "find_task db i = Some old" "manages db caller RESOURCE_SYNC_TASK i" for db old t c
    using that find_task_Some [OF that(1)]
    by (intro re_update [of _ _ _ _ old]) (auto simp: apply_task_update_def RESOURCE_SYNC_TASK_def)
  then show ?thesis
    unfolding update_vault_sync_task_def Let_def
    by (auto simp: try_h_def manages_guard split: sum.splits dest!: update_task_txn_effect intro: re_none)
qed

lemma delete_task_db:
  "row_effect task_id task_owner_key_id ''sync_task'' (can_manage_vaults caller) caller (app_db st) (tasks (app_db st))
     (tasks (app_db (snd (delete_vault_sync_task bk rq caller i st)))) \<and>
   (db_ok (app_db st) \<longrightarrow> db_ok (app_db (snd (delete_vault_sync_task bk rq caller i st))))"
proof -
  have "row_effect task_id task_owner_key_id ''sync_task'' c caller db (tasks db) (tasks (delete_task_row i db))"
    if "find_task db i = Some old" "governs caller (task_owner_key_id old)" for db old c
    using that find_task_Some [OF that(1)] re_delete [of caller task_owner_key_id old "tasks db" task_id]
    by (simp add: delete_task_row_def)
  then show ?thesis
    unfolding delete_vault_sync_task_def Let_def
    by (auto simp: try_h_def governs_guard delete_ok split: sum.splits dest!: audit_effect intro: re_none)
qed

lemmas task_db = create_task_db update_task_db delete_task_db

text \<open>
  C21. A synchronisation task changes only by a caller that may change it, for every request: it
  disappears only for the Master or its owner, changes only for a caller that manages it and
  keeps its owner, and belongs to its creator, who may manage vaults; all constraints hold after.\<close>

theorem task_changes_authorized:
  assumes "db_ok (app_db st)"
  shows "row_authorized task_id task_owner_key_id ''sync_task'' (can_manage_vaults caller) caller (app_db st)
      (tasks (app_db st)) (tasks (app_db (snd (handle_task bk rq caller r st)))) \<and>
    db_ok (app_db (snd (handle_task bk rq caller r st)))"
proof -
  have "row_effect task_id task_owner_key_id ''sync_task'' (can_manage_vaults caller) caller (app_db st) (tasks (app_db st))
      (tasks (app_db (snd (handle_task bk rq caller r st))))" and ok: "db_ok (app_db (snd (handle_task bk rq caller r st)))"
    using assms by (cases r; simp only: snd_handle_task task_db)+
  from row_effect_authorized [OF this(1)] show ?thesis
    using assms ok by (simp add: db_ok_defs)
qed

text \<open>
  The live cron jobs mirror the database through every task request: when before a request each
  active task and group has exactly its job and nothing else is scheduled, so it is after,
  whether the request succeeds or fails.\<close>

theorem task_requests_keep_schedule:
  assumes "reliable_backend bk live" "mirrors bk live st"
  shows "mirrors bk live (snd (handle_task bk rq caller r st))"
  using schedule_follower.follows_task_request [OF reliable_backend.exact_follower [OF assms(1)]] assms(2) by (simp add: mirrors_follows)

text \<open>
  Creating or updating a task is atomic: when the request fails, at whatever statement, neither
  the database nor the schedule nor the running jobs have changed.\<close>

theorem failed_task_write_changes_nothing:
  assumes "(\<exists>p. r = CreateTask p) \<or> (\<exists>i u. r = UpdateTask i u)" "handle_task bk rq caller r st = (False, st')"
  shows "st' = st"
  using assms
  by (auto simp: create_vault_sync_task_def update_vault_sync_task_def try_h_def Let_def split: sum.splits prod.splits)

text \<open>
  A manual trigger leaves the job slots and the schedule as it found them on every exit, and a
  trigger of a task that is already running is refused without any effect.\<close>

theorem trigger_task_slots:
  assumes "trigger_vault_sync_task nets env rq caller i st w = Some ((r, st'), w')"
  shows "app_jobs st' = app_jobs st \<and> app_sched st' = app_sched st \<and>
    (i \<in> running (app_jobs st) \<longrightarrow> isl r \<and> st' = st \<and> w' = w)"
  using assms
  by (auto simp: trigger_vault_sync_task_def try_start_job_def job_guard_drop_def
      split: option.splits sum.splits prod.splits bool.splits if_splits)

text \<open>
  The exception: deleting a vault endpoint removes the tasks that read from it with their rows,
  but its handler never tells the scheduler, so the cron job of such a task stays live after its
  task is gone, and the schedule no longer mirrors the database.\<close>

theorem vault_delete_orphans_jobs:
  assumes "mirrors bk live st" "db_ok (app_db st)" "delete_vault_endpoint rq caller i (app_db st) = (Inr u, db')"
    and "t \<in> set (tasks (app_db st))" "task_source_vault_id t = i"
    and "c \<in> active_cron bk (task_is_active t) (task_cron_schedule t)"
  shows "find_task db' (task_id t) = None \<and> c \<in> schedule live (backend (app_sched st)) (SyncTask (task_id t)) \<and>
    \<not> mirrors bk live (st\<lparr>app_db := db'\<rparr>)"
proof -
  have found: "find_task (app_db st) (task_id t) = Some t"
    using assms(2,4) by (simp add: find_task_def db_ok_defs find_distinct)
  have "audited (delete_vault_row i (app_db st)) db'"
    using assms(3) by (auto simp: delete_vault_endpoint_def Let_def try_h_eq_Inr split: if_splits dest: audited_log)
  then have "tasks db' = filter (\<lambda>t. task_source_vault_id t \<noteq> i) (tasks (app_db st))"
    by (auto simp: audited_def delete_vault_row_def Let_def)
  moreover have "x = t" if "x \<in> set (tasks (app_db st))" "task_id x = task_id t" for x
    using that assms(2,4) distinct_map_eq [of task_id "tasks (app_db st)"] by (simp add: db_ok_defs)
  ultimately have gone: "find_task db' (task_id t) = None"
    using assms(5) by (auto simp: find_task_def find_None_iff)
  have "c \<in> schedule live (backend (app_sched st)) (SyncTask (task_id t))"
    using assms(1,6) found by (simp add: mirrors_def)
  with gone show ?thesis by (auto simp: mirrors_def)
qed

section \<open>Witnesses\<close>

definition cron_task :: vault_sync_task where
  "cron_task = \<lparr>task_id = 30, task_name = ''t'', task_source_vault_id = 10, task_source_group_name = ''g'',
     task_target_group_name = ''g'', task_cron_schedule = ''0 0 * * *'', task_last_sync_at = None, task_mode = ''upsert'',
     task_is_active = True, task_skip_bogon_filtering = False, task_owner_key_id = Some 1, task_created_at = 0, task_updated_at = 0\<rparr>"

definition task_db0 :: database where
  "task_db0 = (sample_db None)\<lparr>tasks := [cron_task]\<rparr>"

definition task_st :: "(job_store, nat) app_state" where
  "task_st = \<lparr>app_db = task_db0, app_sched = boot table_backend task_db0 (scheduler_new empty_jobs),
     app_jobs = \<lparr>running = {30}, running_poisoned = False\<rparr>\<rparr>"

lemma task_db0_ok: "db_ok task_db0" "db_ok (app_db task_st)"
proof -
  show "db_ok task_db0" by code_simp
  then show "db_ok (app_db task_st)" by (simp add: task_st_def)
qed

lemma task_st_mirrors: "mirrors table_backend table_live task_st"
proof -
  have "table_live empty_jobs = Map.empty" by (simp add: table_live_def empty_jobs_def fun_eq_iff)
  from table_jobs.boot_mirrors [OF this task_db0_ok(1)] show ?thesis by (simp add: mirrors_def task_st_def)
qed

definition bad_cron :: update_task_payload where
  "bad_cron = \<lparr>ut_name = Some ''n'', ut_source_vault_id = None, ut_source_group_name = None, ut_target_group_name = None,
     ut_cron_schedule = Some ''* *'', ut_is_active = None, ut_skip_bogon_filtering = None, ut_targets = None\<rparr>"

theorem task_changes_authorized_witness:
  "db_ok (app_db (snd (handle_task table_backend sample_rq sample_master (DeleteTask 30) task_st)))"
  by (rule conjunct2 [OF task_changes_authorized [OF task_db0_ok(2)]])

theorem task_requests_keep_schedule_witness:
  "mirrors table_backend table_live (snd (handle_task table_backend sample_rq sample_master (DeleteTask 30) task_st))"
  by (rule task_requests_keep_schedule [OF table_jobs.reliable_backend_axioms task_st_mirrors])

theorem failed_task_write_changes_nothing_witness:
  "snd (handle_task table_backend sample_rq sample_master (UpdateTask 30 bad_cron) task_st) = task_st \<and>
   \<not> fst (handle_task table_backend sample_rq sample_master (UpdateTask 30 bad_cron) task_st)"
proof -
  let ?run = "handle_task table_backend sample_rq sample_master (UpdateTask 30 bad_cron) task_st"
  have "check_cron_opt table_backend (ut_cron_schedule bad_cron) = Inl (InvalidInput ''invalid cron_schedule: invalid cron'')"
    by code_simp
  then have "\<not> fst ?run"
    by (simp add: update_vault_sync_task_def try_h_def split: sum.splits prod.splits)
  moreover from this have "snd ?run = task_st"
    by (intro failed_task_write_changes_nothing [of "UpdateTask 30 bad_cron" table_backend sample_rq sample_master])
      (auto simp: prod_eq_iff)
  ultimately show ?thesis by simp
qed

theorem trigger_task_slots_witness:
  "\<exists>r st' w'. trigger_vault_sync_task cidr_ops sim_env sample_rq sample_master 30 task_st \<lparr>sim_live = (\<lambda>_. {}), sim_limit = 2\<rparr>
      = Some ((r, st'), w') \<and> app_jobs st' = app_jobs task_st \<and> st' = task_st"
proof -
  have "find_task (app_db task_st) 30 = Some cron_task" by (simp add: task_st_def task_db0_def find_task_def cron_task_def)
  moreover have "guard_can_sync sample_master p = Inr ()" for p
    by (simp add: guard_simps sample_master_def plain_key_def)
  moreover have "try_start_job (app_jobs task_st) 30 = (False, app_jobs task_st)"
    by (simp add: task_st_def try_start_job_def)
  ultimately obtain r st' w' where run: "trigger_vault_sync_task cidr_ops sim_env sample_rq sample_master 30 task_st
      \<lparr>sim_live = (\<lambda>_. {}), sim_limit = 2\<rparr> = Some ((r, st'), w')"
    by (simp add: trigger_vault_sync_task_def)
  moreover have "30 \<in> running (app_jobs task_st)" by (simp add: task_st_def)
  ultimately show ?thesis using trigger_task_slots [OF run] by blast
qed

theorem vault_delete_orphans_jobs_witness:
  "\<exists>db'. delete_vault_endpoint sample_rq sample_master 10 (app_db task_st) = (Inr (), db') \<and>
     ''0 0 0 * * *'' \<in> schedule table_live (backend (app_sched task_st)) (SyncTask 30) \<and>
     \<not> mirrors table_backend table_live (task_st\<lparr>app_db := db'\<rparr>)"
proof -
  have db: "app_db task_st = task_db0" by (simp add: task_st_def)
  have "fst (delete_vault_endpoint sample_rq sample_master 10 task_db0) = Inr ()" by code_simp
  then obtain db' where run: "delete_vault_endpoint sample_rq sample_master 10 (app_db task_st) = (Inr (), db')"
    unfolding db by (cases "delete_vault_endpoint sample_rq sample_master 10 task_db0") auto
  have "cron_task \<in> set (tasks (app_db task_st))" "task_source_vault_id cron_task = 10" "task_id cron_task = 30"
    by (simp_all add: db task_db0_def cron_task_def)
  moreover have "''0 0 0 * * *'' \<in> active_cron table_backend (task_is_active cron_task) (task_cron_schedule cron_task)"
    by code_simp
  ultimately show ?thesis
    using vault_delete_orphans_jobs [OF task_st_mirrors task_db0_ok(2) run, of cron_task] run by auto
qed

end
