(* ===== verification/Parsers.thy ===== *)
theory Parsers
  imports IpNet
begin

text \<open>
  \<open>src/parsers/\<close>: the two feed parsers and the normal form of an address. The crates they call
  are the fields of \<open>feed_ops\<close>: the matches of the fixed token pattern (\<open>regex\<close>), JSON reading
  (\<open>serde_json\<close>) and the two date readers (\<open>chrono\<close>). A JSON object is its entries in the
  order of the map, with distinct keys.

  The lemmas show that whatever a parser returns is in normal form, that the comment stripping
  removes exactly the comments, and that a configuration accepted at save time cannot fail later.
\<close>

section \<open>Interfaces\<close>

datatype json = JNull | JBool bool | JNum string | JStr string | JArr "json list" | JObj "(string \<times> json) list"

record feed_ops =
  ip_tokens :: "string \<Rightarrow> string list"
  json_parse :: "bytes \<Rightarrow> string + json"
  parse_rfc3339 :: "string \<Rightarrow> instant option"
  parse_day :: "string \<Rightarrow> instant option"

fun as_str :: "json \<Rightarrow> string option" where
  "as_str (JStr s) = Some s"
| "as_str _ = None"

fun as_bool :: "json \<Rightarrow> bool option" where
  "as_bool (JBool b) = Some b"
| "as_bool _ = None"

fun as_object :: "json \<Rightarrow> (string \<times> json) list option" where
  "as_object (JObj kvs) = Some kvs"
| "as_object _ = None"

fun as_array :: "json \<Rightarrow> json list option" where
  "as_array (JArr xs) = Some xs"
| "as_array _ = None"

fun json_get :: "json \<Rightarrow> string \<Rightarrow> json option" where
  "json_get (JObj kvs) k = map_of kvs k"
| "json_get _ k = None"

section \<open>Records and errors\<close>

datatype parse_error = InvalidConfig string | MalformedBody string

fun show_parse_error :: "parse_error \<Rightarrow> string" where
  "show_parse_error (InvalidConfig e) = ''invalid parser configuration: '' @ e"
| "show_parse_error (MalformedBody e) = ''malformed feed body: '' @ e"

record parsed_record =
  pr_address :: string
  pr_last_seen_at :: "instant option"

definition normalize_ip_or_cidr :: "'n ipnet_ops \<Rightarrow> string \<Rightarrow> string option" where
  "normalize_ip_or_cidr nets input =
     (let trimmed = trim input in
      case net_parse nets trimmed of
        Some net \<Rightarrow>
          let max_prefixlen = (case net_ip nets net of V4 _ \<Rightarrow> 32 | V6 _ \<Rightarrow> 128) in
          Some (if net_prefix nets net = max_prefixlen then show_ip (net_ip nets net) else net_to_string nets net)
      | None \<Rightarrow> map_option show_ip (parse_ip trimmed))"

section \<open>Lines\<close>

definition cut_at :: "nat \<Rightarrow> nat option \<Rightarrow> nat" where
  "cut_at k found = (case found of None \<Rightarrow> k | Some i \<Rightarrow> min k i)"

definition strip_inline_comment :: "string \<Rightarrow> string" where
  "strip_inline_comment line =
     take (cut_at (cut_at (cut_at (length line) (find_str ''#'' line)) (find_str '';'' line)) (find_str ''//'' line)) line"

definition netblock_and_prefix :: "'n ipnet_ops \<Rightarrow> string \<Rightarrow> string option" where
  "netblock_and_prefix nets trimmed =
     (let fields = split_whitespace trimmed in
      case fields of
        [] \<Rightarrow> None
      | base # _ \<Rightarrow>
          if parse_ip base = None then None
          else case (case fields of [_, f] \<Rightarrow> Some f | _ # _ # f # _ \<Rightarrow> Some f | _ \<Rightarrow> None) of
                 None \<Rightarrow> None
               | Some prefix_field \<Rightarrow>
                  (case parse_uint u8_max prefix_field of
                     None \<Rightarrow> None
                   | Some prefix \<Rightarrow> normalize_ip_or_cidr nets (base @ CHR ''/'' # dec prefix)))"

definition plain_record :: "string \<Rightarrow> parsed_record" where
  "plain_record a = \<lparr>pr_address = a, pr_last_seen_at = None\<rparr>"

definition regex_line_records :: "'n ipnet_ops \<Rightarrow> feed_ops \<Rightarrow> string \<Rightarrow> parsed_record list" where
  "regex_line_records nets ops line =
     (let trimmed = trim (strip_inline_comment line) in
      if trimmed = [] then []
      else case netblock_and_prefix nets trimmed of
             Some combined \<Rightarrow> [plain_record combined]
           | None \<Rightarrow> map plain_record (List.map_filter (normalize_ip_or_cidr nets) (ip_tokens ops trimmed)))"

definition regex_line_parse ::
  "'n ipnet_ops \<Rightarrow> feed_ops \<Rightarrow> bytes \<Rightarrow> string option \<Rightarrow> parse_error + parsed_record list" where
  "regex_line_parse nets ops raw config =
     Inr (concat (map (regex_line_records nets ops) (lines (from_utf8_lossy raw))))"

section \<open>JSON paths\<close>

definition dquote :: string where
  "dquote = [CHR 0x22]"

definition parse_selector :: "string \<Rightarrow> string + string list" where
  "parse_selector raw =
     (case strip_prefix ''$.'' raw of
        None \<Rightarrow> Inl (''selector '' @ squoted raw @ '' must start with '' @ squoted ''$.'' @ '' (e.g. '' @ dquote @ ''$.ipAddress'' @ dquote @ '')'')
      | Some rest \<Rightarrow>
          if rest = [] then Inl (''selector '' @ squoted raw @ '' must name at least one field after '' @ squoted ''$.'')
          else Inr (split_char (CHR ''.'') rest))"

fun walk_selector :: "json \<Rightarrow> string list \<Rightarrow> json option" where
  "walk_selector current [] = Some current"
| "walk_selector current (segment # rest) =
     (case json_get current segment of None \<Rightarrow> None | Some v \<Rightarrow> walk_selector v rest)"

definition parse_last_seen_at :: "feed_ops \<Rightarrow> string \<Rightarrow> instant option" where
  "parse_last_seen_at ops raw =
     (case parse_rfc3339 ops raw of Some t \<Rightarrow> Some t | None \<Rightarrow> parse_day ops raw)"

record json_path_config =
  jp_array_path :: "string option"
  jp_target_address :: "string list"
  jp_last_seen_at :: "string list option"
  jp_jsonl :: bool

definition str_field :: "(string \<times> json) list \<Rightarrow> string \<Rightarrow> string option" where
  "str_field obj k = (case map_of obj k of None \<Rightarrow> None | Some v \<Rightarrow> as_str v)"

definition str_field_or :: "(string \<times> json) list \<Rightarrow> string \<Rightarrow> string \<Rightarrow> string option" where
  "str_field_or obj k alias = (case str_field obj k of Some s \<Rightarrow> Some s | None \<Rightarrow> str_field obj alias)"

definition missing_target_message :: string where
  "missing_target_message =
     ''parser_config_json must set '' @ dquote @ ''target_address'' @ dquote @ '' (or its alias '' @ dquote @ ''ip'' @ dquote
     @ '') to a '' @ squoted ''$.'' @ ''-prefixed field selector, e.g. '' @ dquote @ ''$.ipAddress'' @ dquote"

definition json_path_config_parse :: "feed_ops \<Rightarrow> string \<Rightarrow> string + json_path_config" where
  "json_path_config_parse ops config_str =
     ebind (map_err (\<lambda>e. ''invalid parser_config_json: '' @ e) (json_parse ops config_str)) (\<lambda>value.
     ebind (ok_or ''parser_config_json must be a JSON object'' (as_object value)) (\<lambda>obj.
     let array_path = str_field obj ''array_path'';
         jsonl = (case map_of obj ''jsonl'' of None \<Rightarrow> False | Some v \<Rightarrow> (case as_bool v of None \<Rightarrow> False | Some b \<Rightarrow> b)) in
     ebind (ok_or missing_target_message (str_field_or obj ''target_address'' ''ip'')) (\<lambda>raw.
     ebind (parse_selector raw) (\<lambda>target_address.
     ebind (case str_field_or obj ''last_seen_at'' ''timestamp'' of
              None \<Rightarrow> Inr None
            | Some s \<Rightarrow> ebind (parse_selector s) (\<lambda>sel. Inr (Some sel))) (\<lambda>last_seen_at.
     Inr \<lparr>jp_array_path = array_path, jp_target_address = target_address, jp_last_seen_at = last_seen_at, jp_jsonl = jsonl\<rparr>)))))"

definition needs_config_message :: string where
  "needs_config_message = ''JSON_PATH requires parser_config_json with a target_address selector''"

definition validate_config :: "feed_ops \<Rightarrow> string option \<Rightarrow> string + unit" where
  "validate_config ops config =
     ebind (ok_or needs_config_message config) (\<lambda>c. ebind (json_path_config_parse ops c) (\<lambda>_. Inr ()))"

definition extract_record :: "'n ipnet_ops \<Rightarrow> feed_ops \<Rightarrow> json_path_config \<Rightarrow> json \<Rightarrow> parsed_record option" where
  "extract_record nets ops cfg item =
     (case walk_selector item (jp_target_address cfg) of None \<Rightarrow> None | Some v \<Rightarrow>
     (case as_str v of None \<Rightarrow> None | Some candidate \<Rightarrow>
     (case normalize_ip_or_cidr nets candidate of None \<Rightarrow> None | Some address \<Rightarrow>
      Some \<lparr>pr_address = address,
            pr_last_seen_at =
              (case jp_last_seen_at cfg of None \<Rightarrow> None | Some sel \<Rightarrow>
              (case walk_selector item sel of None \<Rightarrow> None | Some t \<Rightarrow>
              (case as_str t of None \<Rightarrow> None | Some s \<Rightarrow> parse_last_seen_at ops s)))\<rparr>)))"

definition extract_records :: "'n ipnet_ops \<Rightarrow> feed_ops \<Rightarrow> json_path_config \<Rightarrow> json list \<Rightarrow> parsed_record list" where
  "extract_records nets ops cfg items = List.map_filter (extract_record nets ops cfg) items"

definition parse_jsonl :: "'n ipnet_ops \<Rightarrow> feed_ops \<Rightarrow> json_path_config \<Rightarrow> bytes \<Rightarrow> parse_error + parsed_record list" where
  "parse_jsonl nets ops cfg raw =
     Inr (extract_records nets ops cfg
       (List.map_filter (\<lambda>line. ok_opt (json_parse ops line))
          (filter (\<lambda>line. line \<noteq> []) (map trim (lines (from_utf8_lossy raw))))))"

definition walk_dotted_path :: "json \<Rightarrow> string \<Rightarrow> json option" where
  "walk_dotted_path root path = walk_selector root (filter (\<lambda>s. s \<noteq> []) (split_char (CHR ''.'') path))"

definition json_path_parse ::
  "'n ipnet_ops \<Rightarrow> feed_ops \<Rightarrow> bytes \<Rightarrow> string option \<Rightarrow> parse_error + parsed_record list" where
  "json_path_parse nets ops raw config =
     ebind (ok_or (InvalidConfig needs_config_message) config) (\<lambda>config_str.
     ebind (map_err InvalidConfig (json_path_config_parse ops config_str)) (\<lambda>cfg.
     if jp_jsonl cfg then parse_jsonl nets ops cfg raw
     else
     ebind (map_err MalformedBody (json_parse ops raw)) (\<lambda>root.
     ebind (case jp_array_path cfg of
              Some path \<Rightarrow> ok_or (InvalidConfig (''array_path '' @ squoted path @ '' not found in feed body'')) (walk_dotted_path root path)
            | None \<Rightarrow> Inr root) (\<lambda>array.
     ebind (ok_or (InvalidConfig ''array_path did not resolve to a JSON array'') (as_array array)) (\<lambda>items.
     Inr (extract_records nets ops cfg items))))))"

section \<open>Choosing a parser\<close>

definition for_type ::
  "'n ipnet_ops \<Rightarrow> feed_ops \<Rightarrow> string \<Rightarrow> parse_error + (bytes \<Rightarrow> string option \<Rightarrow> parse_error + parsed_record list)" where
  "for_type nets ops parser_type =
     (if parser_type = ''REGEX_LINE'' then Inr (regex_line_parse nets ops)
      else if parser_type = ''JSON_PATH'' then Inr (json_path_parse nets ops)
      else Inl (InvalidConfig (''unknown parser_type '' @ squoted parser_type)))"

definition parse_feed ::
  "'n ipnet_ops \<Rightarrow> feed_ops \<Rightarrow> string \<Rightarrow> bytes \<Rightarrow> string option \<Rightarrow> parse_error + parsed_record list" where
  "parse_feed nets ops parser_type body config = ebind (for_type nets ops parser_type) (\<lambda>p. p body config)"

section \<open>The normal form\<close>

lemma ip_char_no_ws: "ip_char c \<Longrightarrow> \<not> is_ws c"
  by (auto simp: ip_char_def is_ws_def to_digit_def Let_def split: if_splits)

lemma show_ip_chars: "c \<in> set (show_ip a) \<Longrightarrow> ip_char c"
  by (rule parse_ip_chars [OF parse_ip_show_ip])

lemma trim_show_ip [simp]: "trim (show_ip a) = show_ip a"
  by (rule trim_no_ws) (blast dest: show_ip_chars ip_char_no_ws)

lemma show_ip_no_slash [simp]: "CHR ''/'' \<notin> set (show_ip a)"
  using show_ip_chars by fastforce

lemma dec_no_ws: "c \<in> set (dec n) \<Longrightarrow> \<not> is_ws c"
  using dec_digits [of c n] by (auto simp: is_ascii_digit_def is_ws_def Let_def)

lemma dec_inject [simp]: "dec m = dec n \<longleftrightarrow> m = n"
  by (metis max.cobounded1 max.cobounded2 option.inject parse_uint_dec)

lemma trim_show_net [simp]: "trim (show_ip a @ CHR ''/'' # dec n) = show_ip a @ CHR ''/'' # dec n"
proof (rule trim_no_ws)
  fix c assume "c \<in> set (show_ip a @ CHR ''/'' # dec n)"
  then consider "c \<in> set (show_ip a)" | "c = CHR ''/''" | "c \<in> set (dec n)" by auto
  then show "\<not> is_ws c"
    using show_ip_chars ip_char_no_ws dec_no_ws by cases (auto simp: is_ws_def)
qed

context ip_network
begin

lemma normalize_parsed:
  assumes "net_parse ops (trim s) = Some net"
  shows "normalize_ip_or_cidr ops s =
    Some (if net_prefix ops net = ip_width (net_ip ops net) then show_ip (net_ip ops net) else net_to_string ops net)"
  using assms by (auto simp: normalize_ip_or_cidr_def Let_def split: ip_addr.splits)

lemma normalize_Some_iff: "(\<exists>t. normalize_ip_or_cidr ops s = Some t) \<longleftrightarrow> (\<exists>net. net_parse ops (trim s) = Some net)"
proof (cases "net_parse ops (trim s)")
  case None
  then have "parse_ip (trim s) = None" using parse_bare [of "trim s"] by (cases "parse_ip (trim s)") auto
  with None show ?thesis by (simp add: normalize_ip_or_cidr_def)
qed (auto simp: normalize_parsed)

lemma normalize_idem:
  assumes "normalize_ip_or_cidr ops s = Some t"
  shows "normalize_ip_or_cidr ops t = Some t"
proof -
  obtain net where net: "net_parse ops (trim s) = Some net" using assms normalize_Some_iff by blast
  show ?thesis
  proof (cases "net_prefix ops net = ip_width (net_ip ops net)")
    case True
    then have t: "t = show_ip (net_ip ops net)" using assms normalize_parsed [OF net] by simp
    obtain m where "net_parse ops t = Some m" "net_ip ops m = net_ip ops net" "net_prefix ops m = ip_width (net_ip ops net)"
      using parse_bare [OF parse_ip_show_ip] t by blast
    then show ?thesis using normalize_parsed [of t m] by (simp add: t)
  next
    case False
    then have t: "t = net_to_string ops net" using assms normalize_parsed [OF net] by simp
    obtain m where "net_parse ops t = Some m" "net_ip ops m = net_ip ops net" "net_prefix ops m = net_prefix ops net"
      using parse_to_string t by blast
    then show ?thesis using normalize_parsed [of t m] False by (simp add: t to_string_eq)
  qed
qed

lemma normalize_eq_iff:
  assumes "net_parse ops (trim s) = Some m" "net_parse ops (trim s') = Some n"
  shows "normalize_ip_or_cidr ops s = normalize_ip_or_cidr ops s' \<longleftrightarrow>
    net_ip ops m = net_ip ops n \<and> net_prefix ops m = net_prefix ops n"
proof -
  have "CHR ''/'' \<notin> set (show_ip a)" for a by simp
  then show ?thesis
    unfolding normalize_parsed [OF assms(1)] normalize_parsed [OF assms(2)] to_string_eq
    by (auto simp: append_sep_inject dec_inject) (metis in_set_conv_decomp show_ip_no_slash)+
qed

lemma plain_records_normal:
  "r \<in> set (map plain_record (List.map_filter (normalize_ip_or_cidr ops) xs)) \<Longrightarrow>
   normalize_ip_or_cidr ops (pr_address r) = Some (pr_address r)"
  by (auto simp: List.map_filter_def plain_record_def dest: normalize_idem)

lemma regex_records_normal:
  "r \<in> set (regex_line_records ops fo line) \<Longrightarrow> normalize_ip_or_cidr ops (pr_address r) = Some (pr_address r)"
  using plain_records_normal
  by (auto simp: regex_line_records_def netblock_and_prefix_def Let_def plain_record_def split: if_splits option.splits list.splits
      dest: normalize_idem)

lemma extract_record_normal:
  "extract_record ops fo cfg item = Some r \<Longrightarrow> normalize_ip_or_cidr ops (pr_address r) = Some (pr_address r)"
  by (auto simp: extract_record_def split: option.splits dest: normalize_idem)

lemma extract_records_normal:
  "r \<in> set (extract_records ops fo cfg items) \<Longrightarrow> normalize_ip_or_cidr ops (pr_address r) = Some (pr_address r)"
  by (auto simp: extract_records_def List.map_filter_def dest: extract_record_normal)

lemma parse_feed_normal:
  assumes "parse_feed ops fo ty body config = Inr rs" "r \<in> set rs"
  shows "normalize_ip_or_cidr ops (pr_address r) = Some (pr_address r)"
  using assms extract_records_normal regex_records_normal
  by (auto simp: parse_feed_def for_type_def regex_line_parse_def json_path_parse_def parse_jsonl_def split: if_splits)

end

section \<open>Comments\<close>

lemma find_str_Some:
  "find_str p s = Some i \<Longrightarrow> starts_with p (drop i s) \<and> (\<forall>j < i. \<not> starts_with p (drop j s)) \<and> i \<le> length s"
proof (induction s arbitrary: i)
  case (Cons c s)
  show ?case
  proof (cases "starts_with p (c # s)")
    case False
    then obtain i' where i': "find_str p s = Some i'" "i = Suc i'" using Cons.prems by auto
    show ?thesis
      using Cons.IH [OF i'(1)] False i'(2) by (auto simp: less_Suc_eq_0_disj)
  qed (use Cons.prems in auto)
qed (auto simp: starts_with_def split: if_splits)

lemma find_str_None: "find_str p s = None \<Longrightarrow> \<not> starts_with p (drop j s)"
proof (induction s arbitrary: j)
  case (Cons c s)
  then show ?case by (cases j) (auto split: if_splits)
qed (auto simp: starts_with_def split: if_splits)

text \<open>A comment starts at a position: one of the three markers stands there.\<close>

definition marker_at :: "string \<Rightarrow> nat \<Rightarrow> bool" where
  "marker_at line i \<longleftrightarrow>
     starts_with ''#'' (drop i line) \<or> starts_with '';'' (drop i line) \<or> starts_with ''//'' (drop i line)"

lemma cut_at_spec:
  assumes "\<And>j. j < k \<Longrightarrow> \<not> Q j" "k \<le> length s" "k < length s \<Longrightarrow> Q k"
  shows "(\<forall>j < cut_at k (find_str p s). \<not> (Q j \<or> starts_with p (drop j s))) \<and> cut_at k (find_str p s) \<le> length s \<and>
    (cut_at k (find_str p s) < length s \<longrightarrow> Q (cut_at k (find_str p s)) \<or> starts_with p (drop (cut_at k (find_str p s)) s))"
proof (cases "find_str p s")
  case None
  then show ?thesis using assms find_str_None [OF None] by (auto simp: cut_at_def)
next
  case (Some i)
  then show ?thesis using assms find_str_Some [OF Some] by (auto simp: cut_at_def min_def)
qed

lemma strip_inline_comment_spec:
  "\<exists>k \<le> length line. strip_inline_comment line = take k line \<and> (\<forall>j < k. \<not> marker_at line j) \<and> (k < length line \<longrightarrow> marker_at line k)"
proof -
  let ?a = "cut_at (length line) (find_str ''#'' line)"
  let ?b = "cut_at ?a (find_str '';'' line)"
  note a = cut_at_spec [of "length line" "\<lambda>_. False" line "''#''", simplified]
  note b = cut_at_spec [of ?a "\<lambda>j. starts_with ''#'' (drop j line)" line "'';''"]
  note c = cut_at_spec [of ?b "\<lambda>j. starts_with ''#'' (drop j line) \<or> starts_with '';'' (drop j line)" line "''//''"]
  show ?thesis
    using a b c by (intro exI [of _ "cut_at ?b (find_str ''//'' line)"])
      (auto simp: strip_inline_comment_def marker_at_def)
qed

section \<open>Properties\<close>

text \<open>
  The normal form decides identity: two accepted texts have the same normal form exactly when
  they name the same address and prefix length, and a normal form is its own normal form.\<close>

theorem normal_form_decides_identity:
  assumes "ip_network nets" "net_parse nets (trim s) = Some m" "net_parse nets (trim s') = Some n"
  shows "(normalize_ip_or_cidr nets s = normalize_ip_or_cidr nets s' \<longleftrightarrow>
      net_ip nets m = net_ip nets n \<and> net_prefix nets m = net_prefix nets n) \<and>
    (\<exists>t. normalize_ip_or_cidr nets s = Some t \<and> normalize_ip_or_cidr nets t = Some t)"
  using ip_network.normalize_eq_iff [OF assms] ip_network.normalize_Some_iff [OF assms(1), of s]
    ip_network.normalize_idem [OF assms(1), of s] assms(2) by blast

text \<open>
  C24. Every address a parser returns, whatever the body and the configuration, is an address or a
  network in normal form.\<close>

theorem parsers_return_normal_form:
  assumes "ip_network nets" "parse_feed nets ops parser_type body config = Inr rs" "r \<in> set rs"
  shows "normalize_ip_or_cidr nets (pr_address r) = Some (pr_address r)"
  by (rule ip_network.parse_feed_normal [OF assms])

text \<open>
  Stripping comments keeps exactly the text before the first comment marker of a line.\<close>

theorem comment_stripping_exact:
  "\<exists>k \<le> length line. strip_inline_comment line = take k line \<and> (\<forall>j < k. \<not> marker_at line j) \<and>
     (k < length line \<longrightarrow> marker_at line k)"
  by (rule strip_inline_comment_spec)

text \<open>
  The validation at save time and the parser agree: a rejected configuration fails every body
  with the same message, and an accepted one is read without error, so that in the line mode
  every body is parsed.\<close>

theorem config_validation_agrees:
  "(\<forall>e. validate_config ops config = Inl e \<longrightarrow> json_path_parse nets ops raw config = Inl (InvalidConfig e)) \<and>
   (validate_config ops config = Inr () \<longrightarrow>
     (\<exists>cfg. ebind (ok_or needs_config_message config) (json_path_config_parse ops) = Inr cfg \<and>
        (jp_jsonl cfg \<longrightarrow> (\<exists>rs. json_path_parse nets ops raw config = Inr rs))))"
  by (cases config; cases "json_path_config_parse ops (the config)")
    (auto simp: validate_config_def json_path_parse_def parse_jsonl_def)

section \<open>Witnesses\<close>

definition word_ops :: feed_ops where
  "word_ops = \<lparr>ip_tokens = split_whitespace,
     json_parse = (\<lambda>s. if s = ''C'' then Inr (JObj [(''jsonl'', JBool True), (''ip'', JStr ''$.a'')])
                       else if s = ''R'' then Inr (JObj [(''a'', JStr '' 10.1.2.3/32 '')]) else Inl ''bad''),
     parse_rfc3339 = (\<lambda>_. None), parse_day = (\<lambda>_. None)\<rparr>"

theorem normal_form_decides_identity_witness:
  "normalize_ip_or_cidr cidr_ops '' 10.0.0.1/32'' = normalize_ip_or_cidr cidr_ops ''10.0.0.1''"
proof -
  have "net_parse cidr_ops (trim '' 10.0.0.1/32'') = Some (Cidr (V4 0x0A000001) 32)"
    "net_parse cidr_ops (trim ''10.0.0.1'') = Some (Cidr (V4 0x0A000001) 32)" by code_simp+
  from normal_form_decides_identity [OF cidr_net.ip_network_axioms this] show ?thesis by simp
qed

theorem parsers_return_normal_form_witness:
  "\<exists>r rs. parse_feed cidr_ops word_ops ''JSON_PATH'' ''R'' (Some ''C'') = Inr rs \<and> r \<in> set rs \<and>
     normalize_ip_or_cidr cidr_ops (pr_address r) = Some (pr_address r)"
proof -
  let ?r = "\<lparr>pr_address = ''10.1.2.3'', pr_last_seen_at = None\<rparr>"
  have run: "parse_feed cidr_ops word_ops ''JSON_PATH'' ''R'' (Some ''C'') = Inr [?r]" by code_simp
  from parsers_return_normal_form [OF cidr_net.ip_network_axioms run, of ?r] run show ?thesis by fastforce
qed

theorem config_validation_agrees_witness:
  "\<exists>rs. json_path_parse cidr_ops word_ops ''zzz'' (Some ''C'') = Inr rs"
proof -
  have v: "validate_config word_ops (Some ''C'') = Inr ()" by code_simp
  have j: "map_option jp_jsonl (ok_opt (json_path_config_parse word_ops ''C'')) = Some True" by code_simp
  from config_validation_agrees [of word_ops "Some ''C''" cidr_ops "''zzz''"] v j show ?thesis
    by (auto simp: map_option_case split: option.splits)
qed

theorem comment_stripping_exact_witness:
  "\<exists>k \<le> length ''1.2.3.4 # x''. strip_inline_comment ''1.2.3.4 # x'' = take k ''1.2.3.4 # x'' \<and> strip_inline_comment ''1.2.3.4 # x'' = ''1.2.3.4 ''"
proof -
  obtain k where "k \<le> length ''1.2.3.4 # x''" "strip_inline_comment ''1.2.3.4 # x'' = take k ''1.2.3.4 # x''"
    using comment_stripping_exact by blast
  moreover have "strip_inline_comment ''1.2.3.4 # x'' = ''1.2.3.4 ''" by code_simp
  ultimately show ?thesis by auto
qed

end
