(* ===== verification/Decompress.thy ===== *)
theory Decompress
  imports Retry
begin

text \<open>
  \<open>src/jobs/decompress.rs\<close>: the size limits on what a feed may expand to, while the body of a
  response is read and while a ZIP archive is unpacked. The \<open>zip\<close> crate is a parameter: opening
  an archive gives an error or its entries, and an entry is an error or a member with the bytes
  its reader yields and, possibly, the error the reader ends with.
\<close>

section \<open>The code\<close>

datatype decompress_error = OpenArchive string | EmptyArchive | ReadMember string | TooLarge nat

fun show_decompress_error :: "decompress_error \<Rightarrow> string" where
  "show_decompress_error (OpenArchive e) = ''failed to open zip archive: '' @ e"
| "show_decompress_error EmptyArchive = ''zip archive contains no files''"
| "show_decompress_error (ReadMember e) = ''failed to read zip archive member: '' @ e"
| "show_decompress_error (TooLarge n) =
     ''decompressed payload exceeds the '' @ dec n @ ''-byte MAX_DECOMPRESSED_BYTES limit; ''
     @ ''aborting to avoid a decompression-bomb memory spike''"

definition ZIP_LOCAL_HEADER_MAGIC :: bytes where
  "ZIP_LOCAL_HEADER_MAGIC = [CHR 0x50, CHR 0x4B, CHR 0x03, CHR 0x04]"

definition ZIP_EMPTY_ARCHIVE_MAGIC :: bytes where
  "ZIP_EMPTY_ARCHIVE_MAGIC = [CHR 0x50, CHR 0x4B, CHR 0x05, CHR 0x06]"

definition is_zip :: "bytes \<Rightarrow> bool" where
  "is_zip bs \<longleftrightarrow> 4 \<le> length bs \<and> (take 4 bs = ZIP_LOCAL_HEADER_MAGIC \<or> take 4 bs = ZIP_EMPTY_ARCHIVE_MAGIC)"

record zip_member =
  zm_is_dir :: bool
  zm_bytes :: bytes
  zm_error :: "string option"

type_synonym zip_open = "bytes \<Rightarrow> string + (string + zip_member) list"

text \<open>
  \<open>take(n)\<close> followed by \<open>read_to_end\<close>: at most \<open>n\<close> bytes are asked for, so an error that
  comes after them is not met.
\<close>

definition read_member :: "nat \<Rightarrow> zip_member \<Rightarrow> string + bytes" where
  "read_member n m =
     (if n \<le> length (zm_bytes m) then Inr (take n (zm_bytes m))
      else case zm_error m of None \<Rightarrow> Inr (zm_bytes m) | Some e \<Rightarrow> Inl e)"

definition with_newline :: "bytes \<Rightarrow> bytes" where
  "with_newline combined =
     (if combined \<noteq> [] \<and> last combined \<noteq> CHR 0x0A then combined @ [CHR 0x0A] else combined)"

fun unpack :: "nat \<Rightarrow> (string + zip_member) list \<Rightarrow> bytes \<Rightarrow> decompress_error + bytes" where
  "unpack mx [] combined = Inr combined"
| "unpack mx (Inl e # es) combined = Inl (ReadMember e)"
| "unpack mx (Inr m # es) combined =
     (if zm_is_dir m then unpack mx es combined
      else let budget = mx - length combined in
        if budget = 0 then Inl (TooLarge mx)
        else case read_member (min (budget + 1) u64_max) m of
               Inl e \<Rightarrow> Inl (ReadMember e)
             | Inr contents \<Rightarrow>
                 if budget < length contents then Inl (TooLarge mx)
                 else unpack mx es (with_newline combined @ contents))"

definition decompress_if_zip :: "zip_open \<Rightarrow> bytes \<Rightarrow> nat \<Rightarrow> decompress_error + bytes" where
  "decompress_if_zip open_zip bs mx =
     (if \<not> is_zip bs then Inr bs
      else ebind (map_err OpenArchive (open_zip bs)) (\<lambda>archive.
        if archive = [] then Inl EmptyArchive else unpack mx archive []))"

fun read_chunks :: "nat \<Rightarrow> (string + bytes) list \<Rightarrow> bytes \<Rightarrow> decompress_error + bytes" where
  "read_chunks mx [] buf = Inr buf"
| "read_chunks mx (Inl e # cs) buf = Inl (ReadMember e)"
| "read_chunks mx (Inr c # cs) buf =
     (if mx < length (buf @ c) then Inl (TooLarge mx) else read_chunks mx cs (buf @ c))"

definition read_capped_body :: "http_response \<Rightarrow> nat \<Rightarrow> decompress_error + bytes" where
  "read_capped_body response mx = read_chunks mx (resp_chunks response) []"

section \<open>What the limits mean\<close>

text \<open>The whole content of an archive: its files in order, a newline between two of them.\<close>

fun unpacked :: "(string + zip_member) list \<Rightarrow> bytes \<Rightarrow> bytes" where
  "unpacked [] acc = acc"
| "unpacked (Inl e # es) acc = unpacked es acc"
| "unpacked (Inr m # es) acc = (if zm_is_dir m then unpacked es acc else unpacked es (with_newline acc @ zm_bytes m))"

definition readable :: "(string + zip_member) list \<Rightarrow> bool" where
  "readable es \<longleftrightarrow> list_all (\<lambda>e. case e of Inl _ \<Rightarrow> False | Inr m \<Rightarrow> zm_is_dir m \<or> zm_error m = None) es"

lemma with_newline_length: "length (with_newline c) \<le> Suc (length c)" "length c \<le> length (with_newline c)"
  by (simp_all add: with_newline_def)

lemma unpacked_grows: "length acc \<le> length (unpacked es acc)"
proof (induction es acc rule: unpacked.induct)
  case (3 m es acc)
  then show ?case using with_newline_length(2) [of acc] by (auto intro: le_trans)
qed simp_all

lemma unpack_sound:
  "unpack mx es acc = Inr out \<Longrightarrow> mx < u64_max \<Longrightarrow> length acc \<le> Suc mx \<Longrightarrow>
     out = unpacked es acc \<and> length out \<le> Suc mx \<and> readable es"
proof (induction mx es acc rule: unpack.induct)
  case (3 mx m es acc)
  let ?b = "mx - length acc"
  show ?case
  proof (cases "zm_is_dir m")
    case True
    with 3 show ?thesis by (auto simp: readable_def)
  next
    case False
    obtain contents where c: "?b \<noteq> 0" "read_member (min (?b + 1) u64_max) m = Inr contents" "length contents \<le> ?b"
      and rest: "unpack mx es (with_newline acc @ contents) = Inr out"
      using "3.prems"(1) False by (auto simp: Let_def split: sum.splits if_splits)
    have "min (?b + 1) u64_max = ?b + 1" using "3.prems"(2) by simp
    then have "contents = zm_bytes m" "zm_error m = None"
      using c by (auto simp: read_member_def split: if_splits option.splits)
    moreover have "length (with_newline acc @ contents) \<le> Suc mx"
      using with_newline_length(1) [of acc] c(1,3) by simp
    ultimately show ?thesis
      using "3.IH"(2) [OF False refl c(1) c(2)] rest "3.prems"(2) c(3) False by (auto simp: readable_def)
  qed
qed (simp_all add: readable_def)

lemma unpack_complete:
  "readable es \<Longrightarrow> mx < u64_max \<Longrightarrow> length (unpacked es acc) < mx \<Longrightarrow> unpack mx es acc = Inr (unpacked es acc)"
proof (induction mx es acc rule: unpack.induct)
  case (3 mx m es acc)
  show ?case
  proof (cases "zm_is_dir m")
    case True
    with 3 show ?thesis by (simp add: readable_def)
  next
    case False
    let ?b = "mx - length acc"
    have "length (with_newline acc @ zm_bytes m) < mx"
      using "3.prems"(3) False unpacked_grows [of "with_newline acc @ zm_bytes m" es] by simp
    then have b: "length (zm_bytes m) < ?b" using with_newline_length(2) [of acc] by simp
    then have r: "?b \<noteq> 0" "read_member (min (?b + 1) u64_max) m = Inr (zm_bytes m)" "\<not> ?b < length (zm_bytes m)"
      using "3.prems"(1,2) False by (auto simp: read_member_def readable_def)
    have "unpack mx es (with_newline acc @ zm_bytes m) = Inr (unpacked es (with_newline acc @ zm_bytes m))"
      using "3.IH"(2) [OF False refl r] "3.prems" False by (simp add: readable_def)
    then show ?thesis using False r by (simp add: Let_def)
  qed
qed (simp_all add: readable_def)

lemma read_chunks_Inr:
  "read_chunks mx cs buf = Inr out \<longleftrightarrow>
     (\<exists>b. whole_body cs = Inr b \<and> out = buf @ b \<and> (cs = [] \<or> length (buf @ b) \<le> mx))"
proof (induction mx cs buf rule: read_chunks.induct)
  case (3 mx c cs buf)
  then show ?case by (cases "whole_body cs") auto
qed auto

lemma whole_body_Cons: "whole_body (Inr c # cs) = Inr b \<longleftrightarrow> (\<exists>b'. whole_body cs = Inr b' \<and> b = c @ b')"
  by auto

lemma read_chunks_TooLarge:
  "read_chunks mx cs buf = Inl (TooLarge n) \<longleftrightarrow> n = mx \<and>
     (\<exists>pre suf b. cs = pre @ suf \<and> pre \<noteq> [] \<and> whole_body pre = Inr b \<and> mx < length (buf @ b))"
proof (induction mx cs buf rule: read_chunks.induct)
  case (1 mx buf)
  then show ?case by simp
next
  case (2 mx e cs buf)
  then show ?case by (auto simp: Cons_eq_append_conv)
next
  case (3 mx c cs buf)
  let ?over = "\<lambda>cs buf. \<exists>pre suf b. cs = pre @ suf \<and> pre \<noteq> [] \<and> whole_body pre = Inr b \<and> mx < length (buf @ b)"
  have "?over (Inr c # cs) buf \<longleftrightarrow> mx < length (buf @ c) \<or> ?over cs (buf @ c)"
  proof
    assume "?over (Inr c # cs) buf"
    then obtain pre suf b where p: "Inr c # cs = pre @ suf" "pre \<noteq> []" "whole_body pre = Inr b" "mx < length (buf @ b)"
      by blast
    then obtain pre' where pre': "pre = Inr c # pre'" "cs = pre' @ suf" by (cases pre) simp_all
    with p(3) obtain b' where "whole_body pre' = Inr b'" "b = c @ b'" by auto
    with p(4) pre' show "mx < length (buf @ c) \<or> ?over cs (buf @ c)"
      by (cases "pre' = []") fastforce+
  next
    assume "mx < length (buf @ c) \<or> ?over cs (buf @ c)"
    then show "?over (Inr c # cs) buf"
    proof
      assume "mx < length (buf @ c)"
      then show ?thesis by (intro exI [of _ "[Inr c]"] exI [of _ cs] exI [of _ c]) simp
    next
      assume "?over cs (buf @ c)"
      then obtain pre suf b where "cs = pre @ suf" "whole_body pre = Inr b" "mx < length ((buf @ c) @ b)" by blast
      then show ?thesis by (intro exI [of _ "Inr c # pre"] exI [of _ suf] exI [of _ "c @ b"]) simp
    qed
  qed
  then show ?case using 3 by (simp only: read_chunks.simps) auto
qed

section \<open>Properties\<close>

text \<open>
  Reading a response body gives the whole body when it fits the limit, is refused as too large
  exactly when some prefix of the received chunks passes the limit, and never returns more.\<close>

theorem capped_body_exact:
  "(read_capped_body response mx = Inr out \<longleftrightarrow> whole_body (resp_chunks response) = Inr out \<and> length out \<le> mx) \<and>
   (read_capped_body response mx = Inl (TooLarge n) \<longleftrightarrow> n = mx \<and>
     (\<exists>received rest b. resp_chunks response = received @ rest \<and> whole_body received = Inr b \<and> mx < length b))"
proof -
  have nonempty: "received \<noteq> []" if "whole_body received = Inr b" "mx < length b" for received b
    using that by auto
  have "read_capped_body response mx = Inl (TooLarge n) \<longleftrightarrow> n = mx \<and>
     (\<exists>received rest b. resp_chunks response = received @ rest \<and> whole_body received = Inr b \<and> mx < length b)"
    unfolding read_capped_body_def read_chunks_TooLarge append_Nil using nonempty by blast
  moreover have "read_capped_body response mx = Inr out \<longleftrightarrow> whole_body (resp_chunks response) = Inr out \<and> length out \<le> mx"
    unfolding read_capped_body_def read_chunks_Inr append_Nil by (cases "resp_chunks response = []") auto
  ultimately show ?thesis by (rule conjI [rotated])
qed


section \<open>Witnesses\<close>

definition plain_member :: "bytes \<Rightarrow> string + zip_member" where
  "plain_member bs = Inr \<lparr>zm_is_dir = False, zm_bytes = bs, zm_error = None\<rparr>"

definition two_files :: zip_open where
  "two_files bs = Inr [plain_member ''ab'', plain_member ''cd'']"


end
