(* ===== verification/Ingestion.thy ===== *)
theory Ingestion
  imports VaultSync Parsers Decompress
begin

text \<open>
  \<open>src/jobs/external_ingestion.rs\<close>: one execution of a destination group. Every feed is fetched,
  unpacked and parsed; each feed's records pass its own age limit and reserved-range policy; the
  union, without repetitions, is pushed in chunks to every target vault. The feeds are fetched in
  tasks that run concurrently; the model runs them in listing order, and what follows the
  fetches (\<open>ingest_results\<close>) is stated for any list of results, hence for every interleaving.
  \<open>None\<close> is the panic of \<open>chrono\<close> when a cut-off lies before the earliest date.
\<close>

section \<open>Fetching a feed\<close>

record 'w ingest_env =
  ig_client :: "'w client_env"
  ig_ops :: feed_ops
  ig_open_zip :: zip_open
  ig_status_text :: "nat \<Rightarrow> string"
  ig_max_decompressed_bytes :: nat
  ig_earliest :: instant
  ig_join_error :: "external_source \<Rightarrow> 'w \<Rightarrow> string option"

record fetch_options =
  fo_user_agent :: "string option"
  fo_headers :: "(string \<times> string) list"

definition fetch_options_default :: fetch_options where
  "fetch_options_default = \<lparr>fo_user_agent = None, fo_headers = []\<rparr>"

definition fetch_options_from_config :: "feed_ops \<Rightarrow> string option \<Rightarrow> fetch_options" where
  "fetch_options_from_config ops config =
     (case config of
        None \<Rightarrow> fetch_options_default
      | Some c \<Rightarrow>
         (case Option.bind (ok_opt (json_parse ops c)) as_object of
            None \<Rightarrow> fetch_options_default
          | Some m \<Rightarrow>
              \<lparr>fo_user_agent = Option.bind (map_of m ''user_agent'') as_str,
               fo_headers = (case Option.bind (map_of m ''headers'') as_object of
                  None \<Rightarrow> []
                | Some h \<Rightarrow> List.map_filter (\<lambda>(k, v). map_option (Pair k) (as_str v)) h)\<rparr>))"

definition feed_request :: "string \<Rightarrow> fetch_options \<Rightarrow> http_request" where
  "feed_request url options =
     \<lparr>req_method = ''GET'', req_url = url,
      req_headers = (case fo_user_agent options of None \<Rightarrow> [] | Some ua \<Rightarrow> [(''user-agent'', ua)]) @ fo_headers options,
      req_body = []\<rparr>"

datatype fetch_error = FetchStatus nat | FetchFailed string

fun fetch_status :: "fetch_error \<Rightarrow> nat option" where
  "fetch_status (FetchStatus n) = Some n"
| "fetch_status (FetchFailed e) = None"

fun show_fetch_error :: "(nat \<Rightarrow> string) \<Rightarrow> fetch_error \<Rightarrow> string" where
  "show_fetch_error status_text (FetchStatus n) = ''fetch returned status '' @ status_text n"
| "show_fetch_error status_text (FetchFailed e) = ''fetch failed: '' @ e"

definition fetch_once :: "'w world_ops \<Rightarrow> http_request \<Rightarrow> 'w \<Rightarrow> (fetch_error + http_response) \<times> 'w" where
  "fetch_once world req w =
     (case http_send world req w of
        (Inl e, w1) \<Rightarrow> (Inl (FetchFailed e), w1)
      | (Inr r, w1) \<Rightarrow> (if is_success (resp_status r) then Inr r else Inl (FetchStatus (resp_status r)), w1))"

definition fetch_and_parse ::
  "'n ipnet_ops \<Rightarrow> 'w ingest_env \<Rightarrow> string \<Rightarrow> string \<Rightarrow> string option \<Rightarrow> 'w \<Rightarrow> (string + parsed_record list) \<times> 'w"
where
  "fetch_and_parse nets env source_url parser_type config w =
     (let options = fetch_options_from_config (ig_ops env) config;
          world = env_world (ig_client env);
          mx = ig_max_decompressed_bytes env in
      case retry_loop world (env_retry (ig_client env)) fetch_status (fetch_once world (feed_request source_url options)) 0 w of
        (Inl e, w1) \<Rightarrow> (Inl (show_fetch_error (ig_status_text env) e), w1)
      | (Inr response, w1) \<Rightarrow>
          (ebind (map_err (\<lambda>e. ''failed to read response body: '' @ show_decompress_error e) (read_capped_body response mx)) (\<lambda>body.
           ebind (map_err show_decompress_error (decompress_if_zip (ig_open_zip env) body mx)) (\<lambda>body.
           map_err show_parse_error (parse_feed nets (ig_ops env) parser_type body config))), w1))"

record feed_result =
  fr_feed_name :: string
  fr_records :: "string + parsed_record list"

fun fetch_all_feeds ::
  "'n ipnet_ops \<Rightarrow> 'w ingest_env \<Rightarrow> external_source list \<Rightarrow> 'w \<Rightarrow> feed_result list \<times> 'w"
where
  "fetch_all_feeds nets env [] w = ([], w)"
| "fetch_all_feeds nets env (feed # fs) w =
     (case fetch_and_parse nets env (feed_source_url feed) (feed_parser_type feed) (feed_parser_config_json feed) w of
        (records, w1) \<Rightarrow>
          (let result = (case ig_join_error env feed w1 of
              None \<Rightarrow> \<lparr>fr_feed_name = feed_name feed, fr_records = records\<rparr>
            | Some e \<Rightarrow> \<lparr>fr_feed_name = ''(unknown feed)'', fr_records = Inl (''feed fetch task panicked: '' @ e)\<rparr>)
           in case fetch_all_feeds nets env fs w1 of (results, w2) \<Rightarrow> (result # results, w2)))"

section \<open>Aggregation\<close>

definition day_ms :: int where
  "day_ms = 86400000"

definition apply_temporal_filter ::
  "instant \<Rightarrow> instant \<Rightarrow> parsed_record list \<Rightarrow> int option \<Rightarrow> parsed_record list option" where
  "apply_temporal_filter earliest current records max_age_days =
     (case max_age_days of
        None \<Rightarrow> Some records
      | Some days \<Rightarrow>
          (let cutoff = current - days * day_ms in
           if cutoff < earliest then None
           else Some (filter (\<lambda>r. case pr_last_seen_at r of None \<Rightarrow> True | Some t \<Rightarrow> cutoff \<le> t) records)))"

record aggregation =
  ag_seen :: "string set"
  ag_aggregated :: "string list"
  ag_errors :: "string list"
  ag_bogons :: nat

fun push_unseen :: "string list \<Rightarrow> aggregation \<Rightarrow> aggregation" where
  "push_unseen [] st = st"
| "push_unseen (a # as) st =
     push_unseen as
       (if a \<in> ag_seen st then st
        else st\<lparr>ag_seen := insert a (ag_seen st), ag_aggregated := ag_aggregated st @ [a]\<rparr>)"

definition feed_skips :: "destination_group \<Rightarrow> external_source option \<Rightarrow> bool" where
  "feed_skips grp feed =
     (case Option.bind feed feed_skip_bogon_filtering of None \<Rightarrow> group_skip_bogon_filtering grp | Some b \<Rightarrow> b)"

definition feed_addresses ::
  "'n ipnet_ops \<Rightarrow> instant \<Rightarrow> instant \<Rightarrow> destination_group \<Rightarrow> external_source option \<Rightarrow> parsed_record list
    \<Rightarrow> (string list \<times> nat) option" where
  "feed_addresses nets earliest current grp feed records =
     (case apply_temporal_filter earliest current records (Option.bind feed feed_max_age_days) of
        None \<Rightarrow> None
      | Some kept \<Rightarrow>
          (let addresses = map pr_address kept in
           Some (if feed_skips grp feed then (addresses, 0) else sanitize nets addresses)))"

fun aggregate ::
  "'n ipnet_ops \<Rightarrow> instant \<Rightarrow> instant \<Rightarrow> destination_group \<Rightarrow> external_source list \<Rightarrow> feed_result list
    \<Rightarrow> aggregation \<Rightarrow> aggregation option" where
  "aggregate nets earliest current grp fs [] st = Some st"
| "aggregate nets earliest current grp fs (r # rs) st =
     (case fr_records r of
        Inl e \<Rightarrow> aggregate nets earliest current grp fs rs
          (st\<lparr>ag_errors := ag_errors st @ [''feed '' @ squoted (fr_feed_name r) @ '': '' @ e]\<rparr>)
      | Inr records \<Rightarrow>
         (case feed_addresses nets earliest current grp (List.find (\<lambda>f. feed_name f = fr_feed_name r) fs) records of
            None \<Rightarrow> None
          | Some (sanitized, removed) \<Rightarrow>
              aggregate nets earliest current grp fs rs
                (push_unseen sanitized (st\<lparr>ag_bogons := ag_bogons st + removed\<rparr>))))"

section \<open>Pushing to the targets\<close>

definition address_record :: "string \<Rightarrow> batch_record" where
  "address_record a =
     \<lparr>br_target_address = a, br_cause = None, br_is_deleted = None, br_created_at = None, br_updated_at = None,
      br_last_seen_at = None, br_deleted_at = None\<rparr>"

definition base_mode :: "destination_group \<Rightarrow> batch_mode" where
  "base_mode grp = (case batch_mode_parse (group_mode grp) of None \<Rightarrow> Upsert | Some m \<Rightarrow> m)"

fun push_group_targets ::
  "'w client_env \<Rightarrow> batch_mode \<Rightarrow> string \<Rightarrow> string list list \<Rightarrow> (group_target \<times> vault_endpoint option) list
    \<Rightarrow> nat \<Rightarrow> string list \<Rightarrow> bool \<Rightarrow> 'w \<Rightarrow> (nat \<times> string list \<times> bool) \<times> 'w"
where
  "push_group_targets env m dflt chunks [] sent errors any_success w = ((sent, errors, any_success), w)"
| "push_group_targets env m dflt chunks ((target, None) # targets) sent errors any_success w =
     push_group_targets env m dflt chunks targets sent
       (errors @ [''target vault '' @ uuid_string (env_ops env) (gt_vault_id target) @ '' no longer exists'']) any_success w"
| "push_group_targets env m dflt chunks ((target, Some vault) # targets) sent errors any_success w =
     (case push_chunks (\<lambda>i chunk. post_batch env vault (effective_group dflt (gt_target_group_name target)) chunk
               (mode_for_chunk_index m i))
             (vault_name vault) 0 (map (map address_record) chunks) sent errors w of
        (target_ok, sent1, errors1, w1) \<Rightarrow>
          push_group_targets env m dflt chunks targets sent1 errors1 (any_success \<or> target_ok) w1)"

definition ingest_status :: "bool \<Rightarrow> string list \<Rightarrow> nat \<Rightarrow> bool \<Rightarrow> string" where
  "ingest_status all_feeds_failed errors items any_success =
     (if all_feeds_failed then ''FAILED''
      else if errors = [] then (if items = 0 then ''PARTIAL'' else ''SUCCESS'')
      else if any_success then ''PARTIAL'' else ''FAILED'')"

definition no_entries_message :: string where
  "no_entries_message =
     ''every feed in this group returned zero parseable entries; the feed(s) may be misconfigured, ''
     @ ''rate-limited, or returning an error/captive-portal page instead of real content''"

definition ingest_results ::
  "'n ipnet_ops \<Rightarrow> 'w ingest_env \<Rightarrow> destination_group \<Rightarrow> external_source list
    \<Rightarrow> (group_target \<times> vault_endpoint option) list \<Rightarrow> feed_result list \<Rightarrow> instant \<Rightarrow> 'w \<Rightarrow> (job_summary \<times> 'w) option"
where
  "ingest_results nets env grp fs targets results start w =
     (case aggregate nets (ig_earliest env) (utc_now (env_world (ig_client env)) w) grp fs results
             \<lparr>ag_seen = {}, ag_aggregated = [], ag_errors = [], ag_bogons = 0\<rparr> of
        None \<Rightarrow> None
      | Some agg \<Rightarrow>
         (let items = length (ag_aggregated agg);
              chunks = chunk_records (ag_aggregated agg) MAX_BATCH_SIZE in
          case push_group_targets (ig_client env) (base_mode grp) (group_target_group_name grp) chunks targets 0
                 (ag_errors agg) (targets = []) w of
            ((sent, errors, any_success), w1) \<Rightarrow>
              (let all_feeds_failed = (fs \<noteq> [] \<and> length (ag_errors agg) = length fs);
                   parts = (if 0 < ag_bogons agg then [sanitized_message (ag_bogons agg)] else [])
                     @ (if items = 0 \<and> errors = [] then [no_entries_message] else []) @ errors
               in Some (\<lparr>sum_status = ingest_status all_feeds_failed errors items any_success,
                         sum_items_processed = as_i32 items, sum_chunks_sent = int sent,
                         sum_duration_ms = elapsed_ms (ig_client env) start w1,
                         sum_error_message = (if parts = [] then None else Some (join ''; '' parts))\<rparr>, w1))))"

definition ingest_execute ::
  "'n ipnet_ops \<Rightarrow> 'w ingest_env \<Rightarrow> destination_group \<Rightarrow> external_source list
    \<Rightarrow> (group_target \<times> vault_endpoint option) list \<Rightarrow> 'w \<Rightarrow> (job_summary \<times> 'w) option"
where
  "ingest_execute nets env grp fs targets w =
     (let start = monotonic_now (env_world (ig_client env)) w in
      case fetch_all_feeds nets env fs w of (results, w1) \<Rightarrow> ingest_results nets env grp fs targets results start w1)"

definition group_targets_of :: "database \<Rightarrow> uuid \<Rightarrow> (group_target \<times> vault_endpoint option) list" where
  "group_targets_of db i =
     map (\<lambda>t. (t, find_vault db (gt_vault_id t))) (filter (\<lambda>t. gt_group_id t = i) (group_targets db))"

definition ingest_run ::
  "'n ipnet_ops \<Rightarrow> 'w ingest_env \<Rightarrow> uuid \<Rightarrow> uuid \<Rightarrow> database \<Rightarrow> 'w
    \<Rightarrow> (((app_error + job_summary) \<times> database) \<times> 'w) option"
where
  "ingest_run nets env fresh_id i db w =
     (let started_at = utc_now (env_world (ig_client env)) w in
      case find_group db i of
        None \<Rightarrow> Some ((Inl NotFound, db), w)
      | Some grp \<Rightarrow>
         (case ingest_execute nets env grp (filter (\<lambda>f. feed_group_id f = i) (feeds db)) (group_targets_of db i) w of
            None \<Rightarrow> None
          | Some (summary, w1) \<Rightarrow>
              Some (try_h (sql (write_sync_log fresh_id ''EXTERNAL_FEED'' i (group_name grp) summary started_at db)) db (\<lambda>db1.
                    try_h (sql (update_group (grp\<lparr>group_last_run_at := Some started_at\<rparr>) db1)) db1 (\<lambda>db2. (Inr summary, db2))), w1)))"

section \<open>What is aggregated\<close>

definition recent :: "instant \<Rightarrow> int option \<Rightarrow> parsed_record \<Rightarrow> bool" where
  "recent t max_age r \<longleftrightarrow>
     (case (max_age, pr_last_seen_at r) of (Some d, Some s) \<Rightarrow> t - d * day_ms \<le> s | _ \<Rightarrow> True)"

text \<open>The records of a feed that belong into the set pushed to the vaults.\<close>

definition admitted :: "'n ipnet_ops \<Rightarrow> instant \<Rightarrow> destination_group \<Rightarrow> external_source \<Rightarrow> parsed_record \<Rightarrow> bool" where
  "admitted nets t grp f r \<longleftrightarrow>
     recent t (feed_max_age_days f) r \<and> (feed_skips grp (Some f) \<or> record_routable nets (pr_address r))"

definition contributed ::
  "'n ipnet_ops \<Rightarrow> instant \<Rightarrow> instant \<Rightarrow> destination_group \<Rightarrow> external_source list \<Rightarrow> feed_result \<Rightarrow> string set" where
  "contributed nets earliest t grp fs x =
     (case fr_records x of Inl _ \<Rightarrow> {} | Inr records \<Rightarrow>
       (case feed_addresses nets earliest t grp (List.find (\<lambda>f. feed_name f = fr_feed_name x) fs) records of
          None \<Rightarrow> {} | Some (as, _) \<Rightarrow> set as))"

definition agg_inv :: "aggregation \<Rightarrow> bool" where
  "agg_inv st \<longleftrightarrow> ag_seen st = set (ag_aggregated st) \<and> distinct (ag_aggregated st)"

lemma push_unseen_spec:
  "agg_inv st \<Longrightarrow> agg_inv (push_unseen as st) \<and> set (ag_aggregated (push_unseen as st)) = set (ag_aggregated st) \<union> set as \<and>
     ag_errors (push_unseen as st) = ag_errors st"
  by (induction as st rule: push_unseen.induct) (auto simp: agg_inv_def)

lemma aggregate_spec:
  "aggregate nets earliest t grp fs rs st = Some st' \<Longrightarrow> agg_inv st \<Longrightarrow>
     agg_inv st' \<and> set (ag_aggregated st') = set (ag_aggregated st) \<union> (\<Union>x \<in> set rs. contributed nets earliest t grp fs x) \<and>
     (\<exists>es. ag_errors st' = ag_errors st @ es \<and> length es = length (filter (\<lambda>x. isl (fr_records x)) rs))"
proof (induction rs arbitrary: st)
  case Nil
  then show ?case by simp
next
  case (Cons x rs)
  show ?case
  proof (cases "fr_records x")
    case (Inl e)
    then show ?thesis
      using Cons.IH [of "st\<lparr>ag_errors := ag_errors st @ [''feed '' @ squoted (fr_feed_name x) @ '': '' @ e]\<rparr>"] Cons.prems
      by (auto simp: contributed_def agg_inv_def)
  next
    case (Inr records)
    then obtain as n where f: "feed_addresses nets earliest t grp (List.find (\<lambda>f. feed_name f = fr_feed_name x) fs) records = Some (as, n)"
      and rest: "aggregate nets earliest t grp fs rs (push_unseen as (st\<lparr>ag_bogons := ag_bogons st + n\<rparr>)) = Some st'"
      using Cons.prems(1) by (auto split: option.splits)
    have "agg_inv (st\<lparr>ag_bogons := ag_bogons st + n\<rparr>)" using Cons.prems(2) by (simp add: agg_inv_def)
    from push_unseen_spec [OF this, of as] Cons.IH [OF rest] f Inr show ?thesis
      by (auto simp: contributed_def)
  qed
qed

lemma find_by_name: "distinct (map feed_name fs) \<Longrightarrow> f \<in> set fs \<Longrightarrow> List.find (\<lambda>g. feed_name g = feed_name f) fs = Some f"
  by (rule find_distinct)

lemma fetched_names:
  "fetch_all_feeds nets env fs w = (results, w1) \<Longrightarrow>
     list_all2 (\<lambda>f x. isl (fr_records x) \<or> fr_feed_name x = feed_name f) fs results"
proof (induction fs arbitrary: w results w1)
  case Nil
  then show ?case by simp
next
  case (Cons f fs)
  show ?case
    using Cons.prems by (auto simp: Let_def split: prod.splits option.splits intro: Cons.IH)
qed

lemma aggregate_defined:
  "aggregate nets earliest t grp fs rs st = Some st' \<Longrightarrow> x \<in> set rs \<Longrightarrow> fr_records x = Inr records \<Longrightarrow>
     feed_addresses nets earliest t grp (List.find (\<lambda>f. feed_name f = fr_feed_name x) fs) records \<noteq> None"
  by (induction rs arbitrary: st) (auto split: sum.splits option.splits)

context ip_network
begin

lemma temporal_filter_Some:
  "apply_temporal_filter earliest t records d = Some kept \<Longrightarrow> kept = filter (recent t d) records"
  by (auto simp: apply_temporal_filter_def recent_def Let_def split: option.splits if_splits intro!: filter_cong)

lemma feed_addresses_set:
  "feed_addresses ops earliest t grp (Some f) records = Some (as, n) \<Longrightarrow>
     set as = {pr_address r |r. r \<in> set records \<and> admitted ops t grp f r}"
  by (auto simp: feed_addresses_def admitted_def sanitize_eq Let_def split: option.splits if_splits dest!: temporal_filter_Some)

lemma aggregated_set:
  assumes "aggregate ops earliest t grp fs results st = Some agg" "distinct (map feed_name fs)"
    and "list_all2 (\<lambda>f x. isl (fr_records x) \<or> fr_feed_name x = feed_name f) fs results"
  shows "(\<Union>x \<in> set results. contributed ops earliest t grp fs x) =
    {pr_address r |f x records r. (f, x) \<in> set (zip fs results) \<and> fr_records x = Inr records \<and> r \<in> set records \<and> admitted ops t grp f r}"
    (is "?l = ?r")
proof -
  have own: "contributed ops earliest t grp fs x = {pr_address r |r. r \<in> set records \<and> admitted ops t grp f r}"
    if "(f, x) \<in> set (zip fs results)" and rec: "fr_records x = Inr records" for f x records
  proof -
    have n: "fr_feed_name x = feed_name f" "f \<in> set fs" "x \<in> set results"
      using that assms(3) set_zip_leftD [OF that(1)] set_zip_rightD [OF that(1)] by (auto simp: list_all2_iff)
    then have "List.find (\<lambda>g. feed_name g = fr_feed_name x) fs = Some f" using find_by_name [OF assms(2)] by simp
    moreover obtain as m where "feed_addresses ops earliest t grp (List.find (\<lambda>g. feed_name g = fr_feed_name x) fs) records = Some (as, m)"
      using aggregate_defined [OF assms(1) n(3) rec] by auto
    ultimately show ?thesis using feed_addresses_set rec by (simp add: contributed_def)
  qed
  have paired: "\<exists>f. (f, x) \<in> set (zip fs results)" if "x \<in> set results" for x
    using that list_all2_lengthD [OF assms(3)] by (metis in_set_impl_in_set_zip2)
  show ?thesis
  proof (intro equalityI subsetI)
    fix a assume "a \<in> ?l"
    then obtain x where x: "x \<in> set results" "a \<in> contributed ops earliest t grp fs x" by blast
    then obtain records where "fr_records x = Inr records" by (cases "fr_records x") (auto simp: contributed_def)
    with x paired own show "a \<in> ?r" by blast
  next
    fix a assume "a \<in> ?r"
    then obtain f x records r where "(f, x) \<in> set (zip fs results)" "fr_records x = Inr records" "r \<in> set records"
      "admitted ops t grp f r" "a = pr_address r" by blast
    with own [OF this(1,2)] show "a \<in> ?l" by (auto dest: set_zip_rightD)
  qed
qed

end

section \<open>What is pushed\<close>

lemma push_group_targets_errors:
  "push_group_targets env m dflt chunks targets sent errs any w = ((sent', errs', any'), w') \<Longrightarrow> \<exists>es. errs' = errs @ es"
proof (induction targets arbitrary: sent errs any w)
  case Nil
  then show ?case by simp
next
  case (Cons tv targets)
  obtain t vo where tv: "tv = (t, vo)" by (cases tv)
  show ?case
  proof (cases vo)
    case None
    show ?thesis using Cons.IH [OF Cons.prems [unfolded tv None push_group_targets.simps(2)]] by auto
  next
    case (Some v)
    obtain ok n es w1 where p: "push_chunks (\<lambda>i chunk. post_batch env v (effective_group dflt (gt_target_group_name t)) chunk
        (mode_for_chunk_index m i)) (vault_name v) 0 (map (map address_record) chunks) sent errs w = (ok, n, es, w1)"
      using prod_cases4 by blast
    then have "push_group_targets env m dflt chunks targets n es (any \<or> ok) w1 = ((sent', errs', any'), w')"
      using Cons.prems by (simp add: tv Some)
    from Cons.IH [OF this] push_chunks_errors [OF p] show ?thesis by (cases ok) auto
  qed
qed

lemma push_nothing:
  "push_group_targets env m dflt [] targets sent errs any w = (r, w') \<Longrightarrow> w' = w"
  by (induction env m dflt "[] :: string list list" targets sent errs any w rule: push_group_targets.induct) auto

context vault_fleet
begin

definition group_keys :: "string \<Rightarrow> (group_target \<times> vault_endpoint option) list \<Rightarrow> 'k set" where
  "group_keys dflt targets =
     {key_of v (effective_group dflt (gt_target_group_name t)) | t v. (t, Some v) \<in> set targets}"

lemma group_keys_Cons:
  "group_keys dflt ((t, Some v) # targets) =
     insert (key_of v (effective_group dflt (gt_target_group_name t))) (group_keys dflt targets)"
  by (auto simp: group_keys_def)

lemma mode_idem: "apply_batch m xs (apply_batch m xs g) = apply_batch m xs g"
  using batch_endpoint.applied_idem [OF endpoint] .

lemma push_group_delivers:
  "push_group_targets env m dflt chunks targets sent errs any w = ((sent', errs, any'), w') \<Longrightarrow> chunks \<noteq> [] \<Longrightarrow>
     (\<forall>(t, vo) \<in> set targets. vo \<noteq> None) \<and>
     (\<forall>k. grp_of k w' = (if k \<in> group_keys dflt targets
                         then apply_batch m (map address_record (concat chunks)) (grp_of k w) else grp_of k w))"
proof (induction targets arbitrary: sent any w)
  case Nil
  then show ?case by (simp add: group_keys_def)
next
  case (Cons tv targets)
  obtain t vo where tv: "tv = (t, vo)" by (cases tv)
  show ?case
  proof (cases vo)
    case None
    with Cons.prems tv show ?thesis by (auto dest: push_group_targets_errors)
  next
    case (Some v)
    let ?g = "effective_group dflt (gt_target_group_name t)"
    let ?recs = "map address_record (concat chunks)"
    obtain ok n es w1 where p: "push_chunks (\<lambda>i chunk. post_batch env v ?g chunk (mode_for_chunk_index m i))
        (vault_name v) 0 (map (map address_record) chunks) sent errs w = (ok, n, es, w1)"
      using prod_cases4 by blast
    have rest: "push_group_targets env m dflt chunks targets n es (any \<or> ok) w1 = ((sent', errs, any'), w')"
      using Cons.prems(1) p by (simp add: tv Some)
    have ok: "ok" "es = errs"
      using push_chunks_errors [OF p] push_group_targets_errors [OF rest] by (cases ok; auto)+
    have own: "grp_of (key_of v ?g) w1 = apply_batch m ?recs (grp_of (key_of v ?g) w)"
      using push_with_mode [OF p [unfolded eqTrueI [OF ok(1)]]] Cons.prems(2) by (simp add: map_concat)
    have oth: "k \<noteq> key_of v ?g \<Longrightarrow> grp_of k w1 = grp_of k w" for k
      using push_others [where mode = "mode_for_chunk_index m"] p by blast
    note IH = Cons.IH [OF rest [unfolded ok(2)] Cons.prems(2)]
    show ?thesis
    proof (intro conjI allI)
      show "\<forall>(t, vo) \<in> set (tv # targets). vo \<noteq> None" using IH tv Some by auto
      fix k
      show "grp_of k w' = (if k \<in> group_keys dflt (tv # targets) then apply_batch m ?recs (grp_of k w) else grp_of k w)"
        using IH own oth [of k] mode_idem by (cases "k = key_of v ?g") (auto simp: tv Some group_keys_Cons)
    qed
  qed
qed

end

lemma ingest_executeE:
  assumes "ingest_execute nets env grp fs targets w = Some (summary, w')" "fetch_all_feeds nets env fs w = (results, w1)"
  obtains agg sent errors any where
    "aggregate nets (ig_earliest env) (utc_now (env_world (ig_client env)) w1) grp fs results
       \<lparr>ag_seen = {}, ag_aggregated = [], ag_errors = [], ag_bogons = 0\<rparr> = Some agg"
    "push_group_targets (ig_client env) (base_mode grp) (group_target_group_name grp)
       (chunk_records (ag_aggregated agg) MAX_BATCH_SIZE) targets 0 (ag_errors agg) (targets = []) w1 = ((sent, errors, any), w')"
    "sum_status summary = ingest_status (fs \<noteq> [] \<and> length (ag_errors agg) = length fs) errors (length (ag_aggregated agg)) any"
  using assms by (auto simp: ingest_execute_def ingest_results_def Let_def split: option.splits prod.splits)

lemma agg_inv_start [simp]: "agg_inv \<lparr>ag_seen = {}, ag_aggregated = [], ag_errors = [], ag_bogons = 0\<rparr>"
  by (simp add: agg_inv_def)

lemma concat_batches: "concat (chunk_records xs MAX_BATCH_SIZE) = xs"
  by (rule concat_chunk_records) (simp add: MAX_BATCH_SIZE_def)

lemma chunks_empty_iff: "chunk_records xs MAX_BATCH_SIZE = [] \<longleftrightarrow> xs = []"
  using concat_batches [of xs] by auto

section \<open>Properties\<close>

text \<open>
  C26. What a successful ingestion means: every feed was fetched and parsed; the set that was pushed
  is nonempty, without repetitions, and consists of exactly the addresses that some feed lists
  and that pass that feed's own age limit and reserved-range policy; every target vault
  exists and its group has received that set in the group's mode; other groups are as before.\<close>

theorem ingestion_success_delivers:
  assumes "ip_network nets" "vault_fleet (ig_client env) key_of grp_of apply_batch" "distinct (map feed_name fs)"
    and exec: "ingest_execute nets env grp fs targets w = Some (summary, w')" and "sum_status summary = ''SUCCESS''"
  shows "\<exists>results w1 aggregated. fetch_all_feeds nets env fs w = (results, w1) \<and>
    list_all (\<lambda>x. \<not> isl (fr_records x)) results \<and> distinct aggregated \<and> aggregated \<noteq> [] \<and>
    set aggregated = {pr_address r |f x records r. (f, x) \<in> set (zip fs results) \<and> fr_records x = Inr records \<and>
      r \<in> set records \<and> admitted nets (utc_now (env_world (ig_client env)) w1) grp f r} \<and>
    (\<forall>t v. (t, v) \<in> set targets \<longrightarrow> (\<exists>vault. v = Some vault \<and>
       grp_of (key_of vault (effective_group (group_target_group_name grp) (gt_target_group_name t))) w' =
       apply_batch (base_mode grp) (map address_record aggregated)
         (grp_of (key_of vault (effective_group (group_target_group_name grp) (gt_target_group_name t))) w1))) \<and>
    (\<forall>k. (\<forall>t vault. (t, Some vault) \<in> set targets \<longrightarrow>
          k \<noteq> key_of vault (effective_group (group_target_group_name grp) (gt_target_group_name t))) \<longrightarrow>
       grp_of k w' = grp_of k w1)"
proof -
  obtain results w1 where f: "fetch_all_feeds nets env fs w = (results, w1)" by fastforce
  obtain agg sent errors any where a: "aggregate nets (ig_earliest env) (utc_now (env_world (ig_client env)) w1) grp fs results
       \<lparr>ag_seen = {}, ag_aggregated = [], ag_errors = [], ag_bogons = 0\<rparr> = Some agg"
    and p: "push_group_targets (ig_client env) (base_mode grp) (group_target_group_name grp)
       (chunk_records (ag_aggregated agg) MAX_BATCH_SIZE) targets 0 (ag_errors agg) (targets = []) w1 = ((sent, errors, any), w')"
    and st: "sum_status summary = ingest_status (fs \<noteq> [] \<and> length (ag_errors agg) = length fs) errors (length (ag_aggregated agg)) any"
    using exec f by (rule ingest_executeE)
  have e: "errors = []" "ag_aggregated agg \<noteq> []"
    using st assms(5) by (auto simp: ingest_status_def split: if_splits)
  then have ae: "ag_errors agg = []" using push_group_targets_errors [OF p] by simp
  note spec = aggregate_spec [OF a agg_inv_start]
  have ok: "list_all (\<lambda>x. \<not> isl (fr_records x)) results"
    using spec ae by (auto simp: list_all_iff filter_empty_conv)
  have "set (ag_aggregated agg) = {pr_address r |f x records r. (f, x) \<in> set (zip fs results) \<and> fr_records x = Inr records \<and>
      r \<in> set records \<and> admitted nets (utc_now (env_world (ig_client env)) w1) grp f r}"
    using spec ip_network.aggregated_set [OF assms(1) a assms(3) fetched_names [OF f]] by simp
  moreover have "distinct (ag_aggregated agg)" using spec by (simp add: agg_inv_def)
  moreover have del: "(\<forall>(t, vo) \<in> set targets. vo \<noteq> None) \<and>
     (\<forall>k. grp_of k w' = (if k \<in> vault_fleet.group_keys key_of (group_target_group_name grp) targets
        then apply_batch (base_mode grp) (map address_record (ag_aggregated agg)) (grp_of k w1) else grp_of k w1))"
    using vault_fleet.push_group_delivers [OF assms(2) p [unfolded e(1) ae]] e(2)
    by (simp add: chunks_empty_iff concat_batches)
  ultimately show ?thesis
    using f ok e(2) unfolding vault_fleet.group_keys_def [OF assms(2)]
    by (intro exI [of _ results] exI [of _ w1] exI [of _ "ag_aggregated agg"] conjI) (fastforce simp only: mem_Collect_eq if_True if_False split: if_splits)+
qed

text \<open>
  A harvest without data touches no vault: when every feed failed or listed nothing, no request
  is sent to any target, also in the mode that replaces a group's whole content, and the
  execution does not report success.\<close>

theorem empty_harvest_sends_nothing:
  assumes "ingest_execute nets env grp fs targets w = Some (summary, w')" "fetch_all_feeds nets env fs w = (results, w1)"
    and "\<And>x. x \<in> set results \<Longrightarrow> isl (fr_records x) \<or> fr_records x = Inr []"
  shows "w' = w1 \<and> sum_status summary \<noteq> ''SUCCESS''"
proof -
  obtain agg sent errors any where a: "aggregate nets (ig_earliest env) (utc_now (env_world (ig_client env)) w1) grp fs results
       \<lparr>ag_seen = {}, ag_aggregated = [], ag_errors = [], ag_bogons = 0\<rparr> = Some agg"
    and p: "push_group_targets (ig_client env) (base_mode grp) (group_target_group_name grp)
       (chunk_records (ag_aggregated agg) MAX_BATCH_SIZE) targets 0 (ag_errors agg) (targets = []) w1 = ((sent, errors, any), w')"
    and st: "sum_status summary = ingest_status (fs \<noteq> [] \<and> length (ag_errors agg) = length fs) errors (length (ag_aggregated agg)) any"
    using assms(1,2) by (rule ingest_executeE)
  have "contributed nets earliest t grp fs x = {}" if "x \<in> set results" for earliest t x
    using assms(3) [OF that]
    by (cases "fr_records x") (auto simp: contributed_def feed_addresses_def apply_temporal_filter_def sanitize_def Let_def split: option.splits if_splits)
  then have "ag_aggregated agg = []" using aggregate_spec [OF a agg_inv_start] by simp
  then show ?thesis using push_nothing p st by (auto simp: ingest_status_def)
qed

text \<open>
  An age limit that reaches back before the earliest date the date library can represent makes
  every execution of the group panic as soon as the feed has been fetched and parsed: no
  record is pushed and neither a log row nor the time of the run is written.\<close>

theorem large_age_limit_panics:
  assumes "fetch_all_feeds nets env (filter (\<lambda>f. feed_group_id f = i) (feeds db)) w = (results, w1)" "db_ok db"
    and "(f, x) \<in> set (zip (filter (\<lambda>f. feed_group_id f = i) (feeds db)) results)" "\<not> isl (fr_records x)"
    and "feed_max_age_days f = Some d" "utc_now (env_world (ig_client env)) w1 - d * day_ms < ig_earliest env"
    and "find_group db i = Some grp"
  shows "ingest_run nets env fresh_id i db w = None"
proof -
  let ?fs = "filter (\<lambda>f. feed_group_id f = i) (feeds db)"
  obtain records where r: "fr_records x = Inr records" using assms(4) by (cases "fr_records x") auto
  have f: "f \<in> set ?fs" "x \<in> set results" using assms(3) by (auto dest: set_zip_leftD set_zip_rightD)
  have "distinct (map feed_name ?fs)"
    using assms(2) by (simp add: db_ok_defs distinct_map_filter)
  moreover have "fr_feed_name x = feed_name f"
    using fetched_names [OF assms(1)] assms(3,4) by (auto simp: list_all2_iff)
  ultimately have "List.find (\<lambda>g. feed_name g = fr_feed_name x) ?fs = Some f" using find_by_name [OF _ f(1)] by simp
  then have "feed_addresses nets (ig_earliest env) (utc_now (env_world (ig_client env)) w1) grp
      (List.find (\<lambda>g. feed_name g = fr_feed_name x) ?fs) records = None"
    using assms(5,6) by (simp add: feed_addresses_def apply_temporal_filter_def Let_def)
  then have "aggregate nets (ig_earliest env) (utc_now (env_world (ig_client env)) w1) grp ?fs results st = None" for st
    using aggregate_defined [of nets "ig_earliest env" "utc_now (env_world (ig_client env)) w1" grp ?fs results st, OF _ f(2) r]
    by (meson not_None_eq)
  then show ?thesis using assms(1,7) by (simp add: ingest_run_def ingest_execute_def ingest_results_def Let_def)
qed

section \<open>Witnesses\<close>

definition token_ops :: feed_ops where
  "token_ops = word_ops\<lparr>ip_tokens := (\<lambda>_. [''8.8.8.8'', ''10.0.0.1'', ''8.8.8.8''])\<rparr>"

definition sim_ingest :: "sim_world ingest_env" where
  "sim_ingest = \<lparr>ig_client = sim_env, ig_ops = token_ops, ig_open_zip = two_files, ig_status_text = dec,
     ig_max_decompressed_bytes = 100, ig_earliest = - 1000 * day_ms, ig_join_error = (\<lambda>_ _. None)\<rparr>"

definition sim_feed :: external_source where
  "sim_feed = \<lparr>feed_id = 8, feed_group_id = 6, feed_name = ''f'', feed_source_url = ''0'', feed_parser_type = ''REGEX_LINE'',
     feed_parser_config_json = None, feed_max_age_days = None, feed_skip_bogon_filtering = None,
     feed_created_at = 0, feed_updated_at = 0\<rparr>"

definition sim_dest :: destination_group where
  "sim_dest = \<lparr>group_id = 6, group_name = ''d'', group_target_group_name = ''dst'', group_cron_schedule = ''0 0 * * * *'',
     group_mode = ''full_replace'', group_is_active = True, group_skip_bogon_filtering = False, group_last_run_at = None,
     group_owner_key_id = None, group_created_at = 0, group_updated_at = 0\<rparr>"

definition sim_group_target :: group_target where
  "sim_group_target = \<lparr>gt_group_id = 6, gt_vault_id = 1, gt_target_group_name = None\<rparr>"

definition address_only :: "string \<Rightarrow> parsed_record" where
  "address_only a = \<lparr>pr_address = a, pr_last_seen_at = None\<rparr>"

lemma sim_once_feed: "fetch_once (env_world sim_env) (feed_request ''0'' fetch_options_default) w = (Inr (sim_reply 200), w)"
  by (simp add: fetch_once_def feed_request_def sim_env_simps sim_send_def sim_reply_def is_success_def)

lemma sim_fetch:
  "fetch_and_parse cidr_ops sim_ingest ''0'' ''REGEX_LINE'' None w = (Inr (map address_only [''8.8.8.8'', ''10.0.0.1'', ''8.8.8.8'']), w)"
proof -
  have "retry_loop (env_world sim_env) (env_retry sim_env) fetch_status
      (fetch_once (env_world sim_env) (feed_request ''0'' fetch_options_default)) 0 w = (Inr (sim_reply 200), w)"
    using retry_loop_once [of fetch_status "fetch_once (env_world sim_env) (feed_request ''0'' fetch_options_default)" w]
    by (simp add: sim_once_feed transient_failure_def)
  moreover have "read_capped_body (sim_reply 200) 100 = Inr ''ok''" "decompress_if_zip two_files ''ok'' 100 = Inr ''ok''"
    by code_simp+
  moreover have "parse_feed cidr_ops token_ops ''REGEX_LINE'' ''ok'' None = Inr (map address_only [''8.8.8.8'', ''10.0.0.1'', ''8.8.8.8''])"
    by code_simp
  ultimately show ?thesis
    by (simp add: fetch_and_parse_def sim_ingest_def fetch_options_from_config_def)
qed

lemma sim_fetch_all:
  "feed_source_url f = ''0'' \<Longrightarrow> feed_parser_type f = ''REGEX_LINE'' \<Longrightarrow> feed_parser_config_json f = None \<Longrightarrow>
   fetch_all_feeds cidr_ops sim_ingest [f] w =
     ([\<lparr>fr_feed_name = feed_name f, fr_records = Inr (map address_only [''8.8.8.8'', ''10.0.0.1'', ''8.8.8.8''])\<rparr>], w)"
  by (simp add: sim_fetch) (simp add: sim_ingest_def)

lemma sim_sanitize: "sanitize cidr_ops [''8.8.8.8'', ''10.0.0.1'', ''8.8.8.8''] = ([''8.8.8.8'', ''8.8.8.8''], 1)"
  by code_simp

lemma sim_ingest_run:
  "\<exists>summary w'. ingest_execute cidr_ops sim_ingest sim_dest [sim_feed] [(sim_group_target, Some sim_endpoint)]
      \<lparr>sim_live = (\<lambda>_. {''1.1.1.1''}), sim_limit = 9\<rparr> = Some (summary, w') \<and> sum_status summary = ''SUCCESS''"
proof -
  have fetched: "fetch_all_feeds cidr_ops sim_ingest [sim_feed] w =
     ([\<lparr>fr_feed_name = ''f'', fr_records = Inr (map address_only [''8.8.8.8'', ''10.0.0.1'', ''8.8.8.8''])\<rparr>], w)" for w
    using sim_fetch_all [of sim_feed w] by (simp add: sim_feed_def)
  have "chunk_records [x] MAX_BATCH_SIZE = [[x]]" for x :: string
    by (simp add: chunk_records_step MAX_BATCH_SIZE_def)
  moreover have "base_mode sim_dest = FullReplace" by code_simp
  ultimately show ?thesis
    unfolding ingest_execute_def fetched ingest_results_def
    by (simp add: sim_feed_def sim_dest_def sim_group_target_def sim_ingest_def feed_addresses_def apply_temporal_filter_def
        feed_skips_def address_only_def sim_sanitize post_batch_def sim_retry mode_for_chunk_index_def ingest_status_def Let_def)
qed

theorem ingestion_success_delivers_witness:
  "\<exists>summary w'. ingest_execute cidr_ops sim_ingest sim_dest [sim_feed] [(sim_group_target, Some sim_endpoint)]
      \<lparr>sim_live = (\<lambda>_. {''1.1.1.1''}), sim_limit = 9\<rparr> = Some (summary, w') \<and>
    sim_group (sim_key sim_endpoint ''dst'') w' = {''8.8.8.8''}"
proof -
  let ?w = "\<lparr>sim_live = (\<lambda>_. {''1.1.1.1''}), sim_limit = 9\<rparr>"
  obtain summary w' where run: "ingest_execute cidr_ops sim_ingest sim_dest [sim_feed] [(sim_group_target, Some sim_endpoint)] ?w
      = Some (summary, w')" and st: "sum_status summary = ''SUCCESS''"
    using sim_ingest_run by blast
  have fleet: "vault_fleet (ig_client sim_ingest) sim_key sim_group apply_live"
    using sim_fleet.vault_fleet_axioms by (simp add: sim_ingest_def)
  obtain results w1 aggregated where d: "fetch_all_feeds cidr_ops sim_ingest [sim_feed] ?w = (results, w1)" "distinct aggregated"
    "set aggregated = {pr_address r |f x records r. (f, x) \<in> set (zip [sim_feed] results) \<and> fr_records x = Inr records \<and>
      r \<in> set records \<and> admitted cidr_ops (utc_now (env_world (ig_client sim_ingest)) w1) sim_dest f r}"
    "sim_group (sim_key sim_endpoint (effective_group (group_target_group_name sim_dest) (gt_target_group_name sim_group_target))) w' =
      apply_live (base_mode sim_dest) (map address_record aggregated)
       (sim_group (sim_key sim_endpoint (effective_group (group_target_group_name sim_dest) (gt_target_group_name sim_group_target))) w1)"
    using ingestion_success_delivers [OF cidr_net.ip_network_axioms fleet _ run st] by auto
  have r: "results = [\<lparr>fr_feed_name = ''f'', fr_records = Inr (map address_only [''8.8.8.8'', ''10.0.0.1'', ''8.8.8.8''])\<rparr>]"
    using d(1) sim_fetch_all [of sim_feed ?w] by (simp add: sim_feed_def)
  have "record_routable cidr_ops ''8.8.8.8''" "\<not> record_routable cidr_ops ''10.0.0.1''"
    using sim_sanitize by (auto simp: cidr_net.sanitize_eq split: if_splits)
  then have "set aggregated = {''8.8.8.8''}"
    unfolding d(3) r
    by (auto simp: admitted_def recent_def address_only_def feed_skips_def sim_feed_def sim_dest_def intro!: exI [of _ "address_only ''8.8.8.8''"])
  then have "map address_record aggregated = [address_record ''8.8.8.8'']"
    using d(2) by (cases aggregated rule: remdups_adj.cases) (auto simp: insert_eq_iff)
  moreover have "base_mode sim_dest = FullReplace" by code_simp
  moreover have "apply_live FullReplace [address_record ''8.8.8.8''] S = {''8.8.8.8''}" for S
    by (simp add: apply_live_def live_item_def is_tombstone_def address_record_def)
  ultimately have "sim_group (sim_key sim_endpoint ''dst'') w' = {''8.8.8.8''}"
    using d(4) by (simp add: sim_dest_def sim_group_target_def effective_group_def)
  with run show ?thesis by blast
qed

theorem empty_harvest_sends_nothing_witness:
  "\<exists>summary. ingest_execute cidr_ops sim_ingest sim_dest [] [(sim_group_target, Some sim_endpoint)]
      \<lparr>sim_live = (\<lambda>_. {''1.1.1.1''}), sim_limit = 9\<rparr> = Some (summary, \<lparr>sim_live = (\<lambda>_. {''1.1.1.1''}), sim_limit = 9\<rparr>) \<and>
    sum_status summary \<noteq> ''SUCCESS''"
proof -
  let ?w = "\<lparr>sim_live = (\<lambda>_. {''1.1.1.1''}), sim_limit = 9\<rparr>"
  obtain summary w' where run: "ingest_execute cidr_ops sim_ingest sim_dest [] [(sim_group_target, Some sim_endpoint)] ?w = Some (summary, w')"
    by (fastforce simp: ingest_execute_def ingest_results_def Let_def split: prod.splits)
  from empty_harvest_sends_nothing [OF run, of "[]" ?w] run show ?thesis by simp
qed

definition stale_feed :: external_source where
  "stale_feed = sim_feed\<lparr>feed_max_age_days := Some 2147483647\<rparr>"

definition stale_db :: database where
  "stale_db = \<lparr>api_keys = [], permissions = [], vaults = [sim_endpoint], groups = [sim_dest], group_targets = [sim_group_target],
     feeds = [stale_feed], tasks = [], task_targets = [], sync_logs = [], audit_logs = []\<rparr>"

theorem large_age_limit_panics_witness:
  "ingest_run cidr_ops sim_ingest 99 6 stale_db \<lparr>sim_live = (\<lambda>_. {}), sim_limit = 9\<rparr> = None"
proof -
  let ?w = "\<lparr>sim_live = (\<lambda>_. {}), sim_limit = 9\<rparr>"
  let ?x = "\<lparr>fr_feed_name = ''f'', fr_records = Inr (map address_only [''8.8.8.8'', ''10.0.0.1'', ''8.8.8.8''])\<rparr>"
  have fs: "filter (\<lambda>f. feed_group_id f = 6) (feeds stale_db) = [stale_feed]" "find_group stale_db 6 = Some sim_dest"
    by (simp_all add: stale_db_def stale_feed_def sim_feed_def find_group_def sim_dest_def)
  have f: "fetch_all_feeds cidr_ops sim_ingest [stale_feed] ?w = ([?x], ?w)"
    using sim_fetch_all [of stale_feed ?w] by (simp add: stale_feed_def sim_feed_def)
  have ok: "db_ok stale_db"
    by (simp add: db_ok_defs stale_db_def stale_feed_def sim_feed_def sim_dest_def sim_endpoint_def sim_group_target_def)
  show ?thesis
    by (rule large_age_limit_panics [of _ _ 6 stale_db, unfolded fs, OF f ok _ _ _ _ refl, of stale_feed ?x 2147483647])
      (simp_all add: stale_feed_def sim_ingest_def day_ms_def sim_env_def)
qed

end
