(* ===== verification/SourceApi.thy ===== *)
theory SourceApi
  imports TaskApi Ingestion
begin

text \<open>
  \<open>src/api/sources.rs\<close>: destination groups and their feeds. Groups follow the pattern of the
  synchronisation tasks (transaction, then scheduler); feeds carry no permissions of their own and
  answer to those of their group. The last part is the test fetch, which changes nothing.
\<close>

section \<open>Payloads and responses\<close>

record feed_response =
  fr_feed :: external_source

definition to_feed_response :: "external_source \<Rightarrow> feed_response" where
  "to_feed_response m = \<lparr>fr_feed = m\<rparr>"

record group_response =
  gr_group :: destination_group
  gr_targets :: "target_spec list"
  gr_feeds :: "feed_response list"

definition load_group_targets :: "database \<Rightarrow> uuid \<Rightarrow> target_spec list" where
  "load_group_targets db i =
     map (\<lambda>r. \<lparr>ts_vault_endpoint_id = gt_vault_id r, ts_target_group_name = gt_target_group_name r\<rparr>)
       (filter (\<lambda>r. gt_group_id r = i) (group_targets db))"

definition load_feeds :: "database \<Rightarrow> uuid \<Rightarrow> feed_response list" where
  "load_feeds db i = map to_feed_response (filter (\<lambda>f. feed_group_id f = i) (feeds db))"

definition to_group_response :: "destination_group \<Rightarrow> target_spec list \<Rightarrow> feed_response list \<Rightarrow> group_response" where
  "to_group_response m targets fs = \<lparr>gr_group = m, gr_targets = targets, gr_feeds = fs\<rparr>"

record create_group_payload =
  cg_name :: string
  cg_target_group_name :: string
  cg_cron_schedule :: string
  cg_mode :: string
  cg_is_active :: bool
  cg_skip_bogon_filtering :: bool
  cg_targets :: "target_spec list"

record update_group_payload =
  ug_name :: "string option"
  ug_target_group_name :: "string option"
  ug_cron_schedule :: "string option"
  ug_mode :: "string option"
  ug_is_active :: "bool option"
  ug_skip_bogon_filtering :: "bool option"
  ug_targets :: "target_spec list option"

definition validate_mode :: "string \<Rightarrow> app_error + unit" where
  "validate_mode m = (if batch_mode_parse m = None then Inl (InvalidInput ''mode must be upsert or full_replace'') else Inr ())"

definition validate_mode_opt :: "string option \<Rightarrow> app_error + unit" where
  "validate_mode_opt m = (case m of None \<Rightarrow> Inr () | Some s \<Rightarrow> validate_mode s)"

section \<open>Groups\<close>

definition group_visible_to :: "database \<Rightarrow> api_key \<Rightarrow> destination_group \<Rightarrow> bool" where
  "group_visible_to db caller g = resource_visible db caller RESOURCE_DESTINATION_GROUP (group_id g) (group_owner_key_id g)"

definition list_destination_groups :: "api_key \<Rightarrow> database \<Rightarrow> group_response list" where
  "list_destination_groups caller db =
     map (\<lambda>g. to_group_response g (load_group_targets db (group_id g)) (load_feeds db (group_id g)))
       (filter (group_visible_to db caller) (groups db))"

definition get_destination_group :: "api_key \<Rightarrow> uuid \<Rightarrow> database \<Rightarrow> app_error + group_response" where
  "get_destination_group caller i db =
     ebind (ok_or NotFound (find_group db i)) (\<lambda>g.
     if \<not> group_visible_to db caller g then Inl NotFound
     else Inr (to_group_response g (load_group_targets db i) (load_feeds db i)))"

definition new_group :: "request_env \<Rightarrow> api_key \<Rightarrow> create_group_payload \<Rightarrow> destination_group" where
  "new_group rq caller p =
     \<lparr>group_id = fresh rq 0, group_name = cg_name p, group_target_group_name = cg_target_group_name p,
      group_cron_schedule = cg_cron_schedule p, group_mode = cg_mode p, group_is_active = cg_is_active p,
      group_skip_bogon_filtering = cg_skip_bogon_filtering p, group_last_run_at = None,
      group_owner_key_id = Some (key_id caller), group_created_at = now rq, group_updated_at = now rq\<rparr>"

definition group_target_rows :: "uuid \<Rightarrow> target_spec list \<Rightarrow> group_target list" where
  "group_target_rows i targets =
     map (\<lambda>t. \<lparr>gt_group_id = i, gt_vault_id = ts_vault_endpoint_id t, gt_target_group_name = ts_target_group_name t\<rparr>) targets"

definition create_group_txn :: "request_env \<Rightarrow> api_key \<Rightarrow> create_group_payload \<Rightarrow> database \<Rightarrow> app_error + database" where
  "create_group_txn rq caller p db =
     ebind (conflict_on_unique ''destination group'' (cg_name p) (insert_group (new_group rq caller p) db)) (\<lambda>db1.
     ebind (sql (insert_group_targets (group_target_rows (fresh rq 0) (cg_targets p)) db1)) (\<lambda>db2.
     ebind (grant_full_permission (fresh rq 1) (now rq) (key_id caller) RESOURCE_DESTINATION_GROUP (fresh rq 0) db2) (\<lambda>db3.
     create_audit_log (fresh rq 2) (now rq) caller (client_ip rq) ''GROUP_CREATE'' (Some (cg_name p)) None db3)))"

definition create_destination_group ::
  "('b, 'j) cron_backend \<Rightarrow> request_env \<Rightarrow> api_key \<Rightarrow> create_group_payload \<Rightarrow> ('b, 'j) app_state
    \<Rightarrow> (app_error + group_response) \<times> ('b, 'j) app_state"
where
  "create_destination_group bk rq caller p st =
     try_h (guard_resource_creation caller (can_manage_sources caller)) st (\<lambda>_.
     try_h (validate_mode (cg_mode p)) st (\<lambda>_.
     try_h (check_cron bk (cg_cron_schedule p)) st (\<lambda>_.
     try_h (create_group_txn rq caller p (app_db st)) st (\<lambda>db.
     let row = new_group rq caller p in
     (Inr (to_group_response row (cg_targets p) []),
      st\<lparr>app_db := db, app_sched := upsert_source bk row (app_sched st)\<rparr>)))))"

definition apply_group_update :: "instant \<Rightarrow> update_group_payload \<Rightarrow> destination_group \<Rightarrow> destination_group" where
  "apply_group_update t p m =
     m\<lparr>group_name := or_else (ug_name p) (group_name m),
       group_target_group_name := or_else (ug_target_group_name p) (group_target_group_name m),
       group_cron_schedule := or_else (ug_cron_schedule p) (group_cron_schedule m),
       group_mode := or_else (ug_mode p) (group_mode m),
       group_is_active := or_else (ug_is_active p) (group_is_active m),
       group_skip_bogon_filtering := or_else (ug_skip_bogon_filtering p) (group_skip_bogon_filtering m),
       group_updated_at := t\<rparr>"

definition replace_group_targets :: "uuid \<Rightarrow> target_spec list option \<Rightarrow> database \<Rightarrow> db_err + database" where
  "replace_group_targets i targets db =
     (case targets of None \<Rightarrow> Inr db
      | Some ts \<Rightarrow> insert_group_targets (group_target_rows i ts) (delete_group_targets i db))"

definition update_group_txn ::
  "request_env \<Rightarrow> api_key \<Rightarrow> uuid \<Rightarrow> destination_group \<Rightarrow> target_spec list option \<Rightarrow> database \<Rightarrow> app_error + database" where
  "update_group_txn rq caller i row targets db =
     ebind (sql (update_group row db)) (\<lambda>db1.
     ebind (sql (replace_group_targets i targets db1)) (\<lambda>db2.
     create_audit_log (fresh rq 0) (now rq) caller (client_ip rq) ''GROUP_UPDATE'' (Some (group_name row)) None db2))"

definition update_destination_group ::
  "('b, 'j) cron_backend \<Rightarrow> request_env \<Rightarrow> api_key \<Rightarrow> uuid \<Rightarrow> update_group_payload \<Rightarrow> ('b, 'j) app_state
    \<Rightarrow> (app_error + group_response) \<times> ('b, 'j) app_state"
where
  "update_destination_group bk rq caller i p st =
     try_h (ok_or NotFound (find_group (app_db st) i)) st (\<lambda>existing.
     try_h (guard_resource_manage caller (find_permission (app_db st) (key_id caller) RESOURCE_DESTINATION_GROUP i)) st (\<lambda>_.
     try_h (check_cron_opt bk (ug_cron_schedule p)) st (\<lambda>_.
     try_h (validate_mode_opt (ug_mode p)) st (\<lambda>_.
     let row = apply_group_update (now rq) p existing in
     try_h (update_group_txn rq caller i row (ug_targets p) (app_db st)) st (\<lambda>db.
     (Inr (to_group_response row (load_group_targets db i) (load_feeds db i)),
      st\<lparr>app_db := db, app_sched := upsert_source bk row (app_sched st)\<rparr>))))))"

definition delete_destination_group ::
  "('b, 'j) cron_backend \<Rightarrow> request_env \<Rightarrow> api_key \<Rightarrow> uuid \<Rightarrow> ('b, 'j) app_state
    \<Rightarrow> (app_error + unit) \<times> ('b, 'j) app_state"
where
  "delete_destination_group bk rq caller i st =
     try_h (ok_or NotFound (find_group (app_db st) i)) st (\<lambda>existing.
     try_h (guard_resource_lifecycle caller (group_owner_key_id existing)) st (\<lambda>_.
     if \<not> has_group (app_db st) i then (Inl NotFound, st)
     else let st1 = st\<lparr>app_db := delete_group_row i (app_db st), app_sched := remove_source bk i (app_sched st)\<rparr> in
     try_h (create_audit_log (fresh rq 0) (now rq) caller (client_ip rq) ''GROUP_DELETE'' (Some (group_name existing)) None
              (app_db st1)) st1 (\<lambda>db.
     (Inr (), st1\<lparr>app_db := db\<rparr>))))"

text \<open>As for tasks, the job guard is released on every exit, the panic of a run (\<open>None\<close>) included.\<close>

definition trigger_destination_group ::
  "'n ipnet_ops \<Rightarrow> 'w ingest_env \<Rightarrow> request_env \<Rightarrow> api_key \<Rightarrow> uuid \<Rightarrow> ('b, 'j) app_state \<Rightarrow> 'w
    \<Rightarrow> (((app_error + job_summary) \<times> ('b, 'j) app_state) \<times> 'w) option"
where
  "trigger_destination_group nets env rq caller i st w =
     (case find_group (app_db st) i of
        None \<Rightarrow> Some ((Inl NotFound, st), w)
      | Some existing \<Rightarrow>
     (case guard_can_sync caller (find_permission (app_db st) (key_id caller) RESOURCE_DESTINATION_GROUP i) of
        Inl e \<Rightarrow> Some ((Inl e, st), w)
      | Inr _ \<Rightarrow>
     (case try_start_job (app_jobs st) i of
        (False, rj) \<Rightarrow> Some ((Inl (Conflict ''a sync for this group is already in progress''), st\<lparr>app_jobs := rj\<rparr>), w)
      | (True, rj) \<Rightarrow>
     (case create_audit_log (fresh rq 0) (now rq) caller (client_ip rq) ''GROUP_TRIGGER'' (Some (group_name existing)) None (app_db st) of
        Inl e \<Rightarrow> Some ((Inl e, st\<lparr>app_jobs := job_guard_drop rj i\<rparr>), w)
      | Inr db1 \<Rightarrow>
     (case ingest_run nets env (fresh rq 1) i db1 w of
        None \<Rightarrow> None
      | Some ((r, db2), w') \<Rightarrow> Some ((r, st\<lparr>app_db := db2, app_jobs := job_guard_drop rj i\<rparr>), w'))))))"

section \<open>Feeds\<close>

definition validate_feed_parser :: "feed_ops \<Rightarrow> string \<Rightarrow> string option \<Rightarrow> app_error + unit" where
  "validate_feed_parser ops parser_type config =
     (if parser_type \<noteq> ''REGEX_LINE'' \<and> parser_type \<noteq> ''JSON_PATH''
      then Inl (InvalidInput ''parser_type must be REGEX_LINE or JSON_PATH'')
      else if parser_type = ''JSON_PATH''
      then map_err (\<lambda>e. InvalidInput (''invalid parser_config_json: '' @ e)) (validate_config ops config)
      else Inr ())"

definition validate_max_age_days :: "int option \<Rightarrow> app_error + unit" where
  "validate_max_age_days d =
     (case d of None \<Rightarrow> Inr ()
      | Some n \<Rightarrow> if n \<le> 0 then Inl (InvalidInput ''max_age_days must be a positive integer'') else Inr ())"

record create_feed_payload =
  cf_name :: string
  cf_source_url :: string
  cf_parser_type :: string
  cf_parser_config_json :: "string option"
  cf_max_age_days :: "int option"
  cf_skip_bogon_filtering :: "bool option"

record update_feed_payload =
  uf_name :: "string option"
  uf_source_url :: "string option"
  uf_parser_type :: "string option"
  uf_parser_config_json :: "string option"
  uf_max_age_days :: "int option"
  uf_skip_bogon_filtering :: "bool option"

definition load_feed_in_group :: "database \<Rightarrow> uuid \<Rightarrow> uuid \<Rightarrow> app_error + external_source" where
  "load_feed_in_group db g i =
     ebind (ok_or NotFound (find_feed db i)) (\<lambda>feed.
     if feed_group_id feed \<noteq> g then Inl NotFound else Inr feed)"

definition new_feed :: "request_env \<Rightarrow> uuid \<Rightarrow> create_feed_payload \<Rightarrow> external_source" where
  "new_feed rq g p =
     \<lparr>feed_id = fresh rq 0, feed_group_id = g, feed_name = cf_name p, feed_source_url = cf_source_url p,
      feed_parser_type = cf_parser_type p, feed_parser_config_json = cf_parser_config_json p,
      feed_max_age_days = cf_max_age_days p, feed_skip_bogon_filtering = cf_skip_bogon_filtering p,
      feed_created_at = now rq, feed_updated_at = now rq\<rparr>"

definition create_feed ::
  "feed_ops \<Rightarrow> request_env \<Rightarrow> api_key \<Rightarrow> uuid \<Rightarrow> create_feed_payload \<Rightarrow> database \<Rightarrow> (app_error + feed_response) \<times> database"
where
  "create_feed ops rq caller g p db =
     try_h (ok_or NotFound (find_group db g)) db (\<lambda>_.
     try_h (guard_resource_manage caller (find_permission db (key_id caller) RESOURCE_DESTINATION_GROUP g)) db (\<lambda>_.
     try_h (validate_feed_parser ops (cf_parser_type p) (cf_parser_config_json p)) db (\<lambda>_.
     try_h (validate_max_age_days (cf_max_age_days p)) db (\<lambda>_.
     let row = new_feed rq g p in
     try_h (conflict_on_unique ''feed'' (cf_name p) (insert_feed row db)) db (\<lambda>db1.
     try_h (create_audit_log (fresh rq 1) (now rq) caller (client_ip rq) ''FEED_CREATE'' (Some (feed_name row)) None db1) db1 (\<lambda>db2.
     (Inr (to_feed_response row), db2)))))))"

definition apply_feed_update :: "instant \<Rightarrow> update_feed_payload \<Rightarrow> external_source \<Rightarrow> external_source" where
  "apply_feed_update t p m =
     m\<lparr>feed_name := or_else (uf_name p) (feed_name m),
       feed_source_url := or_else (uf_source_url p) (feed_source_url m),
       feed_parser_type := or_else (uf_parser_type p) (feed_parser_type m),
       feed_parser_config_json := (case uf_parser_config_json p of None \<Rightarrow> feed_parser_config_json m | Some c \<Rightarrow> Some c),
       feed_max_age_days := (case uf_max_age_days p of None \<Rightarrow> feed_max_age_days m | Some d \<Rightarrow> Some d),
       feed_skip_bogon_filtering := (case uf_skip_bogon_filtering p of None \<Rightarrow> feed_skip_bogon_filtering m | Some b \<Rightarrow> Some b),
       feed_updated_at := t\<rparr>"

definition update_feed ::
  "feed_ops \<Rightarrow> request_env \<Rightarrow> api_key \<Rightarrow> uuid \<Rightarrow> uuid \<Rightarrow> update_feed_payload \<Rightarrow> database
    \<Rightarrow> (app_error + feed_response) \<times> database"
where
  "update_feed ops rq caller g i p db =
     try_h (load_feed_in_group db g i) db (\<lambda>existing.
     try_h (guard_resource_manage caller (find_permission db (key_id caller) RESOURCE_DESTINATION_GROUP g)) db (\<lambda>_.
     let effective_parser_type = or_else (uf_parser_type p) (feed_parser_type existing);
         effective_config = (case uf_parser_config_json p of None \<Rightarrow> feed_parser_config_json existing | Some c \<Rightarrow> Some c) in
     try_h (validate_feed_parser ops effective_parser_type effective_config) db (\<lambda>_.
     try_h (validate_max_age_days (uf_max_age_days p)) db (\<lambda>_.
     let row = apply_feed_update (now rq) p existing in
     try_h (sql (update_feed_row row db)) db (\<lambda>db1.
     try_h (create_audit_log (fresh rq 0) (now rq) caller (client_ip rq) ''FEED_UPDATE'' (Some (feed_name row)) None db1) db1 (\<lambda>db2.
     (Inr (to_feed_response row), db2)))))))"

definition delete_feed ::
  "request_env \<Rightarrow> api_key \<Rightarrow> uuid \<Rightarrow> uuid \<Rightarrow> database \<Rightarrow> (app_error + unit) \<times> database"
where
  "delete_feed rq caller g i db =
     try_h (load_feed_in_group db g i) db (\<lambda>existing.
     try_h (guard_resource_manage caller (find_permission db (key_id caller) RESOURCE_DESTINATION_GROUP g)) db (\<lambda>_.
     if find_feed db i = None then (Inl NotFound, db)
     else let db1 = delete_feed_row i db in
     try_h (create_audit_log (fresh rq 0) (now rq) caller (client_ip rq) ''FEED_DELETE'' (Some (feed_name existing)) None db1) db1 (\<lambda>db2.
     (Inr (), db2))))"

section \<open>Test fetch\<close>

record test_fetch_payload =
  tf_source_url :: string
  tf_parser_type :: string
  tf_parser_config_json :: "string option"

record test_fetch_response =
  tfr_status :: string
  tfr_total_extracted :: nat
  tfr_sample :: "string list"
  tfr_truncated :: bool
  tfr_duration_ms :: int
  tfr_error :: "string option"

definition TEST_FETCH_SAMPLE_LIMIT :: nat where
  "TEST_FETCH_SAMPLE_LIMIT = 50"

definition test_fetch_external_source ::
  "'n ipnet_ops \<Rightarrow> 'w ingest_env \<Rightarrow> api_key \<Rightarrow> test_fetch_payload \<Rightarrow> 'w \<Rightarrow> (app_error + test_fetch_response) \<times> 'w"
where
  "test_fetch_external_source nets env caller p w =
     try_h (guard_resource_creation caller (can_manage_sources caller)) w (\<lambda>_.
     try_h (validate_feed_parser (ig_ops env) (tf_parser_type p) (tf_parser_config_json p)) w (\<lambda>_.
     let start = monotonic_now (env_world (ig_client env)) w in
     case fetch_and_parse nets env (tf_source_url p) (tf_parser_type p) (tf_parser_config_json p) w of
       (result, w1) \<Rightarrow>
         let (status, total, sample, error) =
           (case result of
              Inr records \<Rightarrow>
                (let deduped = ag_aggregated (push_unseen (map pr_address records)
                       \<lparr>ag_seen = {}, ag_aggregated = [], ag_errors = [], ag_bogons = 0\<rparr>) in
                 if deduped = [] then (''PARTIAL'', 0, [], None)
                 else (''SUCCESS'', length deduped, take TEST_FETCH_SAMPLE_LIMIT deduped, None))
            | Inl e \<Rightarrow> (''FAILED'', 0, [], Some e))
         in (Inr \<lparr>tfr_status = status, tfr_total_extracted = total, tfr_sample = sample,
               tfr_truncated = (TEST_FETCH_SAMPLE_LIMIT < total),
               tfr_duration_ms = elapsed_ms (ig_client env) start w1, tfr_error = error\<rparr>, w1)))"

section \<open>Requests\<close>

datatype source_request =
    CreateGroup create_group_payload
  | UpdateGroup uuid update_group_payload
  | DeleteGroup uuid
  | CreateFeed uuid create_feed_payload
  | UpdateFeed uuid uuid update_feed_payload
  | DeleteFeed uuid uuid

fun handle_source ::
  "('b, 'j) cron_backend \<Rightarrow> feed_ops \<Rightarrow> request_env \<Rightarrow> api_key \<Rightarrow> source_request \<Rightarrow> ('b, 'j) app_state \<Rightarrow> ('b, 'j) app_state"
where
  "handle_source bk ops rq caller (CreateGroup p) st = snd (create_destination_group bk rq caller p st)"
| "handle_source bk ops rq caller (UpdateGroup i p) st = snd (update_destination_group bk rq caller i p st)"
| "handle_source bk ops rq caller (DeleteGroup i) st = snd (delete_destination_group bk rq caller i st)"
| "handle_source bk ops rq caller (CreateFeed g p) st = st\<lparr>app_db := snd (create_feed ops rq caller g p (app_db st))\<rparr>"
| "handle_source bk ops rq caller (UpdateFeed g i p) st = st\<lparr>app_db := snd (update_feed ops rq caller g i p (app_db st))\<rparr>"
| "handle_source bk ops rq caller (DeleteFeed g i) st = st\<lparr>app_db := snd (delete_feed rq caller g i (app_db st))\<rparr>"

section \<open>What each request does\<close>

text \<open>The stored configuration is one the jobs can run.\<close>

definition group_config_ok :: "('b, 'j) cron_backend \<Rightarrow> destination_group \<Rightarrow> bool" where
  "group_config_ok bk g \<longleftrightarrow>
     batch_mode_parse (group_mode g) \<noteq> None \<and> \<not> isl (validate_cron_expression bk (group_cron_schedule g))"

definition feed_config_ok :: "feed_ops \<Rightarrow> external_source \<Rightarrow> bool" where
  "feed_config_ok ops f \<longleftrightarrow>
     \<not> isl (validate_feed_parser ops (feed_parser_type f) (feed_parser_config_json f)) \<and>
     \<not> isl (validate_max_age_days (feed_max_age_days f))"

definition config_ok :: "('b, 'j) cron_backend \<Rightarrow> feed_ops \<Rightarrow> database \<Rightarrow> bool" where
  "config_ok bk ops db \<longleftrightarrow>
     list_all (group_config_ok bk) (groups db) \<and> list_all (feed_config_ok ops) (feeds db) \<and>
     list_all (\<lambda>t. \<not> isl (validate_cron_expression bk (task_cron_schedule t))) (tasks db)"

text \<open>A feed row appears, disappears or changes only for a caller with authority over its group.\<close>

definition feeds_authorized :: "api_key \<Rightarrow> database \<Rightarrow> external_source list \<Rightarrow> external_source list \<Rightarrow> bool" where
  "feeds_authorized caller db fs fs' \<longleftrightarrow>
     (\<forall>f. (f \<in> set fs) \<noteq> (f \<in> set fs') \<longrightarrow>
        manages db caller ''destination_group'' (feed_group_id f) \<or>
        (\<exists>g. find_group db (feed_group_id f) = Some g \<and> governs caller (group_owner_key_id g)))"

definition source_post ::
  "('b, 'j) cron_backend \<Rightarrow> feed_ops \<Rightarrow> api_key \<Rightarrow> database \<Rightarrow> database \<Rightarrow> bool" where
  "source_post bk ops caller db db' \<longleftrightarrow>
     (db_ok db \<longrightarrow> db_ok db') \<and>
     row_effect group_id group_owner_key_id ''destination_group'' (can_manage_sources caller) caller db (groups db) (groups db') \<and>
     feeds_authorized caller db (feeds db) (feeds db') \<and> (config_ok bk ops db \<longrightarrow> config_ok bk ops db') \<and> tasks db' = tasks db"

lemma feeds_authorized_same [simp]: "feeds_authorized caller db fs fs"
  by (simp add: feeds_authorized_def)

lemma source_post_same [simp]: "source_post bk ops caller db db"
  by (simp add: source_post_def re_none)

lemma insert_group_Inr [step_simps]:
  "insert_group g db = Inr db' \<longleftrightarrow> db' = db\<lparr>groups := groups db @ [g]\<rparr> \<and> db_ok db'"
  by (auto simp: insert_group_def)

lemma update_group_Inr [step_simps]:
  "update_group g db = Inr db' \<longleftrightarrow>
     has_group db (group_id g) \<and> db' = db\<lparr>groups := replace_row group_id g (groups db)\<rparr> \<and> db_ok db'"
  by (auto simp: update_group_def)

lemma insert_feed_Inr [step_simps]:
  "insert_feed f db = Inr db' \<longleftrightarrow> db' = db\<lparr>feeds := feeds db @ [f]\<rparr> \<and> db_ok db'"
  by (auto simp: insert_feed_def)

lemma update_feed_Inr [step_simps]:
  "update_feed_row f db = Inr db' \<longleftrightarrow>
     feed_id f \<in> set (map feed_id (feeds db)) \<and> db' = db\<lparr>feeds := replace_row feed_id f (feeds db)\<rparr> \<and> db_ok db'"
  by (auto simp: update_feed_row_def)

lemma create_group_txn_effect:
  assumes "create_group_txn rq caller p db = Inr db'"
  shows "db_ok db' \<and> groups db' = groups db @ [new_group rq caller p] \<and> feeds db' = feeds db \<and> tasks db' = tasks db"
proof -
  obtain db1 db2 db3 where i: "insert_group (new_group rq caller p) db = Inr db1"
    and t: "insert_group_targets (group_target_rows (fresh rq 0) (cg_targets p)) db1 = Inr db2"
    and g: "grant_full_permission (fresh rq 1) (now rq) (key_id caller) RESOURCE_DESTINATION_GROUP (fresh rq 0) db2 = Inr db3"
    and a: "create_audit_log (fresh rq 2) (now rq) caller (client_ip rq) ''GROUP_CREATE'' (Some (cg_name p)) None db3 = Inr db'"
    using assms by (auto simp: create_group_txn_def)
  show ?thesis
    using i insert_targets_keeps(2) [OF t] grant_keeps [OF g] audit_keeps [OF a] audit_ok [OF a] by (simp add: insert_group_Inr)
qed

lemma replace_group_targets_effect:
  assumes "replace_group_targets i ts db = Inr db'"
  shows "groups db' = groups db \<and> feeds db' = feeds db \<and> tasks db' = tasks db"
  using assms by (fastforce simp: replace_group_targets_def delete_group_targets_def split: option.splits dest!: insert_targets_keeps)

lemma update_group_txn_effect:
  assumes "update_group_txn rq caller i row ts db = Inr db'"
  shows "db_ok db' \<and> groups db' = replace_row group_id row (groups db) \<and> has_group db (group_id row) \<and>
    feeds db' = feeds db \<and> tasks db' = tasks db"
proof -
  obtain db1 db2 where u: "update_group row db = Inr db1" and r: "replace_group_targets i ts db1 = Inr db2"
    and a: "create_audit_log (fresh rq 0) (now rq) caller (client_ip rq) ''GROUP_UPDATE'' (Some (group_name row)) None db2 = Inr db'"
    using assms by (auto simp: update_group_txn_def)
  show ?thesis
    using u replace_group_targets_effect [OF r] audit_keeps [OF a] audit_ok [OF a] by (simp add: update_group_Inr)
qed

lemma validate_mode_ok [simp]: "validate_mode m = Inr u \<longleftrightarrow> batch_mode_parse m \<noteq> None"
  by (simp add: validate_mode_def)

lemma check_cron_ok [simp]: "check_cron bk e = Inr u \<longleftrightarrow> \<not> isl (validate_cron_expression bk e)"
  by (cases "validate_cron_expression bk e") (simp_all add: check_cron_def)

lemma post_create_group: "source_post bk ops caller (app_db st) (app_db (snd (create_destination_group bk rq caller p st)))"
  unfolding create_destination_group_def Let_def
  by (auto simp: try_h_def guard_simps source_post_def config_ok_def group_config_ok_def new_group_def split: sum.splits
      dest!: create_group_txn_effect intro!: re_none re_create)

lemma list_all_replace_row: "list_all P rows \<Longrightarrow> P r \<Longrightarrow> list_all P (replace_row k r rows)"
  by (auto simp: replace_row_def list_all_iff)

lemma list_all_filter: "list_all P rows \<Longrightarrow> list_all P (filter Q rows)"
  by (auto simp: list_all_iff)

lemma updated_group_ok:
  assumes "validate_mode_opt (ug_mode p) = Inr ()" "check_cron_opt bk (ug_cron_schedule p) = Inr ()" "group_config_ok bk old"
  shows "group_config_ok bk (apply_group_update t p old)"
  using assms by (auto simp: group_config_ok_def apply_group_update_def validate_mode_opt_def check_cron_opt_def split: option.splits)

lemma post_update_group: "source_post bk ops caller (app_db st) (app_db (snd (update_destination_group bk rq caller i p st)))"
proof -
  have eff: "row_effect group_id group_owner_key_id ''destination_group'' c caller db (groups db)
      (replace_row group_id (apply_group_update t p old) (groups db))"
    if "find_group db i = Some old" "manages db caller RESOURCE_DESTINATION_GROUP i" for db old t c
    using that find_group_Some [OF that(1)]
    by (intro re_update [of _ _ _ _ old]) (auto simp: apply_group_update_def RESOURCE_DESTINATION_GROUP_def)
  have cfg: "list_all (group_config_ok bk) (replace_row group_id (apply_group_update t p old) (groups db))"
    if "find_group db i = Some old" "validate_mode_opt (ug_mode p) = Inr ()" "check_cron_opt bk (ug_cron_schedule p) = Inr ()"
      "list_all (group_config_ok bk) (groups db)" for db old t
    using that find_group_Some [OF that(1)] by (intro list_all_replace_row updated_group_ok) (simp_all add: list_all_iff)
  show ?thesis
    unfolding update_destination_group_def Let_def
    by (intro try_h_snd_cases [where P = "\<lambda>s. source_post bk ops caller (app_db st) (app_db s)"])
      (auto simp: manages_guard source_post_def config_ok_def eff cfg dest!: update_group_txn_effect)
qed

lemma feeds_of_group_authorized:
  "find_group db i = Some g \<Longrightarrow> governs caller (group_owner_key_id g) \<Longrightarrow>
     feeds_authorized caller db (feeds db) (filter (\<lambda>f. feed_group_id f \<noteq> i) (feeds db))"
  by (auto simp: feeds_authorized_def)

lemma audit_post: "create_audit_log i t k ip act tr d db1 = Inr db2 \<Longrightarrow> source_post bk ops caller db db1 \<Longrightarrow> source_post bk ops caller db db2"
  using audit_effect [of i t k ip act tr d db1 db2] by (auto simp: source_post_def config_ok_def)

lemma post_delete_group: "source_post bk ops caller (app_db st) (app_db (snd (delete_destination_group bk rq caller i st)))"
proof -
  have "source_post bk ops caller db (delete_group_row i db)"
    if "find_group db i = Some old" "governs caller (group_owner_key_id old)" for db old
  proof -
    have "row_effect group_id group_owner_key_id ''destination_group'' c caller db (groups db) (groups (delete_group_row i db))" for c
      using that find_group_Some [OF that(1)] re_delete [of caller group_owner_key_id old "groups db" group_id]
      by (simp add: delete_group_row_def)
    moreover have "feeds_authorized caller db (feeds db) (feeds (delete_group_row i db))"
      using feeds_of_group_authorized [OF that] by (simp add: delete_group_row_def)
    moreover have "config_ok bk ops db \<longrightarrow> config_ok bk ops (delete_group_row i db)" "tasks (delete_group_row i db) = tasks db"
      by (auto simp: config_ok_def delete_group_row_def list_all_filter)
    ultimately show ?thesis by (simp add: source_post_def delete_ok)
  qed
  then show ?thesis
    unfolding delete_destination_group_def Let_def
    by (auto simp: try_h_def governs_guard split: sum.splits intro: audit_post)
qed

section \<open>Feed requests\<close>

lemma post_create_feed: "source_post bk ops caller db (snd (create_feed ops rq caller g p db))"
proof -
  have "source_post bk ops caller db (db\<lparr>feeds := feeds db @ [new_feed rq g p]\<rparr>)"
    if "manages db caller RESOURCE_DESTINATION_GROUP g" "db_ok (db\<lparr>feeds := feeds db @ [new_feed rq g p]\<rparr>)"
      "validate_feed_parser ops (cf_parser_type p) (cf_parser_config_json p) = Inr ()" "validate_max_age_days (cf_max_age_days p) = Inr ()"
    using that by (auto simp: source_post_def config_ok_def feed_config_ok_def feeds_authorized_def new_feed_def RESOURCE_DESTINATION_GROUP_def intro: re_none)
  then show ?thesis
    unfolding create_feed_def Let_def
    by (intro try_h_snd_cases [where P = "source_post bk ops caller db"])
      (auto simp: manages_guard insert_feed_Inr intro: audit_post)
qed

lemma load_feed_Inr: "load_feed_in_group db g i = Inr f \<longleftrightarrow> find_feed db i = Some f \<and> feed_group_id f = g"
  by (auto simp: load_feed_in_group_def)

lemma find_feed_Some: "find_feed db i = Some f \<Longrightarrow> f \<in> set (feeds db) \<and> feed_id f = i"
  by (auto simp: find_feed_def dest: find_eq_Some_D)

lemma feeds_authorized_replace:
  assumes "db_ok db" "find_feed db i = Some old" "manages db caller ''destination_group'' (feed_group_id old)"
    and "feed_id r = i" "feed_group_id r = feed_group_id old"
  shows "feeds_authorized caller db (feeds db) (replace_row feed_id r (feeds db))"
proof -
  have "feed_group_id f = feed_group_id old"
    if differs: "(f \<in> set (feeds db)) \<noteq> (f \<in> set (replace_row feed_id r (feeds db)))" for f
  proof (cases "f \<in> set (feeds db)")
    case True
    with differs have "feed_id f = i" using assms(4) by (auto simp: replace_row_def image_iff split: if_splits)
    then have "f = old"
      using True find_feed_Some [OF assms(2)] assms(1) distinct_map_eq [of feed_id "feeds db" f old] by (simp add: db_ok_defs)
    then show ?thesis by simp
  next
    case False
    with differs have "f = r" by (auto dest: set_replace_row)
    then show ?thesis using assms(5) by simp
  qed
  then show ?thesis using assms(3) by (auto simp: feeds_authorized_def)
qed

lemma post_update_feed:
  assumes "db_ok db"
  shows "source_post bk ops caller db (snd (update_feed ops rq caller g i p db))"
proof -
  have "source_post bk ops caller db (db\<lparr>feeds := replace_row feed_id (apply_feed_update t p old) (feeds db)\<rparr>)"
    if found: "find_feed db i = Some old" and grp: "feed_group_id old = g" and "manages db caller RESOURCE_DESTINATION_GROUP g"
      and ok: "db_ok (db\<lparr>feeds := replace_row feed_id (apply_feed_update t p old) (feeds db)\<rparr>)"
      and v: "validate_feed_parser ops (or_else (uf_parser_type p) (feed_parser_type old))
        (case uf_parser_config_json p of None \<Rightarrow> feed_parser_config_json old | Some c \<Rightarrow> Some c) = Inr ()"
        "validate_max_age_days (uf_max_age_days p) = Inr ()" for old t
  proof -
    let ?r = "apply_feed_update t p old"
    have "feeds_authorized caller db (feeds db) (replace_row feed_id ?r (feeds db))"
      by (rule feeds_authorized_replace [OF assms found])
        (use that find_feed_Some [OF found] in \<open>simp_all add: apply_feed_update_def RESOURCE_DESTINATION_GROUP_def\<close>)
    moreover have "feed_config_ok ops old \<Longrightarrow> feed_config_ok ops ?r"
      using v by (auto simp: feed_config_ok_def apply_feed_update_def split: option.splits)
    then have "config_ok bk ops db \<longrightarrow> config_ok bk ops (db\<lparr>feeds := replace_row feed_id ?r (feeds db)\<rparr>)"
      using find_feed_Some [OF found] by (auto simp: config_ok_def list_all_iff dest!: set_replace_row)
    ultimately show ?thesis using ok by (simp add: source_post_def re_none)
  qed
  then show ?thesis
    unfolding update_feed_def Let_def
    by (intro try_h_snd_cases [where P = "source_post bk ops caller db"])
      (auto simp: manages_guard update_feed_Inr load_feed_Inr intro: audit_post)
qed

lemma post_delete_feed:
  assumes "db_ok db"
  shows "source_post bk ops caller db (snd (delete_feed rq caller g i db))"
proof -
  have "source_post bk ops caller db (delete_feed_row i db)"
    if found: "find_feed db i = Some old" and grp: "feed_group_id old = g" and m: "manages db caller RESOURCE_DESTINATION_GROUP g" for old
  proof -
    have "f = old" if "f \<in> set (feeds db)" "feed_id f = i" for f
      using that find_feed_Some [OF found] assms distinct_map_eq [of feed_id "feeds db" f old] by (simp add: db_ok_defs)
    then have "feeds_authorized caller db (feeds db) (feeds (delete_feed_row i db))"
      using grp m by (auto simp: feeds_authorized_def delete_feed_row_def RESOURCE_DESTINATION_GROUP_def)
    then show ?thesis
      using delete_ok by (simp add: source_post_def re_none) (simp add: delete_feed_row_def config_ok_def list_all_filter re_none)
  qed
  then show ?thesis
    unfolding delete_feed_def Let_def
    by (auto simp: try_h_def manages_guard load_feed_Inr split: sum.splits intro: audit_post)
qed

lemma handle_source_post:
  "db_ok (app_db st) \<Longrightarrow> source_post bk ops caller (app_db st) (app_db (handle_source bk ops rq caller r st))"
  by (cases r) (simp_all add: post_create_group post_update_group post_delete_group post_create_feed post_update_feed post_delete_feed)

section \<open>The schedule follows the groups\<close>

lemma wanted_group_set:
  assumes "tasks db' = tasks db" "\<And>j. find_group db' j = (if j = i then new else find_group db j)"
  shows "wanted bk db' = (wanted bk db)(IngestGroup i :=
    (case new of None \<Rightarrow> {} | Some g \<Rightarrow> active_cron bk (group_is_active g) (group_cron_schedule g)))"
proof
  fix r show "wanted bk db' r = ((wanted bk db)(IngestGroup i :=
      (case new of None \<Rightarrow> {} | Some g \<Rightarrow> active_cron bk (group_is_active g) (group_cron_schedule g)))) r"
    using assms by (cases r) (auto simp: find_task_def)
qed

lemma find_group_append:
  "db_ok db' \<Longrightarrow> groups db' = groups db @ [g] \<Longrightarrow> find_group db' j = (if j = group_id g then Some g else find_group db j)"
  by (simp add: find_group_def db_ok_defs find_append_row)

lemma find_group_replace:
  "has_group db (group_id g) \<Longrightarrow> groups db' = replace_row group_id g (groups db) \<Longrightarrow>
     find_group db' j = (if j = group_id g then Some g else find_group db j)"
  by (simp add: find_group_def has_group_def find_replace_row)

lemma delete_group_row_find: "find_group (delete_group_row i db) j = (if j = i then None else find_group db j)"
  by (simp add: find_group_def delete_group_row_def find_filter_row)

lemma feed_requests_keep_rows:
  "groups (snd (create_feed ops rq caller g p db)) = groups db \<and> tasks (snd (create_feed ops rq caller g p db)) = tasks db"
  "groups (snd (update_feed ops rq caller g i u db)) = groups db \<and> tasks (snd (update_feed ops rq caller g i u db)) = tasks db"
  "groups (snd (delete_feed rq caller g i db)) = groups db \<and> tasks (snd (delete_feed rq caller g i db)) = tasks db"
  unfolding create_feed_def update_feed_def delete_feed_def Let_def
  by (auto simp: try_h_def insert_feed_Inr update_feed_Inr delete_feed_row_def split: sum.splits dest!: audit_keeps)

context schedule_follower
begin

lemma follows_upsert_source:
  assumes "follows R bk live st" "tasks db' = tasks (app_db st)"
    and "\<And>j. find_group db' j = (if j = group_id g then Some g else find_group (app_db st) j)"
  shows "follows R bk live (st\<lparr>app_db := db', app_sched := upsert_source bk g (app_sched st)\<rparr>)"
  using assms(1) upserts_spec(1) [of "app_sched st" g] wanted_group_set [OF assms(2,3), of bk] by (simp add: follows_def R_refl)

lemma follows_remove_source:
  assumes "follows R bk live st" "tasks db' = tasks (app_db st)"
    and "\<And>j. find_group db' j = (if j = i then None else find_group (app_db st) j)"
  shows "follows R bk live (st\<lparr>app_db := db', app_sched := remove_source bk i (app_sched st)\<rparr>)"
  using assms(1) removes_spec(1) [of "app_sched st" i] wanted_group_set [OF assms(2,3), of bk] by (simp add: follows_def R_refl)

lemma follows_create_group:
  assumes "follows R bk live st"
  shows "follows R bk live (snd (create_destination_group bk rq caller p st))"
  unfolding create_destination_group_def Let_def
  by (intro try_h_snd_cases [where P = "follows R bk live"] assms)
    (auto dest!: create_group_txn_effect intro!: follows_upsert_source assms find_group_append)

lemma follows_update_group:
  assumes "follows R bk live st"
  shows "follows R bk live (snd (update_destination_group bk rq caller i p st))"
  unfolding update_destination_group_def Let_def
  by (intro try_h_snd_cases [where P = "follows R bk live"] assms)
    (auto dest!: update_group_txn_effect intro!: follows_upsert_source assms find_group_replace)

lemma follows_delete_group:
  assumes "follows R bk live st"
  shows "follows R bk live (snd (delete_destination_group bk rq caller i st))"
proof -
  have "follows R bk live (st\<lparr>app_db := delete_group_row i (app_db st), app_sched := remove_source bk i (app_sched st)\<rparr>)"
    by (rule follows_remove_source [OF assms]) (simp_all add: delete_group_row_find, simp add: delete_group_row_def)
  then show ?thesis
    using assms unfolding delete_destination_group_def Let_def
    by (intro try_h_snd_cases [where P = "follows R bk live"] follows_if) (auto dest!: audit_keeps intro: follows_same)
qed

lemma follows_db: "follows R bk live st \<Longrightarrow> groups db = groups (app_db st) \<Longrightarrow> tasks db = tasks (app_db st) \<Longrightarrow> follows R bk live (st\<lparr>app_db := db\<rparr>)"
  using wanted_cong [of db "app_db st" bk] by (simp add: follows_def)

lemma follows_source_request:
  assumes "follows R bk live st"
  shows "follows R bk live (handle_source bk ops rq caller r st)"
  using follows_create_group [OF assms] follows_update_group [OF assms] follows_delete_group [OF assms]
    follows_db [OF assms] feed_requests_keep_rows
  by (cases r) simp_all

end

section \<open>Properties\<close>

text \<open>
  C36. Destination groups and feeds change only by a caller that may change them: a group
  disappears only for the Master or its owner, changes only for a caller that manages it and
  keeps its owner, and belongs to its creator; and a feed row appears, changes or disappears
  only for a caller that manages its group or removes the group. All constraints hold after.\<close>

theorem source_changes_authorized:
  assumes "db_ok (app_db st)"
  shows "row_authorized group_id group_owner_key_id ''destination_group'' (can_manage_sources caller) caller (app_db st)
      (groups (app_db st)) (groups (app_db (handle_source bk ops rq caller r st))) \<and>
    feeds_authorized caller (app_db st) (feeds (app_db st)) (feeds (app_db (handle_source bk ops rq caller r st))) \<and>
    db_ok (app_db (handle_source bk ops rq caller r st))"
proof -
  have p: "source_post bk ops caller (app_db st) (app_db (handle_source bk ops rq caller r st))"
    by (rule handle_source_post [OF assms])
  from p assms have ok: "db_ok (app_db (handle_source bk ops rq caller r st))" by (simp add: source_post_def)
  from p have "row_effect group_id group_owner_key_id ''destination_group'' (can_manage_sources caller) caller (app_db st)
      (groups (app_db st)) (groups (app_db (handle_source bk ops rq caller r st)))" by (simp add: source_post_def)
  from row_effect_authorized [OF this] p ok assms show ?thesis by (simp add: source_post_def db_ok_defs)
qed


text \<open>
  The live cron jobs mirror the database through every request on groups and feeds.\<close>

theorem source_requests_keep_schedule:
  assumes "reliable_backend bk live" "mirrors bk live st"
  shows "mirrors bk live (handle_source bk ops rq caller r st)"
  using schedule_follower.follows_source_request [OF reliable_backend.exact_follower [OF assms(1)]] assms(2) by (simp add: mirrors_follows)

section \<open>Witnesses\<close>

definition feed_db :: database where
  "feed_db = (sample_db None)\<lparr>groups := [cron_group 6 ''d'' ''0 0 * * *'' True],
     feeds := [sim_feed]\<rparr>"

definition feed_st :: "(job_store, nat) app_state" where
  "feed_st = \<lparr>app_db = feed_db, app_sched = boot table_backend feed_db (scheduler_new empty_jobs),
     app_jobs = \<lparr>running = {}, running_poisoned = False\<rparr>\<rparr>"

lemma feed_db_ok: "db_ok feed_db" "config_ok table_backend word_ops feed_db" by code_simp+

lemma feed_st_mirrors: "mirrors table_backend table_live feed_st"
proof -
  have "table_live empty_jobs = Map.empty" by (simp add: table_live_def empty_jobs_def fun_eq_iff)
  from table_jobs.boot_mirrors [OF this feed_db_ok(1)] show ?thesis by (simp add: mirrors_def feed_st_def)
qed

definition json_feed :: create_feed_payload where
  "json_feed = \<lparr>cf_name = ''j'', cf_source_url = ''u'', cf_parser_type = ''JSON_PATH'', cf_parser_config_json = Some ''C'',
     cf_max_age_days = Some 30, cf_skip_bogon_filtering = None\<rparr>"

lemma json_feed_created:
  "map feed_id (feeds (app_db (handle_source table_backend word_ops sample_rq sample_master (CreateFeed 6 json_feed) feed_st))) = [8, 100]"
proof -
  have "map feed_id (feeds (snd (create_feed word_ops sample_rq sample_master 6 json_feed feed_db))) = [8, 100]" by code_simp
  then show ?thesis by (simp add: feed_st_def)
qed

theorem source_changes_authorized_witness:
  "governs sample_master (Some 1) \<and> db_ok (app_db (handle_source table_backend word_ops sample_rq sample_master (DeleteGroup 6) feed_st))"
proof -
  have ok: "db_ok (app_db feed_st)" using feed_db_ok by (simp add: feed_st_def)
  have "governs sample_master (Some 1)" by code_simp
  with source_changes_authorized [OF ok, of sample_master table_backend word_ops sample_rq "DeleteGroup 6"] show ?thesis by simp
qed


theorem source_requests_keep_schedule_witness:
  "mirrors table_backend table_live (handle_source table_backend word_ops sample_rq sample_master (DeleteGroup 6) feed_st)"
  by (rule source_requests_keep_schedule [OF table_jobs.reliable_backend_axioms feed_st_mirrors])

end
