(* ===== verification/Config.thy ===== *)
theory Config
  imports IpNet Retry
begin

text \<open>
  \<open>src/config.rs\<close>: the environment (a map from variable names to values), the list of trusted
  proxies with its cache of resolved hostnames, and the address a request is attributed to. The
  values kept in a \<open>OnceLock\<close> are functions of the environment of the process. The resolver is
  a parameter; the headers of a request are the map that a lookup followed by \<open>to_str\<close> gives.
\<close>

section \<open>Addresses\<close>

fun normalize_ip :: "ip_addr \<Rightarrow> ip_addr" where
  "normalize_ip (V6 a) = (case to_ipv4_mapped a of None \<Rightarrow> V6 a | Some v4 \<Rightarrow> V4 v4)"
| "normalize_ip (V4 a) = V4 a"

definition is_trusted :: "'n ipnet_ops \<Rightarrow> ip_addr \<Rightarrow> 'n list \<Rightarrow> bool" where
  "is_trusted nets ip trusted \<longleftrightarrow> list_ex (\<lambda>net. net_contains nets net ip) trusted"

section \<open>The trusted proxies\<close>

datatype 'n proxy_matcher = Network 'n | Hostname string

record invalid_proxy_entry =
  ipe_entry :: string
  ipe_reason :: string

definition all_chars :: "(char \<Rightarrow> bool) \<Rightarrow> string \<Rightarrow> bool" where
  "all_chars p s \<longleftrightarrow> list_all p s"

definition hostname_rejection :: "string \<Rightarrow> string option" where
  "hostname_rejection entry =
     (if entry = [] then Some ''empty''
      else if 253 < length entry then Some ''longer than the 253-character limit on a DNS name''
      else if CHR ''/'' \<in> set entry \<or> CHR '':'' \<in> set entry
      then Some (''contains '' @ squoted ''/'' @ '' or '' @ squoted '':'' @ '', which appear only in CIDR and IPv6 syntax, so this is a ''
                 @ ''malformed address rather than a hostname'')
      else if \<not> (is_ascii_alphanumeric (hd entry) \<and> is_ascii_alphanumeric (last entry))
      then Some ''a hostname must begin and end with a letter or a digit''
      else if all_chars (\<lambda>c. is_ascii_digit c \<or> c = CHR ''.'') entry
      then Some ''made only of digits and dots, so this is a malformed IPv4 literal''
      else if \<not> all_chars (\<lambda>c. is_ascii_alphanumeric c \<or> c = CHR ''-'' \<or> c = CHR ''.'' \<or> c = CHR ''_'') entry
      then Some ''contains characters that cannot appear in a DNS name''
      else None)"

definition comma_items :: "string \<Rightarrow> string list" where
  "comma_items raw = filter (\<lambda>e. e \<noteq> []) (map trim (split_char (CHR '','') raw))"

fun parse_proxy_entries ::
  "'n ipnet_ops \<Rightarrow> string list \<Rightarrow> 'n proxy_matcher list \<Rightarrow> invalid_proxy_entry list
    \<Rightarrow> 'n proxy_matcher list \<times> invalid_proxy_entry list" where
  "parse_proxy_entries nets [] matchers invalid = (matchers, invalid)"
| "parse_proxy_entries nets (entry # es) matchers invalid =
     (case net_parse nets entry of
        Some net \<Rightarrow> parse_proxy_entries nets es (matchers @ [Network net]) invalid
      | None \<Rightarrow>
     (case parse_ip entry of
        Some addr \<Rightarrow> parse_proxy_entries nets es (matchers @ [Network (net_from_ip nets addr)]) invalid
      | None \<Rightarrow>
     (case hostname_rejection entry of
        None \<Rightarrow> parse_proxy_entries nets es (matchers @ [Hostname entry]) invalid
      | Some reason \<Rightarrow> parse_proxy_entries nets es matchers (invalid @ [\<lparr>ipe_entry = entry, ipe_reason = reason\<rparr>]))))"

definition parse_trusted_proxies :: "'n ipnet_ops \<Rightarrow> string \<Rightarrow> invalid_proxy_entry list + 'n proxy_matcher list" where
  "parse_trusted_proxies nets raw =
     (case parse_proxy_entries nets (comma_items raw) [] [] of
        (matchers, invalid) \<Rightarrow> if invalid = [] then Inr matchers else Inl invalid)"

record 'n hostname_state =
  hs_addresses :: "'n list"
  hs_attempted_at :: instant
  hs_resolved :: bool

record 'n resolution_cache =
  rc_snapshot :: "'n list"
  rc_hosts :: "string \<rightharpoonup> 'n hostname_state"
  rc_built :: bool

record 'n trusted_proxies =
  tp_matchers :: "'n proxy_matcher list"
  tp_networks :: "'n list"
  tp_hostnames :: "string list"
  tp_positive_ttl :: int
  tp_negative_ttl :: int
  tp_cache :: "'n resolution_cache"

definition POSITIVE_TTL :: int where "POSITIVE_TTL = 30000"
definition NEGATIVE_TTL :: int where "NEGATIVE_TTL = 5000"

definition is_fresh :: "'n hostname_state \<Rightarrow> instant \<Rightarrow> int \<Rightarrow> int \<Rightarrow> bool" where
  "is_fresh s t positive negative \<longleftrightarrow> t - hs_attempted_at s < (if hs_resolved s then positive else negative)"

definition resolution_cache_default :: "'n resolution_cache" where
  "resolution_cache_default = \<lparr>rc_snapshot = [], rc_hosts = Map.empty, rc_built = False\<rparr>"

definition trusted_proxies_default :: "'n trusted_proxies" where
  "trusted_proxies_default = \<lparr>tp_matchers = [], tp_networks = [], tp_hostnames = [], tp_positive_ttl = 0, tp_negative_ttl = 0,
     tp_cache = resolution_cache_default\<rparr>"

definition trusted_proxies_new :: "'n proxy_matcher list \<Rightarrow> 'n trusted_proxies" where
  "trusted_proxies_new matchers =
     \<lparr>tp_matchers = matchers,
      tp_networks = List.map_filter (\<lambda>m. case m of Network net \<Rightarrow> Some net | Hostname _ \<Rightarrow> None) matchers,
      tp_hostnames = List.map_filter (\<lambda>m. case m of Hostname n \<Rightarrow> Some n | Network _ \<Rightarrow> None) matchers,
      tp_positive_ttl = POSITIVE_TTL, tp_negative_ttl = NEGATIVE_TTL, tp_cache = resolution_cache_default\<rparr>"

type_synonym environment = "string \<Rightarrow> string option"

definition trusted_proxies_from_env ::
  "'n ipnet_ops \<Rightarrow> environment \<Rightarrow> invalid_proxy_entry list + 'n trusted_proxies" where
  "trusted_proxies_from_env nets env =
     (case env ''TRUSTED_PROXIES'' of
        None \<Rightarrow> Inr trusted_proxies_default
      | Some raw \<Rightarrow>
          if trim raw = [] then Inr trusted_proxies_default
          else ebind (parse_trusted_proxies nets raw) (\<lambda>matchers. Inr (trusted_proxies_new matchers)))"

section \<open>Resolving hostnames\<close>

record 'w dns_ops =
  lookup_host :: "string \<Rightarrow> 'w \<Rightarrow> (string + ip_addr list) \<times> 'w"
  dns_clock :: "'w \<Rightarrow> instant"

definition resolve_hostname :: "'n ipnet_ops \<Rightarrow> 'w dns_ops \<Rightarrow> string \<Rightarrow> 'w \<Rightarrow> 'n list \<times> 'w" where
  "resolve_hostname nets dns name w =
     (case lookup_host dns name w of
        (Inr addrs, w1) \<Rightarrow> (map (\<lambda>a. net_from_ip nets (normalize_ip a)) addrs, w1)
      | (Inl e, w1) \<Rightarrow> ([], w1))"

definition host_fresh :: "'n trusted_proxies \<Rightarrow> (string \<rightharpoonup> 'n hostname_state) \<Rightarrow> instant \<Rightarrow> string \<Rightarrow> bool" where
  "host_fresh tp hosts t name \<longleftrightarrow>
     (case hosts name of None \<Rightarrow> False | Some s \<Rightarrow> is_fresh s t (tp_positive_ttl tp) (tp_negative_ttl tp))"

fun refresh_hosts ::
  "'n ipnet_ops \<Rightarrow> 'w dns_ops \<Rightarrow> 'n trusted_proxies \<Rightarrow> string list \<Rightarrow> (string \<rightharpoonup> 'n hostname_state) \<Rightarrow> 'w
    \<Rightarrow> (string \<rightharpoonup> 'n hostname_state) \<times> 'w" where
  "refresh_hosts nets dns tp [] hosts w = (hosts, w)"
| "refresh_hosts nets dns tp (name # names) hosts w =
     (if host_fresh tp hosts (dns_clock dns w) name then refresh_hosts nets dns tp names hosts w
      else case resolve_hostname nets dns name w of (addresses, w1) \<Rightarrow>
        refresh_hosts nets dns tp names
          (hosts(name \<mapsto> \<lparr>hs_addresses = addresses, hs_attempted_at = dns_clock dns w1, hs_resolved = (addresses \<noteq> [])\<rparr>)) w1)"

definition merged_networks :: "'n trusted_proxies \<Rightarrow> (string \<rightharpoonup> 'n hostname_state) \<Rightarrow> 'n list" where
  "merged_networks tp hosts =
     tp_networks tp @ concat (map (\<lambda>name. case hosts name of None \<Rightarrow> [] | Some s \<Rightarrow> hs_addresses s) (tp_hostnames tp))"

definition refresh_locked ::
  "'n ipnet_ops \<Rightarrow> 'w dns_ops \<Rightarrow> 'n trusted_proxies \<Rightarrow> 'n resolution_cache \<Rightarrow> 'w \<Rightarrow> 'n resolution_cache \<times> 'w" where
  "refresh_locked nets dns tp cache w =
     (case refresh_hosts nets dns tp (tp_hostnames tp) (rc_hosts cache) w of
        (hosts, w1) \<Rightarrow> (\<lparr>rc_snapshot = merged_networks tp hosts, rc_hosts = hosts, rc_built = True\<rparr>, w1))"

definition resolved ::
  "'n ipnet_ops \<Rightarrow> 'w dns_ops \<Rightarrow> 'n trusted_proxies \<Rightarrow> 'w \<Rightarrow> 'n list \<times> 'n trusted_proxies \<times> 'w" where
  "resolved nets dns tp w =
     (if tp_hostnames tp = [] then (tp_networks tp, tp, w)
      else if rc_built (tp_cache tp) \<and> list_all (host_fresh tp (rc_hosts (tp_cache tp)) (dns_clock dns w)) (tp_hostnames tp)
      then (rc_snapshot (tp_cache tp), tp, w)
      else case refresh_locked nets dns tp (tp_cache tp) w of
             (cache, w1) \<Rightarrow> (rc_snapshot cache, tp\<lparr>tp_cache := cache\<rparr>, w1))"

definition prime ::
  "'n ipnet_ops \<Rightarrow> 'w dns_ops \<Rightarrow> 'n trusted_proxies \<Rightarrow> 'w \<Rightarrow> string list \<times> 'n trusted_proxies \<times> 'w" where
  "prime nets dns tp w =
     (if tp_hostnames tp = [] then ([], tp, w)
      else case refresh_locked nets dns tp ((tp_cache tp)\<lparr>rc_hosts := Map.empty\<rparr>) w of
        (cache, w1) \<Rightarrow>
          (filter (\<lambda>name. \<not> (case rc_hosts cache name of None \<Rightarrow> False | Some s \<Rightarrow> hs_resolved s)) (tp_hostnames tp),
           tp\<lparr>tp_cache := cache\<rparr>, w1))"

definition BOOT_GRACE_PERIOD :: int where
  "BOOT_GRACE_PERIOD = 60 * 1000"

text \<open>
  The detached task of the boot, without its logging: the names still unresolved at its end. What
  happens to the shared cache during the pause is not part of it; \<open>pause\<close> is the clock moving on.
\<close>

definition prime_with_grace ::
  "'n ipnet_ops \<Rightarrow> 'w dns_ops \<Rightarrow> (int \<Rightarrow> 'w \<Rightarrow> 'w) \<Rightarrow> 'n trusted_proxies \<Rightarrow> 'w \<Rightarrow> string list \<times> 'n trusted_proxies \<times> 'w" where
  "prime_with_grace nets dns pause tp w =
     (case prime nets dns tp w of
        (failed, tp1, w1) \<Rightarrow>
          if failed = [] then ([], tp1, w1)
          else prime nets dns tp1 (pause BOOT_GRACE_PERIOD w1))"

section \<open>The address of the client\<close>

type_synonym header_map = "string \<Rightarrow> string option"

definition forwarded_ips :: "string \<Rightarrow> ip_addr list" where
  "forwarded_ips forwarded = map normalize_ip (List.map_filter parse_ip (comma_items forwarded))"

definition resolve_client_ip :: "'n ipnet_ops \<Rightarrow> ip_addr \<Rightarrow> header_map \<Rightarrow> 'n list \<Rightarrow> ip_addr" where
  "resolve_client_ip nets peer0 headers trusted =
     (let peer = normalize_ip peer0 in
      if \<not> is_trusted nets peer trusted then peer
      else case Option.bind (headers ''X-Forwarded-For'')
             (\<lambda>forwarded. List.find (\<lambda>ip. \<not> is_trusted nets ip trusted) (rev (forwarded_ips forwarded))) of
        Some client \<Rightarrow> client
      | None \<Rightarrow>
     (case Option.bind (headers ''X-Real-IP'') (\<lambda>s. parse_ip (trim s)) of
        Some real_ip \<Rightarrow> normalize_ip real_ip
      | None \<Rightarrow> peer))"

section \<open>Startup values\<close>

definition MASTER_KEY_HEX_LEN :: nat where "MASTER_KEY_HEX_LEN = 64"

record invalid_initial_key =
  iik_got :: nat
  iik_detail :: string

definition validate_initial_master_key :: "string \<Rightarrow> invalid_initial_key + unit" where
  "validate_initial_master_key raw =
     (let is_hex = all_chars is_ascii_hexdigit raw in
      if length raw = MASTER_KEY_HEX_LEN \<and> is_hex then Inr ()
      else Inl \<lparr>iik_got = count_chars raw,
                iik_detail = (if is_hex then [] else '', and it contains non-hexadecimal characters'')\<rparr>)"

definition validate_initial_master_signing_secret :: "string \<Rightarrow> invalid_initial_key + unit" where
  "validate_initial_master_signing_secret raw =
     (let is_hex = all_chars is_ascii_hexdigit raw in
      if length raw = MASTER_KEY_HEX_LEN \<and> is_hex then Inr ()
      else Inl \<lparr>iik_got = count_chars raw,
                iik_detail = (if is_hex then [] else '', and it contains non-hexadecimal characters'')\<rparr>)"

definition or_default :: "'a \<Rightarrow> 'a option \<Rightarrow> 'a" where
  "or_default d x = (case x of None \<Rightarrow> d | Some a \<Rightarrow> a)"

definition resolve_bind_addr :: "environment \<Rightarrow> ip_addr \<times> nat" where
  "resolve_bind_addr env =
     (let host = or_default ''0.0.0.0'' (case env ''BIND_HOST'' of None \<Rightarrow> env ''HOST'' | Some h \<Rightarrow> Some h);
          port = or_default 3003 (Option.bind (env ''PORT'') (parse_uint (2 ^ 16 - 1)))
      in case parse_ip host of Some ip \<Rightarrow> (ip, port) | None \<Rightarrow> (V6 0, port))"

definition at_least_one :: "nat \<Rightarrow> nat option" where
  "at_least_one n = (if 1 \<le> n then Some n else None)"

definition DEFAULT_MAX_BODY_MIB :: nat where "DEFAULT_MAX_BODY_MIB = 10"
definition DEFAULT_OUTBOUND_HTTP_TIMEOUT_SECS :: nat where "DEFAULT_OUTBOUND_HTTP_TIMEOUT_SECS = 60"
definition DEFAULT_OUTBOUND_MAX_RETRIES :: nat where "DEFAULT_OUTBOUND_MAX_RETRIES = 3"
definition DEFAULT_OUTBOUND_RETRY_BACKOFF_MS :: nat where "DEFAULT_OUTBOUND_RETRY_BACKOFF_MS = 500"
definition DEFAULT_MAX_DECOMPRESSED_BYTES :: nat where "DEFAULT_MAX_DECOMPRESSED_BYTES = 50 * 1024 * 1024"

text \<open>The product of the number of mebibytes wraps at 64 bits in a release build.\<close>

definition max_body_bytes :: "environment \<Rightarrow> nat" where
  "max_body_bytes env =
     (let mib = or_default DEFAULT_MAX_BODY_MIB
          (Option.bind (Option.bind (env ''MAX_BODY_SIZE_MIB'') (parse_uint u64_max)) at_least_one)
      in (mib * 1024 * 1024) mod 2 ^ 64)"

definition outbound_http_timeout :: "environment \<Rightarrow> nat" where
  "outbound_http_timeout env = or_default DEFAULT_OUTBOUND_HTTP_TIMEOUT_SECS
     (Option.bind (Option.bind (env ''OUTBOUND_HTTP_TIMEOUT_SECS'') (parse_uint u64_max)) at_least_one)"

definition env_outbound_max_retries :: "environment \<Rightarrow> nat" where
  "env_outbound_max_retries env =
     or_default DEFAULT_OUTBOUND_MAX_RETRIES (Option.bind (env ''OUTBOUND_MAX_RETRIES'') (parse_uint u32_max))"

definition env_outbound_retry_backoff :: "environment \<Rightarrow> nat" where
  "env_outbound_retry_backoff env = or_default DEFAULT_OUTBOUND_RETRY_BACKOFF_MS
     (Option.bind (Option.bind (env ''OUTBOUND_RETRY_BACKOFF_MS'') (parse_uint u64_max)) at_least_one)"

definition max_decompressed_bytes :: "environment \<Rightarrow> nat" where
  "max_decompressed_bytes env = or_default DEFAULT_MAX_DECOMPRESSED_BYTES
     (Option.bind (Option.bind (env ''MAX_DECOMPRESSED_BYTES'') (parse_uint u64_max)) at_least_one)"

section \<open>The forwarding chain\<close>

lemma split_by_sep: "p d \<Longrightarrow> split_by p (a @ d # b) = split_by p a @ split_by p b"
proof (induction a)
  case (Cons c a)
  have ne: "split_by p a \<noteq> []" by simp
  then obtain w ws where "split_by p a = w # ws" by (cases "split_by p a") auto
  with Cons show ?case by (auto split: list.splits)
qed simp

lemma forwarded_ips_append: "forwarded_ips (a @ CHR '','' # b) = forwarded_ips a @ forwarded_ips b"
  by (simp add: forwarded_ips_def comma_items_def split_by_sep List.map_filter_def)

lemma find_append: "List.find P (xs @ ys) = (case List.find P xs of None \<Rightarrow> List.find P ys | Some x \<Rightarrow> Some x)"
  by (induction xs) auto

lemma untrusted_found:
  "ip \<in> set ips \<Longrightarrow> \<not> is_trusted nets ip trusted \<Longrightarrow>
     \<exists>c pre suf. List.find (\<lambda>ip. \<not> is_trusted nets ip trusted) (rev ips) = Some c \<and> ips = pre @ c # suf \<and>
       \<not> is_trusted nets c trusted \<and> list_all (\<lambda>x. is_trusted nets x trusted) suf"
proof (induction ips arbitrary: ip rule: rev_induct)
  case (snoc x xs)
  show ?case
  proof (cases "is_trusted nets x trusted")
    case True
    then have "ip \<in> set xs" using snoc.prems by auto
    from snoc.IH [OF this snoc.prems(2)] obtain c pre suf where
      "List.find (\<lambda>ip. \<not> is_trusted nets ip trusted) (rev xs) = Some c" "xs = pre @ c # suf"
      "\<not> is_trusted nets c trusted" "list_all (\<lambda>x. is_trusted nets x trusted) suf" by blast
    with True show ?thesis by (intro exI [of _ c] exI [of _ pre] exI [of _ "suf @ [x]"]) simp
  next
    case False
    then show ?thesis by (intro exI [of _ x] exI [of _ xs] exI [of _ "[]"]) simp
  qed
qed simp

section \<open>The cache of resolved names\<close>

definition cache_ok :: "'n trusted_proxies \<Rightarrow> bool" where
  "cache_ok tp \<longleftrightarrow> (rc_built (tp_cache tp) \<longrightarrow> rc_snapshot (tp_cache tp) = merged_networks tp (rc_hosts (tp_cache tp)))"

lemma refresh_hosts_fresh:
  assumes "\<And>name w x w'. lookup_host dns name w = (x, w') \<Longrightarrow> dns_clock dns w \<le> dns_clock dns w'"
    and "0 < tp_positive_ttl tp" "0 < tp_negative_ttl tp"
  shows "refresh_hosts nets dns tp names hosts w = (hosts', w') \<Longrightarrow> t \<le> dns_clock dns w \<Longrightarrow>
    t \<le> dns_clock dns w' \<and> (\<forall>name. host_fresh tp hosts t name \<or> name \<in> set names \<longrightarrow> host_fresh tp hosts' t name)"
proof (induction names arbitrary: hosts w)
  case Nil
  then show ?case by simp
next
  case (Cons name names)
  have older: "host_fresh tp hosts (dns_clock dns w) name \<Longrightarrow> host_fresh tp hosts t name"
    using Cons.prems(2) by (auto simp: host_fresh_def is_fresh_def split: option.splits if_splits)
  show ?case
  proof (cases "host_fresh tp hosts (dns_clock dns w) name")
    case True
    then show ?thesis using Cons older by auto
  next
    case False
    obtain addresses w1 where r: "resolve_hostname nets dns name w = (addresses, w1)" by fastforce
    then have c: "dns_clock dns w \<le> dns_clock dns w1"
      using assms(1) by (auto simp: resolve_hostname_def split: prod.splits sum.splits)
    let ?hosts = "hosts(name \<mapsto> \<lparr>hs_addresses = addresses, hs_attempted_at = dns_clock dns w1, hs_resolved = (addresses \<noteq> [])\<rparr>)"
    have "refresh_hosts nets dns tp names ?hosts w1 = (hosts', w')" using Cons.prems(1) False r by simp
    from Cons.IH [OF this order.trans [OF Cons.prems(2) c]]
    have "t \<le> dns_clock dns w' \<and> (\<forall>n. host_fresh tp ?hosts t n \<or> n \<in> set names \<longrightarrow> host_fresh tp hosts' t n)" .
    moreover have "host_fresh tp ?hosts t name" "n \<noteq> name \<Longrightarrow> host_fresh tp ?hosts t n = host_fresh tp hosts t n" for n
      using assms(2,3) Cons.prems(2) c by (auto simp: host_fresh_def is_fresh_def)
    ultimately show ?thesis by (metis set_ConsD)
  qed
qed

section \<open>Properties\<close>

text \<open>
  C27. Forwarding headers cannot be forged past a trusted proxy: from a peer that is not trusted they
  are ignored; and behind a trusted peer, whatever a client puts in front of the part of the chain
  the proxies appended, the client is the last address of that part that is not itself a
  trusted proxy, as long as there is one.\<close>

theorem forged_forwarding_ignored:
  "(\<not> is_trusted nets (normalize_ip peer) trusted \<longrightarrow> resolve_client_ip nets peer headers trusted = normalize_ip peer) \<and>
   (is_trusted nets (normalize_ip peer) trusted \<and> headers ''X-Forwarded-For'' = Some (forged @ CHR '','' # appended) \<and>
    ip \<in> set (forwarded_ips appended) \<and> \<not> is_trusted nets ip trusted \<longrightarrow>
    (\<exists>pre suf. forwarded_ips appended = pre @ resolve_client_ip nets peer headers trusted # suf \<and>
       \<not> is_trusted nets (resolve_client_ip nets peer headers trusted) trusted \<and> list_all (\<lambda>x. is_trusted nets x trusted) suf))"
proof -
  have "\<exists>pre suf. forwarded_ips appended = pre @ resolve_client_ip nets peer headers trusted # suf \<and>
      \<not> is_trusted nets (resolve_client_ip nets peer headers trusted) trusted \<and> list_all (\<lambda>x. is_trusted nets x trusted) suf"
    if a: "is_trusted nets (normalize_ip peer) trusted" "headers ''X-Forwarded-For'' = Some (forged @ CHR '','' # appended)"
      "ip \<in> set (forwarded_ips appended)" "\<not> is_trusted nets ip trusted"
  proof -
    obtain c pre suf where c: "List.find (\<lambda>ip. \<not> is_trusted nets ip trusted) (rev (forwarded_ips appended)) = Some c"
      "forwarded_ips appended = pre @ c # suf" "\<not> is_trusted nets c trusted" "list_all (\<lambda>x. is_trusted nets x trusted) suf"
      using untrusted_found [OF a(3,4)] by blast
    have "resolve_client_ip nets peer headers trusted = c"
      unfolding resolve_client_ip_def Let_def a(2) forwarded_ips_append rev_append find_append bind.bind_lunit c(1) option.case
      using a(1) by simp
    with c show ?thesis by blast
  qed
  then show ?thesis by (simp add: resolve_client_ip_def Let_def)
qed

text \<open>Priming leaves a consistent cache and the configuration as it was, and reports exactly the names it could not resolve.\<close>

lemma prime_outcome:
  assumes "prime nets dns tp w = (failed, tp', w')" "cache_ok tp"
  shows "cache_ok tp' \<and> tp' = tp\<lparr>tp_cache := tp_cache tp'\<rparr> \<and>
    (tp_hostnames tp \<noteq> [] \<longrightarrow> set failed = {name \<in> set (tp_hostnames tp). \<nexists>s. rc_hosts (tp_cache tp') name = Some s \<and> hs_resolved s})"
  using assms by (auto simp: prime_def refresh_locked_def cache_ok_def merged_networks_def split: if_splits prod.splits option.splits)

lemma prime_with_grace_outcome:
  assumes "prime_with_grace nets dns pause tp w = (failed, tp', w')" "cache_ok tp"
  shows "cache_ok tp' \<and> tp' = tp\<lparr>tp_cache := tp_cache tp'\<rparr>"
proof -
  obtain failed1 tp1 w1 where p: "prime nets dns tp w = (failed1, tp1, w1)" by (cases "prime nets dns tp w")
  note one = prime_outcome [OF p assms(2)]
  show ?thesis
  proof (cases "failed1 = []")
    case True
    with p assms(1) one show ?thesis by (simp add: prime_with_grace_def)
  next
    case False
    with p assms(1) have "prime nets dns tp1 (pause BOOT_GRACE_PERIOD w1) = (failed, tp', w')" by (simp add: prime_with_grace_def)
    from prime_outcome [OF this] one show ?thesis by (cases tp; cases tp1; cases tp') auto
  qed
qed

text \<open>
  What a request is matched against: the literal networks together with exactly the addresses of
  configured names, each from a lookup that was younger than its time to live when the request
  came; a name whose lookup failed contributes nothing; and the cache stays consistent.\<close>

theorem trusted_networks_fresh:
  assumes "\<And>name w x w'. lookup_host dns name w = (x, w') \<Longrightarrow> dns_clock dns w \<le> dns_clock dns w'"
    and "0 < tp_positive_ttl tp" "0 < tp_negative_ttl tp" "cache_ok tp" "resolved nets dns tp w = (trusted, tp', w')"
  shows "cache_ok tp' \<and> trusted = merged_networks tp (rc_hosts (tp_cache tp')) \<and>
    list_all (host_fresh tp (rc_hosts (tp_cache tp')) (dns_clock dns w)) (tp_hostnames tp)"
proof -
  have same: "cache_ok (tp\<lparr>tp_cache := c\<rparr>) \<longleftrightarrow> (rc_built c \<longrightarrow> rc_snapshot c = merged_networks tp (rc_hosts c))" for c
    by (simp add: cache_ok_def merged_networks_def)
  consider (none) "tp_hostnames tp = []"
    | (hit) "tp_hostnames tp \<noteq> []" "rc_built (tp_cache tp)"
        "list_all (host_fresh tp (rc_hosts (tp_cache tp)) (dns_clock dns w)) (tp_hostnames tp)"
    | (miss) "tp_hostnames tp \<noteq> []"
        "\<not> (rc_built (tp_cache tp) \<and> list_all (host_fresh tp (rc_hosts (tp_cache tp)) (dns_clock dns w)) (tp_hostnames tp))"
    by blast
  then show ?thesis
  proof cases
    case none
    then show ?thesis using assms(4,5) by (auto simp: resolved_def merged_networks_def)
  next
    case hit
    then show ?thesis using assms(4,5) by (auto simp: resolved_def cache_ok_def)
  next
    case miss
    obtain hosts w1 where r: "refresh_hosts nets dns tp (tp_hostnames tp) (rc_hosts (tp_cache tp)) w = (hosts, w1)" by fastforce
    have "trusted = merged_networks tp hosts" "rc_hosts (tp_cache tp') = hosts"
      "tp' = tp\<lparr>tp_cache := \<lparr>rc_snapshot = merged_networks tp hosts, rc_hosts = hosts, rc_built = True\<rparr>\<rparr>"
      using assms(5) miss r by (auto simp: resolved_def refresh_locked_def)
    with refresh_hosts_fresh [OF assms(1-3) r order.refl] show ?thesis by (simp add: same list_all_iff)
  qed
qed

text \<open>
  The tuning values are usable whatever the environment holds: timeouts, delays and the
  decompression limit are positive and stay in their 64 bits, the number of retries in its 32, and the
  body limit is at least one mebibyte while its variable stays below \<open>2^44\<close>, where the product
  wraps around.\<close>

theorem tuning_values_bounded:
  "1 \<le> outbound_http_timeout env \<and> outbound_http_timeout env \<le> u64_max \<and>
   1 \<le> env_outbound_retry_backoff env \<and> env_outbound_retry_backoff env \<le> u64_max \<and>
   1 \<le> max_decompressed_bytes env \<and> max_decompressed_bytes env \<le> u64_max \<and> env_outbound_max_retries env \<le> u32_max \<and>
   max_body_bytes env < 2 ^ 64 \<and>
   (env ''MAX_BODY_SIZE_MIB'' = Some v \<and> parse_uint u64_max v = Some n \<and> 1 \<le> n \<longrightarrow>
     (n < 2 ^ 44 \<longrightarrow> 2 ^ 20 \<le> max_body_bytes env) \<and> (n = 2 ^ 44 \<longrightarrow> max_body_bytes env = 0))"
proof -
  have p: "or_default d (Option.bind (Option.bind x (parse_uint u64_max)) at_least_one) \<in> {1..u64_max}"
    if "1 \<le> d" "d \<le> u64_max" for d x
    using that parse_uint_le [of u64_max] by (auto simp: or_default_def at_least_one_def split: option.splits bind_splits if_splits)
  have "env_outbound_max_retries env \<le> u32_max"
    using parse_uint_le [of u32_max]
    by (auto simp: env_outbound_max_retries_def or_default_def DEFAULT_OUTBOUND_MAX_RETRIES_def split: option.splits bind_splits)
  moreover have "(n < 2 ^ 44 \<longrightarrow> 2 ^ 20 \<le> max_body_bytes env) \<and> (n = 2 ^ 44 \<longrightarrow> max_body_bytes env = 0)"
    if "env ''MAX_BODY_SIZE_MIB'' = Some v" "parse_uint u64_max v = Some n" "1 \<le> n"
  proof -
    have "max_body_bytes env = (n * 1024 * 1024) mod 2 ^ 64"
      unfolding max_body_bytes_def Let_def that(1,2) bind.bind_lunit at_least_one_def or_default_def using that(3) by simp
    then show ?thesis using that(3) by simp
  qed
  ultimately show ?thesis
    using p [of DEFAULT_OUTBOUND_HTTP_TIMEOUT_SECS "env ''OUTBOUND_HTTP_TIMEOUT_SECS''"]
      p [of DEFAULT_OUTBOUND_RETRY_BACKOFF_MS "env ''OUTBOUND_RETRY_BACKOFF_MS''"]
      p [of DEFAULT_MAX_DECOMPRESSED_BYTES "env ''MAX_DECOMPRESSED_BYTES''"]
    unfolding outbound_http_timeout_def env_outbound_retry_backoff_def max_decompressed_bytes_def
    by (simp add: DEFAULT_OUTBOUND_HTTP_TIMEOUT_SECS_def DEFAULT_OUTBOUND_RETRY_BACKOFF_MS_def DEFAULT_MAX_DECOMPRESSED_BYTES_def
        max_body_bytes_def Let_def)
qed

section \<open>Witnesses\<close>

theorem forged_forwarding_ignored_witness:
  "resolve_client_ip cidr_ops (V4 0x0A000001) (\<lambda>_. Some ''9.9.9.9, 1.2.3.4, 10.0.0.7'') [Cidr (V4 0x0A000000) 8] = V4 0x01020304"
proof -
  let ?h = "\<lambda>_. Some (''9.9.9.9'' @ CHR '','' # '' 1.2.3.4, 10.0.0.7'')" and ?t = "[Cidr (V4 0x0A000000) 8]"
  have t: "is_trusted cidr_ops (normalize_ip (V4 0x0A000001)) ?t" "\<not> is_trusted cidr_ops (V4 0x01020304) ?t"
    "is_trusted cidr_ops (V4 0x0A000007) ?t" by code_simp+
  have f: "forwarded_ips '' 1.2.3.4, 10.0.0.7'' = [V4 0x01020304, V4 0x0A000007]" by code_simp
  from forged_forwarding_ignored [of cidr_ops "V4 0x0A000001" ?t ?h "''9.9.9.9''" "'' 1.2.3.4, 10.0.0.7''" "V4 0x01020304"] t f
  obtain pre suf where "[V4 0x01020304, V4 0x0A000007] = pre @ resolve_client_ip cidr_ops (V4 0x0A000001) ?h ?t # suf"
    "\<not> is_trusted cidr_ops (resolve_client_ip cidr_ops (V4 0x0A000001) ?h ?t) ?t" by auto
  with t(3) show ?thesis by (auto simp: Cons_eq_append_conv)
qed

definition one_name :: "cidr trusted_proxies" where
  "one_name = trusted_proxies_new [Hostname ''proxy'']"

definition fixed_dns :: "unit dns_ops" where
  "fixed_dns = \<lparr>lookup_host = (\<lambda>_ w. (Inr [V4 0x0A000001], w)), dns_clock = (\<lambda>_. 0)\<rparr>"

theorem trusted_networks_fresh_witness:
  "fst (resolved cidr_ops fixed_dns one_name ()) = [Cidr (V4 0x0A000001) 32] \<and>
   cache_ok (fst (snd (resolved cidr_ops fixed_dns one_name ())))"
proof -
  obtain trusted tp' where r: "resolved cidr_ops fixed_dns one_name () = (trusted, tp', ())" by (metis prod.exhaust old.unit.exhaust)
  have "fst (resolved cidr_ops fixed_dns one_name ()) = [Cidr (V4 0x0A000001) 32]" by code_simp
  moreover have "cache_ok one_name" "0 < tp_positive_ttl one_name" "0 < tp_negative_ttl one_name"
    by (simp_all add: one_name_def cache_ok_def trusted_proxies_new_def resolution_cache_default_def POSITIVE_TTL_def NEGATIVE_TTL_def)
  moreover from trusted_networks_fresh [OF _ this(2,3,1) r] have "cache_ok tp'" by (simp add: fixed_dns_def)
  ultimately show ?thesis using r by simp
qed

theorem tuning_values_bounded_witness:
  "max_body_bytes (\<lambda>_. Some (dec (2 ^ 44))) = 0"
proof -
  have "parse_uint u64_max (dec (2 ^ 44)) = Some (2 ^ 44)" by (rule parse_uint_dec) simp
  with tuning_values_bounded [of "\<lambda>_. Some (dec (2 ^ 44))" "dec (2 ^ 44)" "2 ^ 44"] show ?thesis by (simp del: dec.simps)
qed

end
