(* ===== verification/Auth.thy ===== *)
theory Auth
  imports Config Replay Guards
begin

text \<open>
  \<open>src/middleware.rs\<close> and \<open>src/master.rs\<close>: who is calling, and may they call at all. The middleware
  is a function of the database, the replay guard, the trusted proxies, the clocks and one request;
  it returns the authenticated key and the client address, or an error, with the replay guard
  and the proxy cache it leaves. Signed 64-bit arithmetic wraps, as it does in a release build.
\<close>

section \<open>The Master\<close>

datatype master_pin_error = NoMaster | MultipleMasters "uuid list" | MissingUniquenessIndex

record master_pin =
  pin_cell :: "uuid option"

definition pinned_to :: "uuid \<Rightarrow> master_pin" where
  "pinned_to i = \<lparr>pin_cell = Some i\<rparr>"

definition sole_master :: "database \<Rightarrow> master_pin_error + uuid" where
  "sole_master db =
     (case map key_id (filter is_master (api_keys db)) of
        [only] \<Rightarrow> Inr only
      | [] \<Rightarrow> Inl NoMaster
      | many \<Rightarrow> Inl (MultipleMasters many))"

text \<open>Whether the unique index exists is the answer of \<open>db::has_index\<close>.\<close>

definition pin_at_boot :: "master_pin \<Rightarrow> bool \<Rightarrow> database \<Rightarrow> (master_pin_error + uuid) \<times> master_pin" where
  "pin_at_boot pin has_index db =
     (case pin_cell pin of
        Some pinned \<Rightarrow> (Inr pinned, pin)
      | None \<Rightarrow> try_h (sole_master db) pin (\<lambda>pinned.
          if \<not> has_index then (Inl MissingUniquenessIndex, pin) else (Inr pinned, \<lparr>pin_cell = Some pinned\<rparr>)))"

definition resolve_master :: "master_pin \<Rightarrow> database \<Rightarrow> uuid option" where
  "resolve_master pin db = ok_opt (sole_master db)"

definition authenticate :: "master_pin \<Rightarrow> database \<Rightarrow> api_key \<Rightarrow> api_key" where
  "authenticate pin db key =
     (if \<not> is_master key then key
      else if resolve_master pin db = Some (key_id key) then key
      else key\<lparr>is_master := False\<rparr>)"

section \<open>Requests\<close>

record request_uri =
  uri_path :: string
  uri_path_and_query :: "string option"

record inbound_request =
  ir_method :: string
  ir_uri :: request_uri
  ir_original_uri :: "request_uri option"
  ir_headers :: header_map
  ir_peer :: ip_addr
  ir_body :: "string + bytes"

definition signed_target :: "inbound_request \<Rightarrow> string" where
  "signed_target req =
     (let uri = (case ir_original_uri req of Some original \<Rightarrow> original | None \<Rightarrow> ir_uri req) in
      case uri_path_and_query uri of Some pq \<Rightarrow> pq | None \<Rightarrow> uri_path uri)"

definition wrap_i64 :: "int \<Rightarrow> int" where
  "wrap_i64 i = (i + 2 ^ 63) mod 2 ^ 64 - 2 ^ 63"

definition validate_timestamp :: "int \<Rightarrow> header_map \<Rightarrow> app_error + string" where
  "validate_timestamp now_secs headers =
     ebind (ok_or (Unauthorized ''Missing X-Timestamp header'') (map_option trim (headers ''X-Timestamp''))) (\<lambda>raw.
     ebind (ok_or (Unauthorized ''Malformed X-Timestamp header'') (parse_i64 raw)) (\<lambda>supplied.
     let skew = wrap_i64 (abs (wrap_i64 (now_secs - supplied))) in
     if MAX_TIMESTAMP_SKEW_SECS < skew
     then Inl (Unauthorized (''Request timestamp outside the permitted '' @ dec_int MAX_TIMESTAMP_SKEW_SECS @ ''s window''))
     else Inr raw))"

definition to_bytes :: "string + bytes \<Rightarrow> nat \<Rightarrow> bytes option" where
  "to_bytes body mx = (case body of Inl _ \<Rightarrow> None | Inr bs \<Rightarrow> if length bs \<le> mx then Some bs else None)"

fun parse_networks :: "'n ipnet_ops \<Rightarrow> string list \<Rightarrow> 'n list option" where
  "parse_networks nets [] = Some []"
| "parse_networks nets (s # ss) =
     (case net_parse nets s of None \<Rightarrow> None | Some n \<Rightarrow> map_option (Cons n) (parse_networks nets ss))"

definition bound_networks :: "'n ipnet_ops \<Rightarrow> api_key \<Rightarrow> 'n list option" where
  "bound_networks nets key = parse_networks nets (comma_items (or_default [] (bound_ips key)))"

record 'n auth_env =
  au_nets :: "'n ipnet_ops"
  au_crypto :: crypto_ops
  au_cipher :: secret_cipher
  au_pin :: master_pin
  au_max_body_bytes :: nat

definition too_large :: app_error where
  "too_large = BodyRejected 413 ''Request body exceeds the maximum allowed size''"

definition find_key_by_hash :: "database \<Rightarrow> string \<Rightarrow> api_key option" where
  "find_key_by_hash db h = List.find (\<lambda>k. key_hash k = h) (api_keys db)"

text \<open>Everything up to the signature check: the key, the digest and the body.\<close>

definition check_signature ::
  "'n auth_env \<Rightarrow> database \<Rightarrow> int \<Rightarrow> inbound_request \<Rightarrow> app_error + api_key \<times> bytes" where
  "check_signature au db now_secs req =
     (let headers = ir_headers req in
      ebind (validate_timestamp now_secs headers) (\<lambda>timestamp.
      ebind (ok_or (Unauthorized ''Missing X-API-Key header'') (headers ''X-API-Key'')) (\<lambda>provided_key.
      ebind (ok_or (Unauthorized ''Missing X-Signature-256 header'') (headers ''X-Signature-256'')) (\<lambda>provided_signature.
      if \<not> starts_with SIGNATURE_PREFIX (trim provided_signature)
      then Inl (Unauthorized ''X-Signature-256 must be formatted as sha256=<hex>'')
      else
      ebind (ok_or (Unauthorized ''Invalid API Key'') (find_key_by_hash db (hash_key (au_crypto au) provided_key))) (\<lambda>key.
      ebind (ok_or (Unauthorized ''This API key has no signing secret; rotate it to obtain one'') (key_signing_secret key)) (\<lambda>stored.
      ebind (crypto_result (open_secret (au_crypto au) (au_cipher au) stored)) (\<lambda>signing_secret.
      if (case Option.bind (headers ''Content-Length'') (parse_uint u64_max) of None \<Rightarrow> False | Some n \<Rightarrow> au_max_body_bytes au < n)
      then Inl too_large
      else
      ebind (ok_or too_large (to_bytes (ir_body req) (au_max_body_bytes au))) (\<lambda>body_bytes.
      ebind (ok_or (Unauthorized ''Invalid request signature'')
              (verify_signature (au_crypto au) signing_secret (ir_method req) (signed_target req) timestamp body_bytes provided_signature))
        (\<lambda>digest. Inr (key, digest))))))))))"

definition check_bound_ips :: "'n ipnet_ops \<Rightarrow> api_key \<Rightarrow> ip_addr \<Rightarrow> app_error + unit" where
  "check_bound_ips nets key client =
     ebind (ok_or Internal (bound_networks nets key)) (\<lambda>networks.
     if networks \<noteq> [] \<and> \<not> list_ex (\<lambda>net. net_contains nets net client) networks
     then Inl (Forbidden ''Client IP not allowed'') else Inr ())"

definition auth_middleware ::
  "'n auth_env \<Rightarrow> 'w dns_ops \<Rightarrow> database \<Rightarrow> int \<Rightarrow> instant \<Rightarrow> inbound_request
    \<Rightarrow> replay_guard \<times> 'n trusted_proxies \<times> 'w
    \<Rightarrow> (app_error + (api_key \<times> ip_addr)) \<times> replay_guard \<times> 'n trusted_proxies \<times> 'w"
where
  "auth_middleware au dns db now_secs instant_now req st =
     (case st of (guard, tp, w) \<Rightarrow>
      case resolved (au_nets au) dns tp w of (trusted, tp1, w1) \<Rightarrow>
      (let client = resolve_client_ip (au_nets au) (ir_peer req) (ir_headers req) trusted in
       try_h (check_signature au db now_secs req) (guard, tp1, w1) (\<lambda>(key, digest).
       case check_and_record guard instant_now (key_id key) digest of
         (False, guard1) \<Rightarrow>
           (Inl (Unauthorized ''This request signature has already been used; sign a fresh request''), guard1, tp1, w1)
       | (True, guard1) \<Rightarrow>
           try_h (check_bound_ips (au_nets au) key client) (guard1, tp1, w1) (\<lambda>_.
           (Inr (authenticate (au_pin au) db key, client), guard1, tp1, w1)))))"

section \<open>Lemmas\<close>

definition timestamp_fresh :: "int \<Rightarrow> int \<Rightarrow> bool" where
  "timestamp_fresh now_secs supplied \<longleftrightarrow> abs (now_secs - supplied) \<le> MAX_TIMESTAMP_SKEW_SECS \<or> supplied = now_secs - 2 ^ 63"

lemma wrap_i64_small: "- (2 ^ 63) \<le> i \<Longrightarrow> i < 2 ^ 63 \<Longrightarrow> wrap_i64 i = i"
  by (simp add: wrap_i64_def)

lemma skew_cases:
  assumes "0 \<le> t" "t < 2 ^ 62" "- (2 ^ 63) \<le> s" "s < 2 ^ 63"
  shows "wrap_i64 (abs (wrap_i64 (t - s))) \<le> MAX_TIMESTAMP_SKEW_SECS \<longleftrightarrow> timestamp_fresh t s"
proof -
  consider (in_range) "t - s < 2 ^ 63" | (corner) "t - s = 2 ^ 63" | (over) "2 ^ 63 < t - s" by linarith
  then show ?thesis
  proof cases
    case in_range
    then have "wrap_i64 (t - s) = t - s" "abs (t - s) < 2 ^ 63" using assms by (auto simp: wrap_i64_small)
    then have "wrap_i64 (abs (wrap_i64 (t - s))) = abs (t - s)" by (simp add: wrap_i64_small)
    then show ?thesis using in_range by (auto simp: timestamp_fresh_def)
  next
    case corner
    then have "s = t - 2 ^ 63" by simp
    moreover have "wrap_i64 (abs (wrap_i64 (2 ^ 63))) = - (2 ^ 63)" by (simp add: wrap_i64_def)
    ultimately show ?thesis using corner by (simp add: timestamp_fresh_def MAX_TIMESTAMP_SKEW_SECS_def)
  next
    case over
    have "wrap_i64 (t - s) = t - s - 2 ^ 64"
    proof -
      have "t - s + 2 ^ 63 = (t - s - 2 ^ 63) + 2 ^ 64" by simp
      then have "(t - s + 2 ^ 63) mod 2 ^ 64 = (t - s - 2 ^ 63) mod 2 ^ 64" by (simp only: mod_add_self2)
      also have "\<dots> = t - s - 2 ^ 63" using over assms by (intro mod_pos_pos_trivial) auto
      finally show ?thesis by (simp add: wrap_i64_def)
    qed
    moreover have "wrap_i64 (2 ^ 64 - (t - s)) = 2 ^ 64 - (t - s)" using over assms by (intro wrap_i64_small) auto
    ultimately have "wrap_i64 (abs (wrap_i64 (t - s))) = 2 ^ 64 - (t - s)" using over assms by simp
    then show ?thesis using over assms by (auto simp: timestamp_fresh_def MAX_TIMESTAMP_SKEW_SECS_def)
  qed
qed

lemma validate_timestamp_iff:
  assumes "0 \<le> now_secs" "now_secs < 2 ^ 62"
  shows "validate_timestamp now_secs headers = Inr raw \<longleftrightarrow>
    (\<exists>h supplied. headers ''X-Timestamp'' = Some h \<and> raw = trim h \<and> parse_i64 raw = Some supplied \<and> timestamp_fresh now_secs supplied)"
proof -
  have b: "- (2 ^ 63) \<le> i \<and> i < 2 ^ 63" if "parse_i64 s = Some i" for s i
    using parse_sint_bounds [of "- (2 ^ 63)" "2 ^ 63 - 1" s i] that by (simp add: parse_i64_def)
  have "\<not> MAX_TIMESTAMP_SKEW_SECS < wrap_i64 (abs (wrap_i64 (now_secs - i))) \<longleftrightarrow> timestamp_fresh now_secs i"
    if "parse_i64 s = Some i" for s i
    using skew_cases [OF assms, of i] b [OF that] by (simp add: not_less)
  then show ?thesis
    by (auto simp: validate_timestamp_def Let_def split: if_splits)
qed

lemma check_signature_Inr:
  "check_signature au db now_secs req = Inr (key, digest) \<longleftrightarrow>
     (\<exists>timestamp provided_key provided_signature stored signing_secret body_bytes.
        validate_timestamp now_secs (ir_headers req) = Inr timestamp \<and>
        ir_headers req ''X-API-Key'' = Some provided_key \<and> ir_headers req ''X-Signature-256'' = Some provided_signature \<and>
        starts_with SIGNATURE_PREFIX (trim provided_signature) \<and>
        find_key_by_hash db (hash_key (au_crypto au) provided_key) = Some key \<and>
        key_signing_secret key = Some stored \<and> open_secret (au_crypto au) (au_cipher au) stored = Inr signing_secret \<and>
        \<not> (case Option.bind (ir_headers req ''Content-Length'') (parse_uint u64_max) of None \<Rightarrow> False | Some n \<Rightarrow> au_max_body_bytes au < n) \<and>
        to_bytes (ir_body req) (au_max_body_bytes au) = Some body_bytes \<and>
        verify_signature (au_crypto au) signing_secret (ir_method req) (signed_target req) timestamp body_bytes provided_signature = Some digest)"
  unfolding check_signature_def Let_def
  by (simp only: ebind_eq_Inr ok_or_eq_Inr crypto_result_eq_Inr if_split [where P = "\<lambda>x. x = Inr (key, digest)"]) auto

lemma authenticate_sole:
  "is_master (authenticate pin db key) \<longleftrightarrow> is_master key \<and> sole_master db = Inr (key_id key)"
  by (auto simp: authenticate_def resolve_master_def)

lemma sole_master_iff: "sole_master db = Inr i \<longleftrightarrow> map key_id (filter is_master (api_keys db)) = [i]"
  by (auto simp: sole_master_def split: list.splits)

section \<open>Properties\<close>

text \<open>
  C25. What an authenticated request has proved: it carries a fresh timestamp, the key whose hash is
  stored, and a signature under that key's secret over exactly this method, target, timestamp and
  body; the body respects the limit; the signature was not seen within the window and is
  recorded; the client address is one the key is bound to, if it is bound; and the key acts as
  Master only if it is the one Master row of the database.\<close>

theorem authenticated_request_proved:
  assumes "auth_middleware au dns db now_secs instant_now req (guard, tp, w) = (Inr (key', ip), guard', tp', w')"
    and "0 \<le> now_secs" "now_secs < 2 ^ 62"
  shows "\<exists>key provided_key stored secret h supplied body signature digest networks.
    ir_headers req ''X-API-Key'' = Some provided_key \<and> key \<in> set (api_keys db) \<and>
    key_hash key = hash_key (au_crypto au) provided_key \<and>
    key_signing_secret key = Some stored \<and> open_secret (au_crypto au) (au_cipher au) stored = Inr secret \<and>
    ir_headers req ''X-Timestamp'' = Some h \<and> parse_i64 (trim h) = Some supplied \<and> timestamp_fresh now_secs supplied \<and>
    ir_body req = Inr body \<and> length body \<le> au_max_body_bytes au \<and>
    ir_headers req ''X-Signature-256'' = Some signature \<and>
    verify_signature (au_crypto au) secret (ir_method req) (signed_target req) (trim h) body signature = Some digest \<and>
    check_and_record guard instant_now (key_id key) digest = (True, guard') \<and>
    bound_networks (au_nets au) key = Some networks \<and>
    (networks \<noteq> [] \<longrightarrow> list_ex (\<lambda>net. net_contains (au_nets au) net ip) networks) \<and>
    key' = key\<lparr>is_master := is_master key'\<rparr> \<and>
    (is_master key' \<longrightarrow> map key_id (filter is_master (api_keys db)) = [key_id key])"
proof -
  obtain trusted tp1 w1 where r: "resolved (au_nets au) dns tp w = (trusted, tp1, w1)" using prod_cases3 by blast
  obtain key digest where c: "check_signature au db now_secs req = Inr (key, digest)"
    using assms(1) r by (auto simp: auth_middleware_def Let_def try_h_def split: sum.splits)
  have rest: "check_and_record guard instant_now (key_id key) digest = (True, guard')"
    "check_bound_ips (au_nets au) key ip = Inr ()" "key' = authenticate (au_pin au) db key"
    using assms(1) r c by (auto simp: auth_middleware_def Let_def try_h_eq_Inr split: bool.splits prod.splits)
  obtain networks where n: "bound_networks (au_nets au) key = Some networks"
    "networks \<noteq> [] \<longrightarrow> list_ex (\<lambda>net. net_contains (au_nets au) net ip) networks"
    using rest(2) by (auto simp: check_bound_ips_def split: if_splits)
  obtain timestamp provided_key signature stored secret body where v: "validate_timestamp now_secs (ir_headers req) = Inr timestamp"
    "ir_headers req ''X-API-Key'' = Some provided_key" "ir_headers req ''X-Signature-256'' = Some signature"
    "find_key_by_hash db (hash_key (au_crypto au) provided_key) = Some key" "key_signing_secret key = Some stored"
    "open_secret (au_crypto au) (au_cipher au) stored = Inr secret" "to_bytes (ir_body req) (au_max_body_bytes au) = Some body"
    "verify_signature (au_crypto au) secret (ir_method req) (signed_target req) timestamp body signature = Some digest"
    using c [unfolded check_signature_Inr] by blast
  obtain h supplied where t: "ir_headers req ''X-Timestamp'' = Some h" "timestamp = trim h" "parse_i64 (trim h) = Some supplied"
    "timestamp_fresh now_secs supplied"
    using v(1) [unfolded validate_timestamp_iff [OF assms(2,3)]] by blast
  have b: "ir_body req = Inr body" "length body \<le> au_max_body_bytes au"
    using v(7) by (auto simp: to_bytes_def split: sum.splits if_splits)
  have k: "key \<in> set (api_keys db)" "key_hash key = hash_key (au_crypto au) provided_key"
    using v(4) by (auto simp: find_key_by_hash_def dest: find_eq_Some_D)
  have m: "key' = key\<lparr>is_master := is_master key'\<rparr>" "is_master key' \<longrightarrow> map key_id (filter is_master (api_keys db)) = [key_id key]"
    using rest(3) authenticate_sole [of "au_pin au" db key] sole_master_iff by (auto simp: authenticate_def)
  note facts = v(2) k v(5,6) t(1,3,4) b v(3) v(8) [unfolded t(2)] rest(1) n m
  show ?thesis by (intro exI conjI) (fact facts)+
qed

text \<open>
  A refusal is no oracle and costs the client nothing: before the signature has been verified
  the replay guard is left as it was, so that nobody can burn another client's signature, and
  the address refusal comes only after the signature has been verified.\<close>

theorem refusal_before_signature:
  assumes "auth_middleware au dns db now_secs instant_now req (guard, tp, w) = (Inl e, guard', tp', w')"
  shows "(isl (check_signature au db now_secs req) \<longrightarrow> guard' = guard \<and> check_signature au db now_secs req = Inl e) \<and>
    (fst (into_response e) = 403 \<longrightarrow> (\<exists>key digest. check_signature au db now_secs req = Inr (key, digest)))"
proof -
  obtain trusted tp1 w1 where r: "resolved (au_nets au) dns tp w = (trusted, tp1, w1)" using prod_cases3 by blast
  show ?thesis
  proof (cases "check_signature au db now_secs req")
    case (Inl err)
    then have "err = e" "guard' = guard" using assms r by (auto simp: auth_middleware_def Let_def)
    moreover have "fst (into_response err) \<noteq> 403"
      using Inl
      by (auto simp: check_signature_def validate_timestamp_def Let_def ebind_def ok_or_def crypto_result_def map_err_def too_large_def
          crypto_app_error_def split: sum.splits option.splits if_splits)
    ultimately show ?thesis using Inl by simp
  next
    case (Inr a)
    then show ?thesis by (cases a) simp
  qed
qed

text \<open>
  C40. The freshness check at its width: a timestamp passes exactly when it is within the permitted
  skew of the server's clock, or is the one value \<open>2^63\<close> seconds before it, for which the
  difference and its absolute value wrap around to the smallest integer.\<close>

theorem timestamp_window_exact:
  assumes "0 \<le> now_secs" "now_secs < 2 ^ 62" "headers ''X-Timestamp'' = Some h" "parse_i64 (trim h) = Some supplied"
  shows "isl (validate_timestamp now_secs headers) \<longleftrightarrow>
    MAX_TIMESTAMP_SKEW_SECS < abs (now_secs - supplied) \<and> supplied \<noteq> now_secs - 2 ^ 63"
proof -
  have "(\<exists>raw. validate_timestamp now_secs headers = Inr raw) \<longleftrightarrow> timestamp_fresh now_secs supplied"
    unfolding validate_timestamp_iff [OF assms(1,2)] using assms(3,4) by auto
  then show ?thesis
    by (cases "validate_timestamp now_secs headers") (auto simp: timestamp_fresh_def not_le)
qed

section \<open>Witnesses\<close>

definition known_key :: api_key where
  "known_key = \<lparr>key_id = 1, key_name = ''m'', key_hash = hash_key toy_crypto ''ab'', key_signing_secret = Some ''v1.plain.6b'',
     key_prefix = ''ab'', is_master = True, can_manage_keys = True, can_manage_sources = True, can_manage_vaults = True,
     parent_key_id = None, bound_ips = Some ''10.0.0.0/8'', key_created_at = 0, key_updated_at = 0\<rparr>"

definition auth_db :: database where
  "auth_db = \<lparr>api_keys = [known_key], permissions = [], vaults = [], groups = [], group_targets = [], feeds = [], tasks = [],
     task_targets = [], sync_logs = [], audit_logs = []\<rparr>"

definition sample_au :: "cidr auth_env" where
  "sample_au = \<lparr>au_nets = cidr_ops, au_crypto = toy_crypto, au_cipher = Plaintext, au_pin = pinned_to 1, au_max_body_bytes = 100\<rparr>"

definition sample_headers :: "string \<Rightarrow> string \<Rightarrow> header_map" where
  "sample_headers ts sig = map_of [(''X-Timestamp'', ts), (''X-API-Key'', ''ab''), (''X-Signature-256'', sig)]"

definition sample_signature :: string where
  "sample_signature = (case compute_signature toy_crypto ''k'' ''GET'' ''/api/keys'' ''1000'' [] of Inr s \<Rightarrow> s | Inl _ \<Rightarrow> [])"

definition signed_request :: "ip_addr \<Rightarrow> string \<Rightarrow> inbound_request" where
  "signed_request peer sig = \<lparr>ir_method = ''GET'', ir_uri = \<lparr>uri_path = ''/keys'', uri_path_and_query = None\<rparr>,
     ir_original_uri = Some \<lparr>uri_path = ''/api/keys'', uri_path_and_query = Some ''/api/keys''\<rparr>,
     ir_headers = sample_headers ''1000'' sig, ir_peer = peer, ir_body = Inr []\<rparr>"

lemma sample_accepted:
  "map_option fst (ok_opt (fst (auth_middleware sample_au fixed_dns auth_db 1100 0 (signed_request (V4 0x0A000001) sample_signature)
     (replay_new 300 0, trusted_proxies_default, ())))) = Some known_key"
  by code_simp

theorem authenticated_request_proved_witness:
  "\<exists>key' ip st'. auth_middleware sample_au fixed_dns auth_db 1100 0 (signed_request (V4 0x0A000001) sample_signature)
     (replay_new 300 0, trusted_proxies_default, ()) = (Inr (key', ip), st') \<and> map key_id (filter is_master (api_keys auth_db)) = [1]"
proof -
  obtain key' ip guard' tp' w' where run: "auth_middleware sample_au fixed_dns auth_db 1100 0
      (signed_request (V4 0x0A000001) sample_signature) (replay_new 300 0, trusted_proxies_default, ()) = (Inr (key', ip), guard', tp', w')"
    and k: "key' = known_key"
    using sample_accepted
    by (cases "auth_middleware sample_au fixed_dns auth_db 1100 0 (signed_request (V4 0x0A000001) sample_signature)
      (replay_new 300 0, trusted_proxies_default, ())") (auto simp: ok_opt_def split: sum.splits)
  have "is_master key'" by (simp add: k known_key_def)
  with authenticated_request_proved [OF run] have "\<exists>key. key \<in> set (api_keys auth_db) \<and>
      map key_id (filter is_master (api_keys auth_db)) = [key_id key]" by auto
  then have "map key_id (filter is_master (api_keys auth_db)) = [1]" by (simp add: auth_db_def known_key_def)
  note facts = run this
  show ?thesis by (intro exI conjI) (fact facts)+
qed

lemma sample_refused:
  "fst (auth_middleware sample_au fixed_dns auth_db 1100 0 (signed_request (V4 0x08080808) sample_signature)
     (replay_new 300 0, trusted_proxies_default, ())) = Inl (Forbidden ''Client IP not allowed'')"
  by code_simp

theorem refusal_before_signature_witness:
  "\<exists>key digest. check_signature sample_au auth_db 1100 (signed_request (V4 0x08080808) sample_signature) = Inr (key, digest)"
proof -
  obtain guard' tp' w' where run: "auth_middleware sample_au fixed_dns auth_db 1100 0
      (signed_request (V4 0x08080808) sample_signature) (replay_new 300 0, trusted_proxies_default, ())
      = (Inl (Forbidden ''Client IP not allowed''), guard', tp', w')"
    using sample_refused by (metis prod.collapse)
  from refusal_before_signature [OF run] show ?thesis by simp
qed

theorem timestamp_window_exact_witness:
  "\<not> isl (validate_timestamp 1000 (\<lambda>_. Some ''-9223372036854774808'')) \<and> isl (validate_timestamp 1000 (\<lambda>_. Some ''699''))"
proof -
  have "parse_i64 (trim ''-9223372036854774808'') = Some (1000 - 2 ^ 63)" "parse_i64 (trim ''699'') = Some 699" by code_simp+
  from timestamp_window_exact [OF _ _ _ this(1), of 1000 "\<lambda>_. Some ''-9223372036854774808''"]
    timestamp_window_exact [OF _ _ _ this(2), of 1000 "\<lambda>_. Some ''699''"]
  show ?thesis by (simp add: MAX_TIMESTAMP_SKEW_SECS_def)
qed

end
