(* ===== verification/Logs.thy ===== *)
theory Logs
  imports SourceApi
begin

text \<open>
  \<open>src/api/sync_logs.rs\<close>, \<open>src/api/audit.rs\<close> and \<open>src/retention.rs\<close>: reading the two histories and
  purging them. Rows with equal timestamps come in insertion order, one of the orders the
  database may choose. As in the ingestion, \<open>None\<close> is the panic of \<open>chrono\<close> on a date before its
  earliest.
\<close>

section \<open>Reading\<close>

record sync_log_query =
  sq_job_type :: "string option"
  sq_job_id :: "uuid option"
  sq_limit :: "nat option"
  sq_offset :: "nat option"

record audit_log_query =
  aq_action :: "string option"
  aq_limit :: "nat option"
  aq_offset :: "nat option"

definition resource_type_for :: "string \<Rightarrow> string option" where
  "resource_type_for job_type =
     (if job_type = ''EXTERNAL_FEED'' then Some RESOURCE_DESTINATION_GROUP
      else if job_type = ''VAULT_SYNC'' then Some RESOURCE_SYNC_TASK else None)"

definition matches :: "'a option \<Rightarrow> 'a \<Rightarrow> bool" where
  "matches q v \<longleftrightarrow> (case q of None \<Rightarrow> True | Some x \<Rightarrow> v = x)"

definition page :: "('r \<Rightarrow> instant) \<Rightarrow> nat option \<Rightarrow> nat option \<Rightarrow> 'r list \<Rightarrow> 'r list" where
  "page ts limit offset rows =
     take (min (case limit of None \<Rightarrow> 100 | Some n \<Rightarrow> n) 1000)
       (drop (case offset of None \<Rightarrow> 0 | Some n \<Rightarrow> n) (sort_key (\<lambda>r. - ts r) rows))"

definition sync_log_page :: "sync_log_query \<Rightarrow> database \<Rightarrow> sync_log list" where
  "sync_log_page q db = page slog_timestamp (sq_limit q) (sq_offset q)
     (filter (\<lambda>l. matches (sq_job_type q) (slog_job_type l) \<and> matches (sq_job_id q) (slog_job_id l)) (sync_logs db))"

definition log_visible :: "api_key \<Rightarrow> database \<Rightarrow> sync_log \<Rightarrow> bool" where
  "log_visible caller db row =
     (case resource_type_for (slog_job_type row) of
        None \<Rightarrow> False
      | Some ty \<Rightarrow> guard_can_view_logs caller (find_permission db (key_id caller) ty (slog_job_id row)))"

definition list_sync_logs :: "api_key \<Rightarrow> sync_log_query \<Rightarrow> database \<Rightarrow> sync_log list" where
  "list_sync_logs caller q db =
     (let rows = sync_log_page q db in
      if is_master caller then rows else filter (log_visible caller db) rows)"

definition list_audit_logs :: "api_key \<Rightarrow> audit_log_query \<Rightarrow> database \<Rightarrow> app_error + audit_log list" where
  "list_audit_logs caller q db =
     (if \<not> is_master caller then Inl (Forbidden ''audit logs are visible to the Master key only'')
      else Inr (page alog_timestamp (aq_limit q) (aq_offset q)
             (filter (\<lambda>l. matches (aq_action q) (alog_action l)) (audit_logs db))))"

section \<open>Retention\<close>

definition DEFAULT_SYNC_LOG_RETENTION_DAYS :: int where "DEFAULT_SYNC_LOG_RETENTION_DAYS = 92"
definition DEFAULT_AUDIT_LOG_RETENTION_DAYS :: int where "DEFAULT_AUDIT_LOG_RETENTION_DAYS = 365"
definition DEFAULT_SWEEP_SECONDS :: nat where "DEFAULT_SWEEP_SECONDS = 3600"

definition retention_days_from_env :: "(string \<Rightarrow> string option) \<Rightarrow> string \<Rightarrow> int \<Rightarrow> int" where
  "retention_days_from_env env var default_days =
     (case env var of
        None \<Rightarrow> default_days
      | Some raw \<Rightarrow> (case parse_i64 (trim raw) of Some days \<Rightarrow> if 0 \<le> days then days else default_days | None \<Rightarrow> default_days))"

definition sweep_seconds_from_env :: "(string \<Rightarrow> string option) \<Rightarrow> nat" where
  "sweep_seconds_from_env env =
     (case env ''LOG_RETENTION_SWEEP_SECONDS'' of
        None \<Rightarrow> DEFAULT_SWEEP_SECONDS
      | Some raw \<Rightarrow> max (case parse_uint u64_max (trim raw) of None \<Rightarrow> DEFAULT_SWEEP_SECONDS | Some n \<Rightarrow> n) 1)"

definition purge_threshold :: "instant \<Rightarrow> instant \<Rightarrow> int \<Rightarrow> instant option" where
  "purge_threshold earliest current days =
     (if current - days * day_ms < earliest then None else Some (current - days * day_ms))"

definition purge_expired_sync_logs :: "instant \<Rightarrow> instant \<Rightarrow> int \<Rightarrow> database \<Rightarrow> (nat \<times> database) option" where
  "purge_expired_sync_logs earliest current days db =
     (if days \<le> 0 then Some (0, db)
      else map_option (\<lambda>threshold.
        (length (filter (\<lambda>l. slog_timestamp l < threshold) (sync_logs db)),
         db\<lparr>sync_logs := filter (\<lambda>l. \<not> slog_timestamp l < threshold) (sync_logs db)\<rparr>))
        (purge_threshold earliest current days))"

definition purge_expired_audit_logs :: "instant \<Rightarrow> instant \<Rightarrow> int \<Rightarrow> database \<Rightarrow> (nat \<times> database) option" where
  "purge_expired_audit_logs earliest current days db =
     (if days \<le> 0 then Some (0, db)
      else map_option (\<lambda>threshold.
        (length (filter (\<lambda>l. alog_timestamp l < threshold) (audit_logs db)),
         db\<lparr>audit_logs := filter (\<lambda>l. \<not> alog_timestamp l < threshold) (audit_logs db)\<rparr>))
        (purge_threshold earliest current days))"

text \<open>
  The worker, over the instants of its ticks: the sweeps of both tables, unless both are disabled.
\<close>

fun sweeps :: "instant \<Rightarrow> int \<Rightarrow> int \<Rightarrow> instant list \<Rightarrow> database \<Rightarrow> database option" where
  "sweeps earliest sync_days audit_days [] db = Some db"
| "sweeps earliest sync_days audit_days (t # ts) db =
     (case purge_expired_sync_logs earliest t sync_days db of
        None \<Rightarrow> None
      | Some (_, db1) \<Rightarrow>
         (case purge_expired_audit_logs earliest t audit_days db1 of
            None \<Rightarrow> None
          | Some (_, db2) \<Rightarrow> sweeps earliest sync_days audit_days ts db2))"

definition run_retention_worker ::
  "(string \<Rightarrow> string option) \<Rightarrow> instant \<Rightarrow> instant list \<Rightarrow> database \<Rightarrow> database option" where
  "run_retention_worker env earliest ticks db =
     (let sync_log_days = retention_days_from_env env ''SYNC_LOG_RETENTION_DAYS'' DEFAULT_SYNC_LOG_RETENTION_DAYS;
          audit_log_days = retention_days_from_env env ''AUDIT_LOG_RETENTION_DAYS'' DEFAULT_AUDIT_LOG_RETENTION_DAYS in
      if sync_log_days \<le> 0 \<and> audit_log_days \<le> 0 then Some db
      else sweeps earliest sync_log_days audit_log_days ticks db)"

section \<open>Lemmas\<close>

definition kept_since :: "instant \<Rightarrow> int \<Rightarrow> ('r \<Rightarrow> instant) \<Rightarrow> 'r list \<Rightarrow> 'r list" where
  "kept_since t days ts rows = (if days \<le> 0 then rows else filter (\<lambda>r. t - days * day_ms \<le> ts r) rows)"

lemma kept_since_twice: "t \<le> u \<Longrightarrow> kept_since u d ts (kept_since t d ts rows) = kept_since u d ts rows"
  by (auto simp: kept_since_def intro!: filter_cong)

lemma purges_eq:
  "purge_expired_sync_logs earliest t d db = Some (n, db') \<Longrightarrow> db' = db\<lparr>sync_logs := kept_since t d slog_timestamp (sync_logs db)\<rparr>"
  "purge_expired_audit_logs earliest t d db = Some (n, db') \<Longrightarrow> db' = db\<lparr>audit_logs := kept_since t d alog_timestamp (audit_logs db)\<rparr>"
  by (auto simp: purge_expired_sync_logs_def purge_expired_audit_logs_def purge_threshold_def kept_since_def not_less split: if_splits)

lemma sweeps_eq:
  "sweeps earliest d e ts db = Some db' \<Longrightarrow> sorted (t # ts) \<Longrightarrow>
   sync_logs db = kept_since t d slog_timestamp (sync_logs db0) \<Longrightarrow> audit_logs db = kept_since t e alog_timestamp (audit_logs db0) \<Longrightarrow>
   db' = db\<lparr>sync_logs := kept_since (last (t # ts)) d slog_timestamp (sync_logs db0),
            audit_logs := kept_since (last (t # ts)) e alog_timestamp (audit_logs db0)\<rparr>"
proof (induction ts arbitrary: t db)
  case Nil
  then show ?case by (metis last.simps option.inject sweeps.simps(1) database.surjective database.update_convs(9) database.update_convs(10))
next
  case (Cons u ts)
  obtain n db1 m db2 where p: "purge_expired_sync_logs earliest u d db = Some (n, db1)"
    "purge_expired_audit_logs earliest u e db1 = Some (m, db2)" "sweeps earliest d e ts db2 = Some db'"
    using Cons.prems(1) by (auto split: option.splits)
  have tu: "t \<le> u" "sorted (u # ts)" using Cons.prems(2) by auto
  have db2: "db2 = db\<lparr>sync_logs := kept_since u d slog_timestamp (sync_logs db0),
      audit_logs := kept_since u e alog_timestamp (audit_logs db0)\<rparr>"
    unfolding purges_eq(2) [OF p(2)] purges_eq(1) [OF p(1)] by (simp add: Cons.prems(3,4) kept_since_twice [OF tu(1)])
  from Cons.IH [OF p(3) tu(2)] db2 show ?case by simp
qed

section \<open>Properties\<close>

text \<open>
  C39. Retention is exact: after any number of sweeps at increasing times, what remains of each history
  is exactly what one purge at the last sweep would keep: every row that is not older than its
  window, and all rows where purging is disabled; no other table changes.\<close>

theorem retention_keeps_exactly:
  assumes "run_retention_worker env earliest (ts @ [t]) db = Some db'" "sorted (ts @ [t])"
  shows "db' = db\<lparr>
    sync_logs := kept_since t (retention_days_from_env env ''SYNC_LOG_RETENTION_DAYS'' DEFAULT_SYNC_LOG_RETENTION_DAYS)
      slog_timestamp (sync_logs db),
    audit_logs := kept_since t (retention_days_from_env env ''AUDIT_LOG_RETENTION_DAYS'' DEFAULT_AUDIT_LOG_RETENTION_DAYS)
      alog_timestamp (audit_logs db)\<rparr>"
proof -
  let ?d = "retention_days_from_env env ''SYNC_LOG_RETENTION_DAYS'' DEFAULT_SYNC_LOG_RETENTION_DAYS"
  let ?e = "retention_days_from_env env ''AUDIT_LOG_RETENTION_DAYS'' DEFAULT_AUDIT_LOG_RETENTION_DAYS"
  show ?thesis
  proof (cases "?d \<le> 0 \<and> ?e \<le> 0")
    case True
    then have "db' = db" using assms(1) by (simp add: run_retention_worker_def)
    with True show ?thesis by (simp add: kept_since_def)
  next
    case False
    have run: "sweeps earliest ?d ?e (ts @ [t]) db = Some db'" using assms(1) unfolding run_retention_worker_def Let_def if_not_P [OF False] .
    obtain u us where us: "ts @ [t] = u # us" by (cases "ts @ [t]") auto
    obtain n db1 m db2 where p: "purge_expired_sync_logs earliest u ?d db = Some (n, db1)"
      "purge_expired_audit_logs earliest u ?e db1 = Some (m, db2)" "sweeps earliest ?d ?e us db2 = Some db'"
      using run [unfolded us] by (auto split: option.splits)
    have "last (u # us) = t" using us by (metis last_snoc)
    with sweeps_eq [OF p(3), of u db] purges_eq(1) [OF p(1)] purges_eq(2) [OF p(2)] assms(2) us show ?thesis by simp
  qed
qed

text \<open>
  Histories are scoped: a caller other than the Master reads a row of the execution history only
  with a permission to view the logs of its resource, never an audit row, and no page is longer
  than a thousand rows.\<close>

theorem histories_scoped:
  "(l \<in> set (list_sync_logs caller q db) \<longrightarrow> l \<in> set (sync_logs db) \<and>
     (is_master caller \<or> (\<exists>ty p. resource_type_for (slog_job_type l) = Some ty \<and>
        find_permission db (key_id caller) ty (slog_job_id l) = Some p \<and> can_view_logs p))) \<and>
   length (list_sync_logs caller q db) \<le> 1000 \<and>
   (\<forall>rows. list_audit_logs caller aq db = Inr rows \<longrightarrow> is_master caller \<and> length rows \<le> 1000 \<and> set rows \<subseteq> set (audit_logs db))"
proof -
  have page: "set (page ts limit offset rows) \<subseteq> set rows \<and> length (page ts limit offset rows) \<le> 1000" for ts limit offset and rows :: "'r list"
    unfolding page_def by (auto dest!: in_set_takeD in_set_dropD)
  have "length (filter P (sync_log_page q db)) \<le> 1000" for P
    using page [of slog_timestamp] by (auto simp: sync_log_page_def intro: le_trans [OF length_filter_le])
  then show ?thesis
    using page [of slog_timestamp] page [of alog_timestamp]
    by (fastforce simp: list_sync_logs_def list_audit_logs_def Let_def sync_log_page_def log_visible_def guard_can_view_logs_def
        split: option.splits if_splits)
qed

section \<open>Witnesses\<close>

definition sample_log :: "uuid \<Rightarrow> uuid \<Rightarrow> instant \<Rightarrow> sync_log" where
  "sample_log i job t = \<lparr>slog_id = i, slog_job_type = ''VAULT_SYNC'', slog_job_id = job, slog_job_name = ''t'', slog_status = ''SUCCESS'',
     slog_items_processed = 1, slog_chunks_sent = 1, slog_duration_ms = 1, slog_error_message = None, slog_timestamp = t\<rparr>"

definition log_db :: database where
  "log_db = (sample_db None)\<lparr>permissions := [\<lparr>perm_id = 20, perm_api_key_id = 2, perm_resource_type = ''sync_task'', perm_resource_id = 30,
       can_sync = False, can_manage = False, can_view_logs = True, perm_created_at = 0\<rparr>],
     sync_logs := [sample_log 41 30 (100 * day_ms), sample_log 42 31 (200 * day_ms)]\<rparr>"

theorem retention_keeps_exactly_witness:
  "\<exists>db'. run_retention_worker (\<lambda>_. None) 0 ([366 * day_ms] @ [370 * day_ms]) log_db = Some db' \<and> sync_logs db' = []"
proof -
  have "map_option sync_logs (run_retention_worker (\<lambda>_. None) 0 ([366 * day_ms] @ [370 * day_ms]) log_db) = Some []" by code_simp
  then obtain db' where run: "run_retention_worker (\<lambda>_. None) 0 ([366 * day_ms] @ [370 * day_ms]) log_db = Some db'" by auto
  have "sorted ([366 * day_ms] @ [370 * day_ms])" by (simp add: day_ms_def)
  from retention_keeps_exactly [OF run this] have "sync_logs db' = []"
    by (simp add: kept_since_def retention_days_from_env_def DEFAULT_SYNC_LOG_RETENTION_DAYS_def log_db_def sample_log_def day_ms_def)
  with run show ?thesis by blast
qed

definition first_page :: sync_log_query where
  "first_page = \<lparr>sq_job_type = None, sq_job_id = None, sq_limit = Some 2, sq_offset = None\<rparr>"

theorem histories_scoped_witness:
  "map slog_id (list_sync_logs sample_manager first_page log_db) = [41] \<and>
   (\<exists>p. find_permission log_db 2 ''sync_task'' 30 = Some p \<and> can_view_logs p)"
proof -
  have e: "list_sync_logs sample_manager first_page log_db = [sample_log 41 30 (100 * day_ms)]" by code_simp
  have m: "\<not> is_master sample_manager" "key_id sample_manager = 2" by code_simp+
  from histories_scoped [of "sample_log 41 30 (100 * day_ms)" sample_manager first_page log_db] e m
  have "\<exists>ty p. resource_type_for (slog_job_type (sample_log 41 30 (100 * day_ms))) = Some ty \<and>
      find_permission log_db 2 ty (slog_job_id (sample_log 41 30 (100 * day_ms))) = Some p \<and> can_view_logs p" by auto
  then have "\<exists>p. find_permission log_db 2 ''sync_task'' 30 = Some p \<and> can_view_logs p"
    by (auto simp: sample_log_def resource_type_for_def RESOURCE_SYNC_TASK_def)
  then show ?thesis by (simp add: e) (simp add: sample_log_def)
qed

end
