(* ===== verification/Boot.thy ===== *)
theory Boot
  imports TaskApi Auth
begin

text \<open>
  \<open>src/main.rs\<close>, \<open>src/state.rs\<close> and \<open>src/api/health.rs\<close>: from a migrated database to a serving
  process. The sequence is the one of \<open>run\<close>: bootstrap the Master, check the encryption key,
  build the state, pin the Master, load the schedule. What the libraries answer on the way (the
  HTTP client, the cron scheduler, the catalogue's entry for the unique index) is a record of
  parameters; randomness, identifiers and the clock come from \<open>request_env\<close>. Logging and the
  detached workers have no result here; the workers are theories of their own.
\<close>

section \<open>State\<close>

datatype startup_config_error =
    EncryptionKey crypto_error
  | TrustedProxiesInvalid "invalid_proxy_entry list"
  | HttpClient string
  | SchedulerStart string

datatype boot_error =
    DbFailure db_err
  | InitialKeyRefused invalid_initial_key
  | CryptoFailure crypto_error
  | StartupRefused startup_config_error
  | PinRefused master_pin_error

record ('n, 'b, 'j) full_state =
  fs_app :: "('b, 'j) app_state"
  fs_cipher :: secret_cipher
  fs_replay :: replay_guard
  fs_pin :: master_pin
  fs_proxies :: "'n trusted_proxies"

record 'b platform =
  http_client :: "string + unit"
  cron_scheduler :: "string + 'b"
  master_index_present :: bool
  boot_instant :: instant

definition replay_default :: "instant \<Rightarrow> replay_guard" where
  "replay_default t = replay_new MAX_TIMESTAMP_SKEW_SECS t"

definition setup_state ::
  "crypto_ops \<Rightarrow> 'n ipnet_ops \<Rightarrow> environment \<Rightarrow> 'b platform \<Rightarrow> database \<Rightarrow> startup_config_error + ('n, 'b, 'j) full_state"
where
  "setup_state cs nets env pf db =
     ebind (map_err EncryptionKey (from_env cs (env ''SYNC_ENCRYPTION_KEY''))) (\<lambda>cipher.
     ebind (map_err TrustedProxiesInvalid (trusted_proxies_from_env nets env)) (\<lambda>trusted.
     ebind (map_err HttpClient (http_client pf)) (\<lambda>_.
     ebind (map_err SchedulerStart (cron_scheduler pf)) (\<lambda>started.
     Inr \<lparr>fs_app = \<lparr>app_db = db, app_sched = scheduler_new started, app_jobs = \<lparr>running = {}, running_poisoned = False\<rparr>\<rparr>,
          fs_cipher = cipher, fs_replay = replay_default (boot_instant pf), fs_pin = \<lparr>pin_cell = None\<rparr>, fs_proxies = trusted\<rparr>))))"

section \<open>The Master key\<close>

definition BOOTSTRAP_SUBNET :: string where
  "BOOTSTRAP_SUBNET = ''0.0.0.0/0,::/0''"

definition initial_value ::
  "environment \<Rightarrow> string \<Rightarrow> (string \<Rightarrow> invalid_initial_key + unit) \<Rightarrow> string \<Rightarrow> boot_error + string" where
  "initial_value env var validate generated =
     (case env var of
        Some raw \<Rightarrow> if raw \<noteq> [] then ebind (map_err InitialKeyRefused (validate raw)) (\<lambda>_. Inr raw) else Inr generated
      | None \<Rightarrow> Inr generated)"

definition master_row :: "crypto_ops \<Rightarrow> request_env \<Rightarrow> string \<Rightarrow> string \<Rightarrow> api_key" where
  "master_row cs rq plaintext_key sealed =
     \<lparr>key_id = fresh rq 0, key_name = ''Master'', key_hash = hash_key cs plaintext_key, key_signing_secret = Some sealed,
      key_prefix = prefix_of_key plaintext_key, is_master = True, can_manage_keys = True, can_manage_sources = True,
      can_manage_vaults = True, parent_key_id = None, bound_ips = Some BOOTSTRAP_SUBNET,
      key_created_at = now rq, key_updated_at = now rq\<rparr>"

text \<open>The credentials that are printed once, or none when a Master exists.\<close>

definition bootstrap_master_key ::
  "crypto_ops \<Rightarrow> environment \<Rightarrow> request_env \<Rightarrow> database \<Rightarrow> (boot_error + (string \<times> string) option) \<times> database" where
  "bootstrap_master_key cs env rq db =
     (if 0 < length (filter is_master (api_keys db)) then (Inr None, db)
      else
      try_h (initial_value env ''INITIAL_MASTER_KEY'' validate_initial_master_key (generate_random_key cs (entropy rq 0))) db (\<lambda>plaintext_key.
      try_h (map_err CryptoFailure (from_env cs (env ''SYNC_ENCRYPTION_KEY''))) db (\<lambda>cipher.
      try_h (initial_value env ''INITIAL_MASTER_SIGNING_SECRET'' validate_initial_master_signing_secret
               (generate_signing_secret cs (entropy rq 1))) db (\<lambda>signing_secret.
      try_h (map_err CryptoFailure (seal cs cipher (entropy rq 2) signing_secret)) db (\<lambda>sealed.
      try_h (map_err DbFailure (insert_key (master_row cs rq plaintext_key sealed) db)) db (\<lambda>db1.
      (Inr (Some (plaintext_key, signing_secret)), db1)))))))"

definition verify_encryption_key :: "crypto_ops \<Rightarrow> environment \<Rightarrow> database \<Rightarrow> boot_error + unit" where
  "verify_encryption_key cs env db =
     ebind (map_err CryptoFailure (from_env cs (env ''SYNC_ENCRYPTION_KEY''))) (\<lambda>cipher.
     let sample = Option.bind (List.find (\<lambda>k. key_signing_secret k \<noteq> None) (api_keys db)) key_signing_secret in
     map_err CryptoFailure (ebind (check_key_canary cs cipher sample) (\<lambda>_. Inr ())))"

section \<open>The startup sequence\<close>

definition start_service ::
  "crypto_ops \<Rightarrow> 'n ipnet_ops \<Rightarrow> ('b, 'j) cron_backend \<Rightarrow> environment \<Rightarrow> 'b platform \<Rightarrow> request_env \<Rightarrow> database
    \<Rightarrow> (boot_error + (string \<times> string) option \<times> ('n, 'b, 'j) full_state) \<times> database"
where
  "start_service cs nets bk env pf rq db =
     (case bootstrap_master_key cs env rq db of
        (Inl e, db1) \<Rightarrow> (Inl e, db1)
      | (Inr printed, db1) \<Rightarrow>
          try_h (verify_encryption_key cs env db1) db1 (\<lambda>_.
          try_h (map_err StartupRefused (setup_state cs nets env pf db1)) db1 (\<lambda>st.
          try_h (map_err PinRefused (fst (pin_at_boot (fs_pin st) (master_index_present pf) db1))) db1 (\<lambda>_.
          let pin = snd (pin_at_boot (fs_pin st) (master_index_present pf) db1);
              app = fs_app st in
          (Inr (printed, st\<lparr>fs_pin := pin, fs_app := app\<lparr>app_sched := boot bk db1 (app_sched app)\<rparr>\<rparr>), db1)))))"

definition readiness_check :: "bool \<Rightarrow> ('n, 'b, 'j) full_state \<Rightarrow> nat" where
  "readiness_check db_answers st = (if db_answers \<and> pin_cell (fs_pin st) \<noteq> None then 200 else 503)"

definition auth_env_of :: "crypto_ops \<Rightarrow> 'n ipnet_ops \<Rightarrow> nat \<Rightarrow> ('n, 'b, 'j) full_state \<Rightarrow> 'n auth_env" where
  "auth_env_of cs nets mx st = \<lparr>au_nets = nets, au_crypto = cs, au_cipher = fs_cipher st, au_pin = fs_pin st, au_max_body_bytes = mx\<rparr>"

section \<open>Lemmas\<close>

lemma bootstrap_Inr:
  "bootstrap_master_key cs env rq db = (Inr printed, db') \<longleftrightarrow>
     (if filter is_master (api_keys db) \<noteq> [] then printed = None \<and> db' = db
      else \<exists>key cipher secret sealed. printed = Some (key, secret) \<and>
        initial_value env ''INITIAL_MASTER_KEY'' validate_initial_master_key (generate_random_key cs (entropy rq 0)) = Inr key \<and>
        from_env cs (env ''SYNC_ENCRYPTION_KEY'') = Inr cipher \<and>
        initial_value env ''INITIAL_MASTER_SIGNING_SECRET'' validate_initial_master_signing_secret
          (generate_signing_secret cs (entropy rq 1)) = Inr secret \<and>
        seal cs cipher (entropy rq 2) secret = Inr sealed \<and> insert_key (master_row cs rq key sealed) db = Inr db')"
  by (auto simp: bootstrap_master_key_def try_h_eq_Inr)

lemma setup_state_Inr:
  "setup_state cs nets env pf db = Inr st \<longleftrightarrow>
     (\<exists>cipher trusted started. from_env cs (env ''SYNC_ENCRYPTION_KEY'') = Inr cipher \<and>
        trusted_proxies_from_env nets env = Inr trusted \<and> http_client pf = Inr () \<and> cron_scheduler pf = Inr started \<and>
        st = \<lparr>fs_app = \<lparr>app_db = db, app_sched = scheduler_new started, app_jobs = \<lparr>running = {}, running_poisoned = False\<rparr>\<rparr>,
          fs_cipher = cipher, fs_replay = replay_default (boot_instant pf), fs_pin = \<lparr>pin_cell = None\<rparr>, fs_proxies = trusted\<rparr>)"
  by (auto simp: setup_state_def)

lemma pin_unset:
  "fst (pin_at_boot \<lparr>pin_cell = None\<rparr> ix db) = Inr i \<longleftrightarrow> sole_master db = Inr i \<and> ix"
  "fst (pin_at_boot \<lparr>pin_cell = None\<rparr> ix db) = Inr i \<Longrightarrow> snd (pin_at_boot \<lparr>pin_cell = None\<rparr> ix db) = \<lparr>pin_cell = Some i\<rparr>"
  by (auto simp: pin_at_boot_def try_h_def split: sum.splits if_splits)

lemma start_service_Inr:
  "start_service cs nets bk env pf rq db = (Inr (printed, st), db') \<longleftrightarrow>
     (\<exists>cipher trusted started i. bootstrap_master_key cs env rq db = (Inr printed, db') \<and>
        verify_encryption_key cs env db' = Inr () \<and> from_env cs (env ''SYNC_ENCRYPTION_KEY'') = Inr cipher \<and>
        trusted_proxies_from_env nets env = Inr trusted \<and> http_client pf = Inr () \<and> cron_scheduler pf = Inr started \<and>
        sole_master db' = Inr i \<and> master_index_present pf \<and>
        st = \<lparr>fs_app = \<lparr>app_db = db', app_sched = boot bk db' (scheduler_new started), app_jobs = \<lparr>running = {}, running_poisoned = False\<rparr>\<rparr>,
          fs_cipher = cipher, fs_replay = replay_default (boot_instant pf), fs_pin = \<lparr>pin_cell = Some i\<rparr>, fs_proxies = trusted\<rparr>)"
  (is "_ \<longleftrightarrow> ?R")
proof (cases "bootstrap_master_key cs env rq db")
  case (Pair r db1)
  show ?thesis
  proof (cases r)
    case (Inl e)
    then show ?thesis using Pair by (simp add: start_service_def)
  next
    case (Inr pr)
    then show ?thesis
      using Pair
      by (auto simp: start_service_def try_h_eq_Inr setup_state_Inr Let_def pin_unset)
  qed
qed

lemma insert_master_ok:
  assumes "insert_key (master_row cs rq key sealed) db = Inr db'" "filter is_master (api_keys db) = []"
  shows "db_ok db' \<and> api_keys db' = api_keys db @ [master_row cs rq key sealed] \<and> sole_master db' = Inr (fresh rq 0) \<and>
    (lineage_ok db \<longrightarrow> lineage_ok db')"
  using assms by (auto simp: insert_key_Inr sole_master_iff lineage_ok_def master_row_def)

lemma hex_utf8: "(\<And>c. c \<in> set s \<Longrightarrow> is_ascii_hexdigit c) \<Longrightarrow> utf8_valid s"
proof (induction s)
  case (Cons c s)
  have "of_char c < (128 :: nat)" using Cons.prems [of c] by (auto simp: is_ascii_hexdigit_def Let_def split: if_splits)
  then show ?case using Cons by (simp add: utf8_chunk_def)
qed simp

lemma initial_value_hex:
  assumes "crypto_suite cs" "initial_value env var validate (hex_encode cs r) = Inr s" "c \<in> set s"
    and "\<And>raw. validate raw = Inr () \<Longrightarrow> list_all is_ascii_hexdigit raw"
  shows "is_ascii_hexdigit c"
  using assms crypto_suite.hex_encode_chars [OF assms(1)]
  by (auto simp: initial_value_def list_all_iff split: option.splits if_splits)

lemma validated_hex: "validate_initial_master_signing_secret raw = Inr () \<Longrightarrow> list_all is_ascii_hexdigit raw"
  by (auto simp: validate_initial_master_signing_secret_def Let_def all_chars_def split: if_splits)

lemma bootstrap_bound:
  assumes "ip_network nets" "bound_ips key = Some BOOTSTRAP_SUBNET"
  shows "check_bound_ips nets key ip = Inr ()"
proof -
  have items: "comma_items BOOTSTRAP_SUBNET = [''0.0.0.0'' @ CHR ''/'' # dec 0, ''::'' @ CHR ''/'' # dec 0]" by code_simp
  have "parse_ip ''0.0.0.0'' = Some (V4 0)" "parse_ip ''::'' = Some (V6 0)" by code_simp+
  then obtain n4 n6 where n: "net_parse nets (''0.0.0.0'' @ CHR ''/'' # dec 0) = Some n4" "net_ip nets n4 = V4 0" "net_prefix nets n4 = 0"
    "net_parse nets (''::'' @ CHR ''/'' # dec 0) = Some n6" "net_ip nets n6 = V6 0" "net_prefix nets n6 = 0"
    using ip_network.parse_cidr [OF assms(1), of _ _ 0] by (metis zero_le)
  have "unat x div 2 ^ 32 = 0" "unat y div 2 ^ 128 = 0" for x :: "32 word" and y :: "128 word"
    using unsigned_less [of x] unsigned_less [of y] by (simp_all add: div_eq_0_iff)
  then have "net_contains nets n4 ip \<or> net_contains nets n6 ip"
    using n by (cases ip) (simp_all add: ip_network.contains_iff [OF assms(1)])
  then show ?thesis
    using n by (auto simp: check_bound_ips_def bound_networks_def assms(2) or_default_def items simp del: append_Cons append_Nil)
qed

section \<open>Properties\<close>

lemma bootstrap_effect:
  assumes "bootstrap_master_key cs env rq db = (Inr printed, db')" "db_ok db" "lineage_ok db"
  shows "db_ok db' \<and> lineage_ok db' \<and> (printed = None \<longleftrightarrow> filter is_master (api_keys db) \<noteq> []) \<and>
    (if printed = None then db' = db else \<exists>m. db' = db\<lparr>api_keys := api_keys db @ [m]\<rparr>)"
proof (cases "filter is_master (api_keys db) = []")
  case True
  then obtain key secret sealed where i: "printed = Some (key, secret)" "insert_key (master_row cs rq key sealed) db = Inr db'"
    using assms(1) by (auto simp: bootstrap_Inr)
  then show ?thesis using insert_master_ok [OF i(2) True] assms(3) True by (auto simp: insert_key_Inr)
next
  case False
  then show ?thesis using assms by (simp add: bootstrap_Inr)
qed

text \<open>
  C28. What a process that starts serving has established: all constraints hold, there is exactly one
  Master row and the process is pinned to it, the live cron jobs are those of the database, no
  job is running, the probe answers ready, and the encryption key opens the first stored secret.
  A database that already had a Master is left unchanged; another gains exactly one key.\<close>

theorem boot_establishes_service:
  assumes "reliable_backend bk jobs" "cron_scheduler pf = Inr b" "jobs b = Map.empty" "db_ok db" "lineage_ok db"
    and "start_service cs nets bk env pf rq db = (Inr (printed, st), db')"
  shows "app_db (fs_app st) = db' \<and> db_ok db' \<and> lineage_ok db' \<and>
    (\<exists>m. filter is_master (api_keys db') = [m] \<and> pin_cell (fs_pin st) = Some (key_id m)) \<and>
    mirrors bk jobs (fs_app st) \<and> running (app_jobs (fs_app st)) = {} \<and> readiness_check True st = 200 \<and>
    (\<forall>k stored. List.find (\<lambda>k. key_signing_secret k \<noteq> None) (api_keys db') = Some k \<and> key_signing_secret k = Some stored \<longrightarrow>
       (\<exists>secret. open_secret cs (fs_cipher st) stored = Inr secret)) \<and>
    (printed = None \<longleftrightarrow> filter is_master (api_keys db) \<noteq> []) \<and>
    (if printed = None then db' = db else \<exists>m. db' = db\<lparr>api_keys := api_keys db @ [m]\<rparr>)"
proof -
  obtain cipher trusted i where boot: "bootstrap_master_key cs env rq db = (Inr printed, db')"
    and canary: "verify_encryption_key cs env db' = Inr ()" and cipher: "from_env cs (env ''SYNC_ENCRYPTION_KEY'') = Inr cipher"
    and sole: "sole_master db' = Inr i"
    and st: "st = \<lparr>fs_app = \<lparr>app_db = db', app_sched = boot bk db' (scheduler_new b), app_jobs = \<lparr>running = {}, running_poisoned = False\<rparr>\<rparr>,
      fs_cipher = cipher, fs_replay = replay_default (boot_instant pf), fs_pin = \<lparr>pin_cell = Some i\<rparr>, fs_proxies = trusted\<rparr>"
    using assms(2,6) unfolding start_service_Inr by auto
  note effect = bootstrap_effect [OF boot assms(4,5)]
  have "map key_id (filter is_master (api_keys db')) = [i]" using sole by (simp add: sole_master_iff)
  then have one: "\<exists>m. filter is_master (api_keys db') = [m] \<and> pin_cell (fs_pin st) = Some (key_id m)" by (auto simp: st)
  have opens: "\<exists>secret. open_secret cs (fs_cipher st) stored = Inr secret"
    if "List.find (\<lambda>k. key_signing_secret k \<noteq> None) (api_keys db') = Some k" "key_signing_secret k = Some stored" for k stored
    using canary cipher that by (auto simp: verify_encryption_key_def check_key_canary_def Let_def st)
  have "mirrors bk jobs (fs_app st)"
    using reliable_backend.boot_mirrors [OF assms(1,3), of db'] effect by (simp add: mirrors_def st)
  with effect one opens show ?thesis by (simp add: st readiness_check_def)
qed

text \<open>
  C29. The printed credentials work: after a start that created the Master, a request signed with the
  printed key and secret, with a fresh timestamp and a body within the limit, passes the
  middleware as the Master from whatever address it comes.\<close>

theorem bootstrap_credentials_work:
  assumes "crypto_suite cs" "ip_network nets" "length (entropy rq 2) = NONCE_LEN"
    and "start_service cs nets bk env pf rq db = (Inr (Some (key, secret), st), db')"
    and "ir_headers req ''X-API-Key'' = Some key" "ir_headers req ''X-Timestamp'' = Some h" "ir_headers req ''X-Signature-256'' = Some sig"
    and "ir_headers req ''Content-Length'' = None" "ir_body req = Inr body" "length body \<le> mx"
    and "0 \<le> secs" "secs < 2 ^ 62" "parse_i64 (trim h) = Some supplied" "abs (secs - supplied) \<le> MAX_TIMESTAMP_SKEW_SECS"
    and "compute_signature cs secret (ir_method req) (signed_target req) (trim h) body = Inr sig"
  shows "\<exists>m ip st'. auth_middleware (auth_env_of cs nets mx st) dns db' secs t req (fs_replay st, fs_proxies st, w) = (Inr (m, ip), st') \<and>
    is_master m \<and> m \<in> set (api_keys db')"
proof -
  obtain cipher sealed i trusted where boot: "filter is_master (api_keys db) = []" "from_env cs (env ''SYNC_ENCRYPTION_KEY'') = Inr cipher"
      "initial_value env ''INITIAL_MASTER_SIGNING_SECRET'' validate_initial_master_signing_secret
         (generate_signing_secret cs (entropy rq 1)) = Inr secret"
      "seal cs cipher (entropy rq 2) secret = Inr sealed" "insert_key (master_row cs rq key sealed) db = Inr db'"
    and st: "fs_cipher st = cipher" "fs_replay st = replay_default (boot_instant pf)"
    using assms(4) unfolding start_service_Inr bootstrap_Inr by (auto split: if_splits)
  let ?m = "master_row cs rq key sealed" and ?au = "auth_env_of cs nets mx st"
  note ins = insert_master_ok [OF boot(5,1)]
  have "utf8_valid secret"
    using initial_value_hex [OF assms(1) boot(3) [unfolded generate_signing_secret_def] _ validated_hex] by (rule hex_utf8)
  then have opened: "open_secret cs cipher sealed = Inr secret"
    using boot(2,4) assms(3)
    by (intro crypto_suite.open_seal [OF assms(1), of "entropy rq 2"])
      (cases cipher; auto dest: from_env_key simp: NONCE_LEN_def KEY_LEN_def)+
  have found: "find_key_by_hash db' (hash_key cs key) = Some ?m"
  proof -
    have "distinct (map key_hash (api_keys db'))" "?m \<in> set (api_keys db')" "key_hash ?m = hash_key cs key"
      using ins by (auto simp: db_ok_def unique_ok_def api_keys_table_def master_row_def)
    with find_distinct [of key_hash "api_keys db'" ?m] show ?thesis by (simp add: find_key_by_hash_def)
  qed
  obtain mac where mac: "hmac_new cs secret = Some mac" using crypto_suite.hmac_any_key [OF assms(1)] by blast
  have sig: "verify_signature cs secret (ir_method req) (signed_target req) (trim h) body sig \<noteq> None" "starts_with SIGNATURE_PREFIX (trim sig)"
    using crypto_suite.verify_computed [OF assms(1,15) mac] assms(15) mac crypto_suite.trim_signature [OF assms(1)]
    by (auto simp: compute_signature_def starts_with_def)
  have fresh_ts: "validate_timestamp secs (ir_headers req) = Inr (trim h)"
    using assms(6,13,14) by (simp add: validate_timestamp_iff [OF assms(11,12)] timestamp_fresh_def)
  have "to_bytes (ir_body req) mx = Some body" using assms(9,10) by (simp add: to_bytes_def)
  then obtain digest where c: "check_signature ?au db' secs req = Inr (?m, digest)"
    using sig fresh_ts found opened st(1) assms(5,7,8) unfolding check_signature_Inr
    by (auto simp: auth_env_of_def) (auto simp: master_row_def)
  have "check_and_record (fs_replay st) t (key_id ?m) digest = (True, snd (check_and_record (fs_replay st) t (key_id ?m) digest))"
    by (simp add: check_and_record_def st(2) replay_default_def replay_new_def prune_if_due_def Let_def)
  then obtain guard where g: "check_and_record (fs_replay st) t (key_id ?m) digest = (True, guard)" by blast
  have "authenticate (au_pin ?au) db' ?m = ?m"
    using ins by (simp add: authenticate_def resolve_master_def master_row_def ok_opt_def)
  moreover have "check_bound_ips (au_nets ?au) ?m ip = Inr ()" for ip
    by (rule bootstrap_bound) (simp_all add: auth_env_of_def assms(2) master_row_def)
  ultimately have "\<exists>ip st'. auth_middleware ?au dns db' secs t req (fs_replay st, fs_proxies st, w) = (Inr (?m, ip), st')"
    using c g by (simp add: auth_middleware_def Let_def split: prod.splits)
  moreover have "is_master ?m" "?m \<in> set (api_keys db')" using ins by (simp_all add: master_row_def)
  ultimately show ?thesis by blast
qed

section \<open>Witnesses\<close>

definition empty_db :: database where
  "empty_db = \<lparr>api_keys = [], permissions = [], vaults = [], groups = [cron_group 6 ''d'' ''0 0 * * *'' True], group_targets = [],
     feeds = [], tasks = [], task_targets = [], sync_logs = [], audit_logs = []\<rparr>"

definition sample_platform :: "job_store platform" where
  "sample_platform = \<lparr>http_client = Inr (), cron_scheduler = Inr empty_jobs, master_index_present = True, boot_instant = 0\<rparr>"

definition boot_rq :: request_env where
  "boot_rq = \<lparr>now = 0, client_ip = V4 0, fresh = (\<lambda>n. 100 + of_nat n), entropy = (\<lambda>n. replicate (if n = 2 then 24 else 32) (CHR ''k''))\<rparr>"

abbreviation first_start :: "(boot_error + (string \<times> string) option \<times> (cidr, job_store, nat) full_state) \<times> database" where
  "first_start \<equiv> start_service toy_crypto cidr_ops table_backend Map.empty sample_platform boot_rq empty_db"

lemma first_start_runs:
  "map_option fst (ok_opt (fst first_start)) = Some (Some (hex_enc (replicate 32 (CHR ''k'')), hex_enc (replicate 32 (CHR ''k''))))"
  by code_simp

lemma first_start_obtain:
  obtains st db' where "first_start = (Inr (Some (hex_enc (replicate 32 (CHR ''k'')), hex_enc (replicate 32 (CHR ''k''))), st), db')"
  using first_start_runs by (cases first_start; cases "fst first_start") (auto simp: ok_opt_def)

theorem boot_establishes_service_witness:
  "\<exists>st db' m. first_start = (Inr (Some (hex_enc (replicate 32 (CHR ''k'')), hex_enc (replicate 32 (CHR ''k''))), st), db') \<and>
     filter is_master (api_keys db') = [m] \<and> pin_cell (fs_pin st) = Some (key_id m) \<and> mirrors table_backend table_live (fs_app st)"
proof -
  obtain st db' where run: "first_start = (Inr (Some (hex_enc (replicate 32 (CHR ''k'')), hex_enc (replicate 32 (CHR ''k''))), st), db')"
    by (rule first_start_obtain)
  have ok: "db_ok empty_db" "lineage_ok empty_db" by code_simp+
  have "table_live empty_jobs = Map.empty" by (simp add: table_live_def empty_jobs_def fun_eq_iff)
  from boot_establishes_service [OF table_jobs.reliable_backend_axioms _ this ok run]
  obtain m where m: "filter is_master (api_keys db') = [m]" "pin_cell (fs_pin st) = Some (key_id m)" "mirrors table_backend table_live (fs_app st)"
    by (auto simp: sample_platform_def)
  note facts = run m
  show ?thesis by (intro exI conjI) (fact facts)+
qed

definition first_secret :: string where
  "first_secret = hex_enc (replicate 32 (CHR ''k''))"

definition first_request :: inbound_request where
  "first_request = \<lparr>ir_method = ''GET'', ir_uri = \<lparr>uri_path = ''/keys'', uri_path_and_query = None\<rparr>, ir_original_uri = None,
     ir_headers = map_of [(''X-API-Key'', first_secret), (''X-Timestamp'', ''1000''),
       (''X-Signature-256'', SIGNATURE_PREFIX @ hex_enc (toy_mac first_secret (canonical_v1_payload ''GET'' ''/keys'' ''1000'' [])))],
     ir_peer = V6 1, ir_body = Inr []\<rparr>"

theorem bootstrap_credentials_work_witness:
  "\<exists>st db' m ip st'. first_start = (Inr (Some (first_secret, first_secret), st), db') \<and>
     auth_middleware (auth_env_of toy_crypto cidr_ops 10 st) fixed_dns db' 1100 0 first_request (fs_replay st, fs_proxies st, ()) = (Inr (m, ip), st') \<and>
     is_master m"
proof -
  obtain st db' where run: "first_start = (Inr (Some (first_secret, first_secret), st), db')"
    unfolding first_secret_def by (rule first_start_obtain)
  have n: "length (entropy boot_rq 2) = NONCE_LEN" by (simp add: boot_rq_def NONCE_LEN_def)
  have p: "parse_i64 (trim ''1000'') = Some 1000" and t: "trim ''1000'' = ''1000''" by code_simp+
  have sig: "compute_signature toy_crypto first_secret (ir_method first_request) (signed_target first_request) (trim ''1000'') []
      = Inr (SIGNATURE_PREFIX @ hex_enc (toy_mac first_secret (canonical_v1_payload ''GET'' ''/keys'' ''1000'' [])))"
    by (simp add: compute_signature_def toy_crypto_def first_request_def signed_target_def t)
  obtain m ip st' where a: "auth_middleware (auth_env_of toy_crypto cidr_ops 10 st) fixed_dns db' 1100 0 first_request
      (fs_replay st, fs_proxies st, ()) = (Inr (m, ip), st')" "is_master m"
    using bootstrap_credentials_work [OF toy_suite.crypto_suite_axioms cidr_net.ip_network_axioms n run _ _ _ _ _ _ _ _ p _ sig, of 10 1100 fixed_dns 0 "()"]
    by (auto simp: first_request_def MAX_TIMESTAMP_SKEW_SECS_def)
  note facts = run a
  show ?thesis by (intro exI conjI) (fact facts)+
qed

end
