(* ===== verification/Service.thy ===== *)
theory Service
  imports Boot Logs
begin

text \<open>
  \<open>src/lib.rs\<close> and the jobs of \<open>src/scheduler.rs\<close>: the process as a whole. \<open>dispatch\<close> is the route
  table behind the authentication layer, \<open>serve\<close> one request through that layer, and
  \<open>service_step\<close> what can happen in the process: the priming of the proxy names, a request, a
  cron tick of a group or a task, a retention sweep. Each step is atomic here, with a job run to its
  end; \<open>Interleaving\<close> has the statements of the jobs as steps of their own. A run is a
  sequence of steps at instants that do not decrease.
\<close>

section \<open>The route table\<close>

text \<open>Reads answer from the tables (their handlers are in the theories of the resources) and change nothing.\<close>

datatype read_request =
    ReadMe
  | ReadKeys
  | ReadKey uuid
  | ReadPermissions uuid
  | ReadVaults
  | ReadVault uuid
  | ReadGroups
  | ReadGroup uuid
  | ReadTasks
  | ReadTask uuid
  | ReadSyncLogs sync_log_query
  | ReadAuditLogs audit_log_query

datatype api_call =
    KeyCall key_request
  | VaultCall vault_request
  | SourceCall source_request
  | TriggerGroupCall uuid
  | TestFetchCall test_fetch_payload
  | TaskCall task_request
  | TriggerTaskCall uuid
  | ReadCall read_request

record ('n, 'b, 'j, 'w) service_env =
  se_nets :: "'n ipnet_ops"
  se_backend :: "('b, 'j) cron_backend"
  se_crypto :: crypto_ops
  se_dns :: "'w dns_ops"
  se_ingest :: "'w ingest_env"
  se_show_uuid :: "uuid \<Rightarrow> string"
  se_max_body :: nat
  se_sync_log_days :: int
  se_audit_log_days :: int

fun dispatch ::
  "('n, 'b, 'j, 'w) service_env \<Rightarrow> secret_cipher \<Rightarrow> request_env \<Rightarrow> api_key \<Rightarrow> api_call \<Rightarrow> ('b, 'j) app_state \<Rightarrow> 'w
    \<Rightarrow> (('b, 'j) app_state \<times> 'w) option"
where
  "dispatch se cipher rq caller (KeyCall r) st w =
     map_option (\<lambda>db. (st\<lparr>app_db := db\<rparr>, w))
       (handle_key \<lparr>kc_crypto = se_crypto se, kc_cipher = cipher, kc_show_uuid = se_show_uuid se\<rparr> rq caller r (app_db st))"
| "dispatch se cipher rq caller (VaultCall r) st w =
     Some (st\<lparr>app_db := handle_vault \<lparr>kc_crypto = se_crypto se, kc_cipher = cipher, kc_show_uuid = se_show_uuid se\<rparr> rq caller r (app_db st)\<rparr>, w)"
| "dispatch se cipher rq caller (SourceCall r) st w =
     Some (handle_source (se_backend se) (ig_ops (se_ingest se)) rq caller r st, w)"
| "dispatch se cipher rq caller (TriggerGroupCall i) st w =
     map_option (\<lambda>((_, st'), w'). (st', w')) (trigger_destination_group (se_nets se) (se_ingest se) rq caller i st w)"
| "dispatch se cipher rq caller (TestFetchCall p) st w =
     Some (st, snd (test_fetch_external_source (se_nets se) (se_ingest se) caller p w))"
| "dispatch se cipher rq caller (TaskCall r) st w = Some (snd (handle_task (se_backend se) rq caller r st), w)"
| "dispatch se cipher rq caller (TriggerTaskCall i) st w =
     map_option (\<lambda>((_, st'), w'). (st', w')) (trigger_vault_sync_task (se_nets se) (ig_client (se_ingest se)) rq caller i st w)"
| "dispatch se cipher rq caller (ReadCall r) st w = Some (st, w)"

text \<open>One request: who it was served as, or why it was refused before any handler ran.\<close>

definition serve ::
  "('n, 'b, 'j, 'w) service_env \<Rightarrow> int \<Rightarrow> instant \<Rightarrow> request_env \<Rightarrow> inbound_request \<Rightarrow> api_call
    \<Rightarrow> ('n, 'b, 'j) full_state \<Rightarrow> 'w \<Rightarrow> ((app_error + api_key) \<times> ('n, 'b, 'j) full_state \<times> 'w) option"
where
  "serve se secs t rq req call st w =
     (case auth_middleware (auth_env_of (se_crypto se) (se_nets se) (se_max_body se) st) (se_dns se) (app_db (fs_app st)) secs t req
             (fs_replay st, fs_proxies st, w) of
        (Inl e, guard, tp, w1) \<Rightarrow> Some (Inl e, st\<lparr>fs_replay := guard, fs_proxies := tp\<rparr>, w1)
      | (Inr (caller, ip), guard, tp, w1) \<Rightarrow>
          map_option (\<lambda>(app, w2). (Inr caller, st\<lparr>fs_replay := guard, fs_proxies := tp, fs_app := app\<rparr>, w2))
            (dispatch se (fs_cipher st) (rq\<lparr>client_ip := ip\<rparr>) caller call (fs_app st) w1))"

section \<open>Cron jobs\<close>

definition scheduled_ingest ::
  "('n, 'b, 'j, 'w) service_env \<Rightarrow> uuid \<Rightarrow> uuid \<Rightarrow> ('b, 'j) app_state \<Rightarrow> 'w \<Rightarrow> (('b, 'j) app_state \<times> 'w) option" where
  "scheduled_ingest se log_id i st w =
     (case try_start_job (app_jobs st) i of
        (False, rj) \<Rightarrow> Some (st\<lparr>app_jobs := rj\<rparr>, w)
      | (True, rj) \<Rightarrow>
          map_option (\<lambda>((_, db), w'). (st\<lparr>app_db := db, app_jobs := job_guard_drop rj i\<rparr>, w'))
            (ingest_run (se_nets se) (se_ingest se) log_id i (app_db st) w))"

definition scheduled_sync ::
  "('n, 'b, 'j, 'w) service_env \<Rightarrow> uuid \<Rightarrow> uuid \<Rightarrow> ('b, 'j) app_state \<Rightarrow> 'w \<Rightarrow> (('b, 'j) app_state \<times> 'w) option" where
  "scheduled_sync se log_id i st w =
     (case try_start_job (app_jobs st) i of
        (False, rj) \<Rightarrow> Some (st\<lparr>app_jobs := rj\<rparr>, w)
      | (True, rj) \<Rightarrow>
          map_option (\<lambda>((_, db), w'). (st\<lparr>app_db := db, app_jobs := job_guard_drop rj i\<rparr>, w'))
            (sync_run (se_nets se) (ig_client (se_ingest se)) log_id i (app_db st) w))"

section \<open>Steps and runs\<close>

text \<open>\<open>P\<close> restricts the callers requests are served for, so that a run without the Master can be spoken of.\<close>

inductive service_step ::
  "(api_key \<Rightarrow> bool) \<Rightarrow> ('n, 'b, 'j, 'w) service_env \<Rightarrow> instant \<Rightarrow> ('n, 'b, 'j) full_state \<times> 'w \<Rightarrow> ('n, 'b, 'j) full_state \<times> 'w \<Rightarrow> bool"
  for P se t where
  step_prime: "prime (se_nets se) (se_dns se) (fs_proxies st) w = (failed, tp, w') \<Longrightarrow>
     service_step P se t (st, w) (st\<lparr>fs_proxies := tp\<rparr>, w')"
| step_request: "serve se secs t rq req call st w = Some (r, st', w') \<Longrightarrow> (\<And>caller. r = Inr caller \<Longrightarrow> P caller) \<Longrightarrow>
     service_step P se t (st, w) (st', w')"
| step_ingest: "scheduled_ingest se log_id i (fs_app st) w = Some (app, w') \<Longrightarrow>
     service_step P se t (st, w) (st\<lparr>fs_app := app\<rparr>, w')"
| step_sync: "scheduled_sync se log_id i (fs_app st) w = Some (app, w') \<Longrightarrow>
     service_step P se t (st, w) (st\<lparr>fs_app := app\<rparr>, w')"
| step_sweep: "sweeps (ig_earliest (se_ingest se)) (se_sync_log_days se) (se_audit_log_days se) [u] (app_db (fs_app st)) = Some db \<Longrightarrow>
     service_step P se t (st, w) (st\<lparr>fs_app := (fs_app st)\<lparr>app_db := db\<rparr>\<rparr>, w)"

inductive service_run ::
  "(api_key \<Rightarrow> bool) \<Rightarrow> ('n, 'b, 'j, 'w) service_env \<Rightarrow> instant \<Rightarrow> ('n, 'b, 'j) full_state \<times> 'w \<Rightarrow> instant \<Rightarrow> ('n, 'b, 'j) full_state \<times> 'w \<Rightarrow> bool"
  for P se t0 s0 where
  run_start: "service_run P se t0 s0 t0 s0"
| run_step: "service_run P se t0 s0 t s \<Longrightarrow> t \<le> u \<Longrightarrow> service_step P se u s s' \<Longrightarrow> service_run P se t0 s0 u s'"

inductive_cases service_stepE: "service_step P se t s s'"

section \<open>Frames\<close>

text \<open>The tables a handler does not touch.\<close>

lemma vault_request_frame:
  "api_keys (handle_vault cx rq caller r db) = api_keys db \<and> groups (handle_vault cx rq caller r db) = groups db \<and>
   feeds (handle_vault cx rq caller r db) = feeds db \<and> set (tasks (handle_vault cx rq caller r db)) \<subseteq> set (tasks db)"
  (is "?Q (handle_vault cx rq caller r db)")
proof (cases r)
  case (CreateVault p)
  show ?thesis
    unfolding CreateVault handle_vault.simps create_vault_endpoint_def Let_def
    by (intro try_h_snd_cases [where P = ?Q]) (auto simp: step_simps dest!: grant_keeps audit_keeps)
next
  case (UpdateVault i p)
  show ?thesis
    unfolding UpdateVault handle_vault.simps update_vault_endpoint_def Let_def
    by (intro try_h_snd_cases [where P = ?Q]) (auto simp: step_simps dest!: audit_keeps)
next
  case (DeleteVault i)
  have "?Q (delete_vault_row i db)" by (auto simp: delete_vault_row_def delete_tasks_where_def Let_def)
  then show ?thesis
    unfolding DeleteVault handle_vault.simps delete_vault_endpoint_def Let_def
    by (auto simp: try_h_def split: sum.splits dest!: audit_keeps)
qed


lemma txn_frames:
  "create_task_txn rq caller p db = Inr db' \<Longrightarrow> api_keys db' = api_keys db \<and> feeds db' = feeds db"
  "update_task_txn rq caller i row ts db = Inr db' \<Longrightarrow> api_keys db' = api_keys db \<and> feeds db' = feeds db"
  "create_group_txn rq caller q db = Inr db' \<Longrightarrow> api_keys db' = api_keys db"
  "update_group_txn rq caller i grow ts db = Inr db' \<Longrightarrow> api_keys db' = api_keys db"
  unfolding create_task_txn_def update_task_txn_def create_group_txn_def update_group_txn_def
    replace_task_targets_def replace_group_targets_def
  by (auto simp: step_simps delete_task_targets_def delete_group_targets_def split: option.splits
      dest!: insert_targets_keeps grant_keeps audit_keeps)

lemma created_task:
  "create_task_txn rq caller p db = Inr db' \<Longrightarrow> api_keys db' = api_keys db \<and> feeds db' = feeds db \<and> groups db' = groups db \<and>
     tasks db' = tasks db @ [new_task rq caller p]"
  using create_task_txn_effect txn_frames(1) by blast

lemma updated_task:
  "update_task_txn rq caller i row ts db = Inr db' \<Longrightarrow> api_keys db' = api_keys db \<and> feeds db' = feeds db \<and> groups db' = groups db \<and>
     tasks db' = replace_row task_id row (tasks db)"
  using update_task_txn_effect txn_frames(2) by blast

definition tasks_from :: "('b, 'j) cron_backend \<Rightarrow> database \<Rightarrow> database \<Rightarrow> bool" where
  "tasks_from bk db db' \<longleftrightarrow> (\<forall>t \<in> set (tasks db'). (\<exists>old \<in> set (tasks db). task_cron_schedule t = task_cron_schedule old) \<or>
     \<not> isl (validate_cron_expression bk (task_cron_schedule t)))"

lemma tasks_from_same [simp]: "tasks db' = tasks db \<Longrightarrow> tasks_from bk db db'"
  by (auto simp: tasks_from_def)

lemma task_request_frame:
  "api_keys (app_db (snd (handle_task bk rq caller r st))) = api_keys (app_db st) \<and>
   groups (app_db (snd (handle_task bk rq caller r st))) = groups (app_db st) \<and>
   feeds (app_db (snd (handle_task bk rq caller r st))) = feeds (app_db st) \<and>
   tasks_from bk (app_db st) (app_db (snd (handle_task bk rq caller r st)))" (is "?Q (snd (handle_task bk rq caller r st))")
proof (cases r)
  case (CreateTask p)
  show ?thesis
    unfolding CreateTask snd_handle_task create_vault_sync_task_def Let_def
    by (intro try_h_snd_cases [where P = ?Q])
      (auto simp: tasks_from_def new_task_def dest!: created_task)
next
  case (UpdateTask i p)
  have "tasks_from bk db db'"
    if "find_task db i = Some old" "check_cron_opt bk (ut_cron_schedule p) = Inr ()"
      "tasks db' = replace_row task_id (apply_task_update t p old) (tasks db)" for db db' old t
    using that find_task_Some [OF that(1)]
    by (auto simp: tasks_from_def apply_task_update_def check_cron_opt_def split: option.splits dest!: set_replace_row)
  then show ?thesis
    unfolding UpdateTask snd_handle_task update_vault_sync_task_def Let_def
    by (intro try_h_snd_cases [where P = ?Q]) (auto dest!: updated_task)
next
  case (DeleteTask i)
  have "?Q (st\<lparr>app_db := delete_task_row i (app_db st), app_sched := h\<rparr>)" for h
    by (auto simp: tasks_from_def delete_task_row_def delete_tasks_where_def)
  then show ?thesis
    unfolding DeleteTask snd_handle_task delete_vault_sync_task_def Let_def
    by (auto simp: try_h_def tasks_from_def split: sum.splits dest!: audit_keeps)
qed

lemma source_request_frame: "api_keys (app_db (handle_source bk ops rq caller r st)) = api_keys (app_db st)"
  (is "?Q (handle_source bk ops rq caller r st)")
proof (cases r)
  case (CreateGroup p)
  show ?thesis
    unfolding CreateGroup handle_source.simps create_destination_group_def Let_def
    by (intro try_h_snd_cases [where P = ?Q]) (auto dest!: txn_frames)
next
  case (UpdateGroup i p)
  show ?thesis
    unfolding UpdateGroup handle_source.simps update_destination_group_def Let_def
    by (intro try_h_snd_cases [where P = ?Q]) (auto dest!: txn_frames)
next
  case (DeleteGroup i)
  show ?thesis
    unfolding DeleteGroup handle_source.simps delete_destination_group_def Let_def
    by (auto simp: try_h_def delete_group_row_def split: sum.splits dest!: audit_keeps)
qed (auto simp: create_feed_def update_feed_def delete_feed_def try_h_def Let_def insert_feed_Inr update_feed_Inr delete_feed_row_def
    split: sum.splits dest!: audit_keeps)

lemma key_effect_frame:
  "key_effect caller db mid \<Longrightarrow> groups mid = groups db \<and> feeds mid = feeds db \<and> tasks mid = tasks db"
  by (cases rule: key_effect.cases) (auto simp: step_simps delete_keys_def delete_permission_def)

lemma key_request_frame:
  "handle_key cx rq caller r db = Some db' \<Longrightarrow> groups db' = groups db \<and> feeds db' = feeds db \<and> tasks db' = tasks db"
  by (drule handle_key_outcome) (auto simp: key_outcome_def audited_def dest!: key_effect_frame)


lemma log_frame:
  "write_sync_log i ty j n sm t db = Inr db' \<Longrightarrow> db_ok db' \<and> api_keys db' = api_keys db \<and> groups db' = groups db \<and>
     feeds db' = feeds db \<and> tasks db' = tasks db"
  by (auto simp: write_sync_log_def insert_sync_log_def)

lemma ingest_frame:
  assumes "ingest_run nets env log_id i db w = Some ((r, db'), w')" "db_ok db"
  shows "db_ok db' \<and> api_keys db' = api_keys db \<and> feeds db' = feeds db \<and> tasks db' = tasks db \<and>
    (config_ok bk ops db \<longrightarrow> config_ok bk ops db')"
proof -
  have cfg: "list_all (group_config_ok bk) (replace_row group_id (g\<lparr>group_last_run_at := x\<rparr>) (groups db))"
    if "find_group db i = Some g" "list_all (group_config_ok bk) (groups db)" for g x
    using that find_group_Some [OF that(1)]
    by (intro list_all_replace_row) (auto simp: list_all_iff group_config_ok_def)
  show ?thesis
    using assms
    by (auto simp: ingest_run_def Let_def try_h_def update_group_Inr config_ok_def cfg split: option.splits sum.splits dest!: log_frame)
qed

lemma sync_frame:
  assumes "sync_run nets env log_id i db w = Some ((r, db'), w')" "db_ok db"
  shows "db_ok db' \<and> api_keys db' = api_keys db \<and> feeds db' = feeds db \<and> groups db' = groups db \<and>
    (config_ok bk ops db \<longrightarrow> config_ok bk ops db')" (is "?Q db'")
proof (cases "find_task db i")
  case None
  then show ?thesis using assms by (simp add: sync_run_def Let_def)
next
  case (Some task)
  let ?t = "task\<lparr>task_last_sync_at := Some (utc_now (env_world env) w)\<rparr>"
  obtain sm ok where run: "try_h (sql (write_sync_log log_id ''VAULT_SYNC'' i (task_name task) sm (utc_now (env_world env) w) db)) db (\<lambda>db1.
      if ok then try_h (sql (update_task ?t db1)) db1 (\<lambda>db2. (Inr sm, db2)) else (Inr sm, db1)) = (r, db')"
    using assms(1) Some by (auto simp: sync_run_def Let_def split: option.splits)
  have same: "config_ok bk ops db1 \<longleftrightarrow> config_ok bk ops db" if "groups db1 = groups db" "feeds db1 = feeds db" "tasks db1 = tasks db" for db1
    using that by (simp add: config_ok_def)
  have cfg: "config_ok bk ops (db1\<lparr>tasks := replace_row task_id ?t (tasks db)\<rparr>)"
    if "config_ok bk ops db" "groups db1 = groups db" "feeds db1 = feeds db" for db1
    using that find_task_Some [OF Some] by (auto simp: config_ok_def list_all_iff dest!: set_replace_row)
  have "?Q (snd (if ok then try_h (sql (update_task ?t db1)) db1 (\<lambda>db2. (Inr sm, db2)) else (Inr sm, db1)))"
    if "write_sync_log log_id ''VAULT_SYNC'' i (task_name task) sm (utc_now (env_world env) w) db = Inr db1" for db1
    using log_frame [OF that] same [of db1] cfg [of db1] by (auto simp: try_h_def update_task_Inr split: sum.splits)
  with assms(2) have "?Q (snd (r, db'))" unfolding run [symmetric] by (intro try_h_snd_cases [where P = ?Q]) (simp_all add: sql_eq_Inr)
  then show ?thesis by simp
qed

lemma run_keys:
  "ingest_run nets env log_id i db w = Some ((r, db'), w') \<Longrightarrow> db_ok db \<Longrightarrow> api_keys db' = api_keys db"
  "sync_run nets cl log_id i db w = Some ((r, db'), w') \<Longrightarrow> db_ok db \<Longrightarrow> api_keys db' = api_keys db"
  by (rule ingest_frame [THEN conjunct2, THEN conjunct1]; assumption) (rule sync_frame [THEN conjunct2, THEN conjunct1]; assumption)

lemma kept_rows: "set (kept_since t d ts rows) \<subseteq> set rows" "distinct (map f rows) \<Longrightarrow> distinct (map f (kept_since t d ts rows))"
  by (auto simp: kept_since_def distinct_map_filter)

lemma sweep_frame:
  assumes "sweeps earliest d e [u] db = Some db'" "db_ok db"
  shows "db_ok db' \<and> api_keys db' = api_keys db \<and> groups db' = groups db \<and> feeds db' = feeds db \<and> tasks db' = tasks db"
proof -
  obtain n db1 k where p: "purge_expired_sync_logs earliest u d db = Some (n, db1)" "purge_expired_audit_logs earliest u e db1 = Some (k, db')"
    using assms(1) by (auto split: option.splits)
  have db': "db' = db\<lparr>sync_logs := kept_since u d slog_timestamp (sync_logs db), audit_logs := kept_since u e alog_timestamp (audit_logs db)\<rparr>"
    unfolding purges_eq(2) [OF p(2)] purges_eq(1) [OF p(1)] by simp
  have "unique_ok db'" using assms(2) unfolding db' by (simp add: db_ok_def unique_ok_def table_defs kept_rows)
  moreover have "fk_ok db'"
    using assms(2) kept_rows(1) [of u e alog_timestamp "audit_logs db"] unfolding db' by (auto simp: db_ok_def fk_ok_def list_all_iff has_key_def has_vault_def has_group_def has_task_def)
  ultimately show ?thesis by (simp add: db_ok_def db')
qed

section \<open>What every step keeps\<close>

text \<open>
  The state between steps: all constraints and the lineage hold, the stored configuration is one
  the jobs can run, and the one Master row has the given id.
\<close>

definition service_ok :: "('b, 'j) cron_backend \<Rightarrow> feed_ops \<Rightarrow> uuid \<Rightarrow> database \<Rightarrow> bool" where
  "service_ok bk ops m db \<longleftrightarrow>
     db_ok db \<and> lineage_ok db \<and> config_ok bk ops db \<and> map key_id (filter is_master (api_keys db)) = [m]"

lemma sole_row:
  assumes "db_ok db" "x \<in> set (api_keys db)" "is_master x"
  shows "map key_id (filter is_master (api_keys db)) = [key_id x]"
proof -
  have "x \<in> set (filter is_master (api_keys db))" "length (filter is_master (api_keys db)) \<le> 1"
    using assms by (auto simp: db_ok_def unique_ok_def master_marker_index_def)
  then show ?thesis by (cases "filter is_master (api_keys db)") auto
qed

lemma service_ok_frame:
  "service_ok bk ops m db \<Longrightarrow> db_ok db' \<Longrightarrow> api_keys db' = api_keys db \<Longrightarrow> config_ok bk ops db' \<Longrightarrow> service_ok bk ops m db'"
  by (simp add: service_ok_def lineage_ok_def)

lemma config_ok_frame:
  "config_ok bk ops db \<Longrightarrow> groups db' = groups db \<Longrightarrow> feeds db' = feeds db \<Longrightarrow> tasks_from bk db db' \<Longrightarrow> config_ok bk ops db'"
  by (auto simp: config_ok_def list_all_iff tasks_from_def)

lemma subset_tasks_from: "set (tasks db') \<subseteq> set (tasks db) \<Longrightarrow> tasks_from bk db db'"
  by (auto simp: tasks_from_def)

lemma key_request_service:
  assumes "handle_key cx rq caller r db = Some db'" "service_ok bk ops m db" "has_key db (key_id caller)"
  shows "service_ok bk ops m db'"
proof -
  obtain mid where mid: "key_effect caller db mid" "audited mid db'"
    using handle_key_outcome [OF assms(1)] by (auto simp: key_outcome_def)
  have db: "db_ok db" "lineage_ok db" "config_ok bk ops db" and m: "map key_id (filter is_master (api_keys db)) = [m]"
    using assms(2) by (simp_all add: service_ok_def)
  have ok: "db_ok db'" "lineage_ok db'"
    using mid db assms(3) key_effect_ok key_effect_lineage audited_ok audited_sel by (fastforce simp: lineage_ok_def)+
  obtain x where x: "x \<in> set (filter is_master (api_keys db))" "key_id x = m" using m by (cases "filter is_master (api_keys db)") auto
  then obtain b t where "x\<lparr>bound_ips := b, key_updated_at := t\<rparr> \<in> set (api_keys db')"
    using key_effect_master [OF mid(1) db(1,2)] audited_sel [OF mid(2)] by fastforce
  from sole_row [OF ok(1) this] x have "map key_id (filter is_master (api_keys db')) = [m]" by simp
  moreover have "config_ok bk ops db'" using config_ok_frame [OF db(3)] key_request_frame [OF assms(1)] by simp
  ultimately show ?thesis using ok by (simp add: service_ok_def)
qed


lemma trigger_group_service:
  assumes "trigger_destination_group nets env rq caller i st w = Some ((r, st'), w')" "service_ok bk ops m (app_db st)"
  shows "service_ok bk ops m (app_db st')"
proof -
  have "service_ok bk ops m db2" if "create_audit_log a b c d e f g (app_db st) = Inr db1" "ingest_run nets env h i db1 w = Some ((x, db2), w2)"
    for a b c d e f g h db1 x db2 w2
  proof -
    have "db_ok db1" "config_ok bk ops db1" "api_keys db1 = api_keys (app_db st)"
      using audit_effect [OF that(1)] audit_keeps [OF that(1)] assms(2) by (simp_all add: service_ok_def config_ok_def)
    with ingest_frame [OF that(2), of bk ops] assms(2) show ?thesis by (auto intro: service_ok_frame)
  qed
  then show ?thesis
    using assms
    by (auto simp: trigger_destination_group_def split: option.splits sum.splits prod.splits bool.splits)
qed

lemma trigger_task_service:
  assumes "trigger_vault_sync_task nets env rq caller i st w = Some ((r, st'), w')" "service_ok bk ops m (app_db st)"
  shows "service_ok bk ops m (app_db st')"
proof -
  have "service_ok bk ops m db2" if "create_audit_log a b c d e f g (app_db st) = Inr db1" "sync_run nets env h i db1 w = Some ((x, db2), w2)"
    for a b c d e f g h db1 x db2 w2
  proof -
    have "db_ok db1" "config_ok bk ops db1" "api_keys db1 = api_keys (app_db st)"
      using audit_effect [OF that(1)] audit_keeps [OF that(1)] assms(2) by (simp_all add: service_ok_def config_ok_def)
    with sync_frame [OF that(2), of bk ops] assms(2) show ?thesis by (auto intro: service_ok_frame)
  qed
  then show ?thesis
    using assms
    by (auto simp: trigger_vault_sync_task_def split: option.splits sum.splits prod.splits bool.splits)
qed

lemma vault_request_service:
  assumes "service_ok bk ops m db"
  shows "service_ok bk ops m (handle_vault cx rq caller r db)"
proof (rule service_ok_frame [OF assms])
  show "db_ok (handle_vault cx rq caller r db)" using assms by (simp add: service_ok_def handle_vault_ok)
  show "config_ok bk ops (handle_vault cx rq caller r db)"
    by (rule config_ok_frame [of bk ops db]) (use assms in \<open>simp_all add: service_ok_def vault_request_frame subset_tasks_from\<close>)
qed (simp add: vault_request_frame)

lemma task_request_service:
  assumes "service_ok bk ops m (app_db st)"
  shows "service_ok bk ops m (app_db (snd (handle_task bk rq caller r st)))"
proof (rule service_ok_frame [OF assms])
  show "db_ok (app_db (snd (handle_task bk rq caller r st)))"
    using assms by (cases r; simp only: snd_handle_task task_db service_ok_def)
  show "config_ok bk ops (app_db (snd (handle_task bk rq caller r st)))"
    by (rule config_ok_frame [of bk ops "app_db st"]) (use assms in \<open>simp_all add: service_ok_def task_request_frame\<close>)
qed (simp add: task_request_frame)

lemma source_request_service:
  assumes "service_ok bk ops m (app_db st)"
  shows "service_ok bk ops m (app_db (handle_source bk ops rq caller r st))"
  by (rule service_ok_frame [OF assms])
    (use assms handle_source_post [of st bk ops caller rq r] source_request_frame in \<open>auto simp: service_ok_def source_post_def\<close>)

lemma dispatch_service:
  assumes "dispatch se cipher rq caller call st w = Some (st', w')" "has_key (app_db st) (key_id caller)"
    and "service_ok (se_backend se) (ig_ops (se_ingest se)) m (app_db st)"
  shows "service_ok (se_backend se) (ig_ops (se_ingest se)) m (app_db st')"
proof (cases call)
  case (KeyCall r)
  then show ?thesis using assms key_request_service [OF _ assms(3,2)] by auto
next
  case (TriggerGroupCall i)
  then show ?thesis using assms trigger_group_service [OF _ assms(3)] by (auto split: prod.splits)
next
  case (TriggerTaskCall i)
  then show ?thesis using assms trigger_task_service [OF _ assms(3)] by (auto split: prod.splits)
qed (use assms vault_request_service task_request_service source_request_service in auto)

lemma scheduled_service:
  "scheduled_ingest se log_id i st w = Some (st', w') \<Longrightarrow> service_ok bk ops m (app_db st) \<Longrightarrow> service_ok bk ops m (app_db st')"
  "scheduled_sync se log_id i st w = Some (st', w') \<Longrightarrow> service_ok bk ops m (app_db st) \<Longrightarrow> service_ok bk ops m (app_db st')"
  by (auto simp: scheduled_ingest_def scheduled_sync_def service_ok_def lineage_ok_def split: prod.splits bool.splits
      dest: ingest_frame [where bk = bk and ops = ops] sync_frame [where bk = bk and ops = ops])

lemma scheduled_keys:
  "scheduled_ingest se log_id i st w = Some (st', w') \<Longrightarrow> db_ok (app_db st) \<Longrightarrow> api_keys (app_db st') = api_keys (app_db st)"
  "scheduled_sync se log_id i st w = Some (st', w') \<Longrightarrow> db_ok (app_db st) \<Longrightarrow> api_keys (app_db st') = api_keys (app_db st)"
  by (auto simp: scheduled_ingest_def scheduled_sync_def run_keys split: prod.splits bool.splits)

lemma auth_caller:
  assumes "auth_middleware au dns db secs t req (guard, tp, w) = (Inr (caller, ip), guard', tp', w')"
  shows "\<exists>key digest. check_signature au db secs req = Inr (key, digest) \<and> caller = authenticate (au_pin au) db key \<and>
    key_id caller = key_id key \<and> key \<in> set (api_keys db) \<and> has_key db (key_id caller) \<and>
    check_and_record guard t (key_id key) digest = (True, guard')"
proof -
  obtain key digest where c: "check_signature au db secs req = Inr (key, digest)"
    using assms by (auto simp: auth_middleware_def Let_def try_h_def split: sum.splits prod.splits)
  have r: "check_and_record guard t (key_id key) digest = (True, guard')" "caller = authenticate (au_pin au) db key"
    using assms c by (auto simp: auth_middleware_def Let_def try_h_eq_Inr split: bool.splits prod.splits)
  have "key \<in> set (api_keys db)" using c [unfolded check_signature_Inr] by (auto simp: find_key_by_hash_def dest: find_eq_Some_D)
  moreover have "key_id caller = key_id key" using r(2) by (simp add: authenticate_def)
  ultimately show ?thesis using c r by (auto simp: has_key_def)
qed


text \<open>A property of the state that every kind of step keeps holds throughout every run.\<close>

locale service_invariant =
  fixes P :: "api_key \<Rightarrow> bool" and se :: "('n, 'b, 'j, 'w) service_env" and Inv :: "('n, 'b, 'j) full_state \<Rightarrow> bool"
  assumes request: "Inv st \<Longrightarrow> serve se secs t rq req call st w = Some (r, st', w') \<Longrightarrow> (\<And>caller. r = Inr caller \<Longrightarrow> P caller) \<Longrightarrow> Inv st'"
    and ingest: "Inv st \<Longrightarrow> scheduled_ingest se log_id i (fs_app st) w = Some (app, w') \<Longrightarrow> Inv (st\<lparr>fs_app := app\<rparr>)"
    and sync: "Inv st \<Longrightarrow> scheduled_sync se log_id i (fs_app st) w = Some (app, w') \<Longrightarrow> Inv (st\<lparr>fs_app := app\<rparr>)"
    and priming: "Inv st \<Longrightarrow> Inv (st\<lparr>fs_proxies := tp\<rparr>)"
    and sweep: "Inv st \<Longrightarrow> sweeps earliest d e [u] (app_db (fs_app st)) = Some db \<Longrightarrow> Inv (st\<lparr>fs_app := (fs_app st)\<lparr>app_db := db\<rparr>\<rparr>)"
begin

lemma step: "service_step P se t s s' \<Longrightarrow> Inv (fst s) \<Longrightarrow> Inv (fst s')"
  by (cases rule: service_step.cases) (auto simp del: sweeps.simps intro: request ingest sync sweep priming)

end

lemma serve_cases:
  assumes "serve se secs t rq req call st w = Some (r, st', w')"
  obtains (refused) e guard tp where "r = Inl e" "st' = st\<lparr>fs_replay := guard, fs_proxies := tp\<rparr>"
      "auth_middleware (auth_env_of (se_crypto se) (se_nets se) (se_max_body se) st) (se_dns se) (app_db (fs_app st)) secs t req
        (fs_replay st, fs_proxies st, w) = (Inl e, guard, tp, w')"
  | (served) caller ip guard tp w1 app where "r = Inr caller" "st' = st\<lparr>fs_replay := guard, fs_proxies := tp, fs_app := app\<rparr>"
      "auth_middleware (auth_env_of (se_crypto se) (se_nets se) (se_max_body se) st) (se_dns se) (app_db (fs_app st)) secs t req
        (fs_replay st, fs_proxies st, w) = (Inr (caller, ip), guard, tp, w1)"
      "dispatch se (fs_cipher st) (rq\<lparr>client_ip := ip\<rparr>) caller call (fs_app st) w1 = Some (app, w')"
  using assms by (auto simp: serve_def split: prod.splits sum.splits)

abbreviation sound_state :: "('n, 'b, 'j, 'w) service_env \<Rightarrow> uuid \<Rightarrow> ('n, 'b, 'j) full_state \<Rightarrow> bool" where
  "sound_state se m st \<equiv> service_ok (se_backend se) (ig_ops (se_ingest se)) m (app_db (fs_app st)) \<and> pin_cell (fs_pin st) = Some m"

interpretation sound: service_invariant P se "sound_state se m" for P :: "api_key \<Rightarrow> bool" and se :: "('n, 'b, 'j, 'w) service_env" and m
proof
  fix st secs t rq req call and w :: 'w and r st' w'
  assume s: "sound_state se m st" and run: "serve se secs t rq req call st w = Some (r, st', w')"
  from run show "sound_state se m st'"
  proof (cases rule: serve_cases)
    case (served caller ip guard tp w1 app)
    from auth_caller [OF served(3)] have "has_key (app_db (fs_app st)) (key_id caller)" by blast
    from dispatch_service [OF served(4) this] s served(2) show ?thesis by simp
  qed (use s in simp)
next
  fix st and earliest d e u db
  assume s: "sound_state se m st" and run: "sweeps earliest d e [u] (app_db (fs_app st)) = Some db"
  then show "sound_state se m (st\<lparr>fs_app := (fs_app st)\<lparr>app_db := db\<rparr>\<rparr>)"
    using sweep_frame [OF run] by (auto simp: service_ok_def lineage_ok_def config_ok_def)
qed (auto dest: scheduled_service)

lemma start_sound:
  assumes "start_service (se_crypto se) (se_nets se) (se_backend se) env pf rq db = (Inr (printed, st), db')"
    and "db_ok db" "lineage_ok db" "config_ok (se_backend se) (ig_ops (se_ingest se)) db"
  obtains m where "sound_state se m st" "db_ok db'" "app_db (fs_app st) = db'"
proof -
  obtain i where boot: "bootstrap_master_key (se_crypto se) env rq db = (Inr printed, db')" and sole: "sole_master db' = Inr i"
    and st: "app_db (fs_app st) = db'" "pin_cell (fs_pin st) = Some i"
    using assms(1) unfolding start_service_Inr by auto
  note effect = bootstrap_effect [OF boot assms(2,3)]
  then have "config_ok (se_backend se) (ig_ops (se_ingest se)) db'" using assms(4) by (auto simp: config_ok_def split: if_splits)
  with effect sole st have "sound_state se i st" by (simp add: service_ok_def sole_master_iff)
  with effect st(1) that show thesis by blast
qed

section \<open>Rights over a run\<close>

datatype global_right = MasterRight | KeysRight | SourcesRight | VaultsRight

fun holds_right :: "global_right \<Rightarrow> api_key \<Rightarrow> bool" where
  "holds_right MasterRight k = is_master k"
| "holds_right KeysRight k = can_manage_keys k"
| "holds_right SourcesRight k = can_manage_sources k"
| "holds_right VaultsRight k = can_manage_vaults k"

definition global_rights :: "database \<Rightarrow> (uuid \<times> global_right) set" where
  "global_rights db = {(key_id k, g) |k g. k \<in> set (api_keys db) \<and> holds_right g k}"

lemma global_rights_frame: "api_keys db' = api_keys db \<Longrightarrow> global_rights db' = global_rights db"
  by (simp add: global_rights_def)

lemma key_request_rights:
  assumes "handle_key cx rq caller r db = Some db'" "\<not> is_master caller"
  shows "global_rights db' \<subseteq> global_rights db"
proof -
  obtain mid where mid: "key_effect caller db mid" "api_keys db' = api_keys mid"
    using assms(1) by (rule handle_key_effect)
  have "\<exists>k' \<in> set (api_keys db). key_id k' = key_id k \<and> holds_right g k'" if "k \<in> set (api_keys mid)" "holds_right g k" for k g
    using key_effect_flag [OF mid(1) assms(2) that(1)] that(2) by (cases g) auto
  then show ?thesis unfolding global_rights_def mid(2) by (auto, metis)
qed


lemma trigger_frames:
  assumes "db_ok (app_db st)"
  shows "trigger_destination_group nets env rq caller i st w = Some ((r, st'), w') \<Longrightarrow> api_keys (app_db st') = api_keys (app_db st)"
    and "trigger_vault_sync_task nets cl rq caller i st w = Some ((r, st'), w') \<Longrightarrow> api_keys (app_db st') = api_keys (app_db st)"
proof -
  have "api_keys db2 = api_keys (app_db st)"
    if "create_audit_log a b c d e f g (app_db st) = Inr db1" "ingest_run nets env h i db1 w = Some ((x, db2), w2)"
    for a b c d e f g h db1 x db2 w2
    using audit_effect [OF that(1)] audit_keeps [OF that(1)] run_keys(1) [OF that(2)] by simp
  then show "trigger_destination_group nets env rq caller i st w = Some ((r, st'), w') \<Longrightarrow> api_keys (app_db st') = api_keys (app_db st)"
    by (auto simp: trigger_destination_group_def split: option.splits sum.splits prod.splits bool.splits)
  have "api_keys db2 = api_keys (app_db st)"
    if "create_audit_log a b c d e f g (app_db st) = Inr db1" "sync_run nets cl h i db1 w = Some ((x, db2), w2)"
    for a b c d e f g h db1 x db2 w2
    using audit_effect [OF that(1)] audit_keeps [OF that(1)] run_keys(2) [OF that(2)] by simp
  then show "trigger_vault_sync_task nets cl rq caller i st w = Some ((r, st'), w') \<Longrightarrow> api_keys (app_db st') = api_keys (app_db st)"
    by (auto simp: trigger_vault_sync_task_def split: option.splits sum.splits prod.splits bool.splits)
qed

lemma dispatch_keys:
  assumes "dispatch se cipher rq caller call st w = Some (st', w')" "db_ok (app_db st)" "\<And>r. call \<noteq> KeyCall r"
  shows "api_keys (app_db st') = api_keys (app_db st)"
proof (cases call)
  case (TriggerGroupCall i)
  then obtain r where "trigger_destination_group (se_nets se) (se_ingest se) rq caller i st w = Some ((r, st'), w')" using assms(1) by auto
  then show ?thesis by (rule trigger_frames(1) [OF assms(2)])
next
  case (TriggerTaskCall i)
  then obtain r where "trigger_vault_sync_task (se_nets se) (ig_client (se_ingest se)) rq caller i st w = Some ((r, st'), w')" using assms(1) by auto
  then show ?thesis by (rule trigger_frames(2) [OF assms(2)])
next
  case (VaultCall r)
  then have "app_db st' = handle_vault \<lparr>kc_crypto = se_crypto se, kc_cipher = cipher, kc_show_uuid = se_show_uuid se\<rparr> rq caller r (app_db st)"
    using assms(1) by auto
  then show ?thesis by (simp only: vault_request_frame)
next
  case (SourceCall r)
  then have "st' = handle_source (se_backend se) (ig_ops (se_ingest se)) rq caller r st" using assms(1) by simp
  then show ?thesis by (simp only: source_request_frame)
next
  case (TaskCall r)
  then have "st' = snd (handle_task (se_backend se) rq caller r st)" using assms(1) by simp
  then show ?thesis by (simp only: task_request_frame)
qed (use assms in simp_all)

lemma dispatch_rights:
  assumes "dispatch se cipher rq caller call st w = Some (st', w')" "\<not> is_master caller" "db_ok (app_db st)"
  shows "global_rights (app_db st') \<subseteq> global_rights (app_db st)"
proof (cases "\<exists>r. call = KeyCall r")
  case True
  then obtain r where r: "call = KeyCall r" by blast
  let ?cx = "\<lparr>kc_crypto = se_crypto se, kc_cipher = cipher, kc_show_uuid = se_show_uuid se\<rparr>"
  obtain db' where h: "handle_key ?cx rq caller r (app_db st) = Some db'"
    using assms(1) unfolding r by (cases "handle_key ?cx rq caller r (app_db st)") simp_all
  with assms(1) have "app_db st' = db'" unfolding r by auto
  with key_request_rights [OF h assms(2)] show ?thesis by simp
next
  case False
  then show ?thesis using global_rights_frame [OF dispatch_keys [OF assms(1,3)]] by simp
qed

lemma serve_rights:
  assumes "serve se secs t rq req call st w = Some (r, st', w')" "\<And>caller. r = Inr caller \<Longrightarrow> \<not> is_master caller"
    and "db_ok (app_db (fs_app st))"
  shows "global_rights (app_db (fs_app st')) \<subseteq> global_rights (app_db (fs_app st))"
  using assms(1)
proof (cases rule: serve_cases)
  case (served caller ip guard tp w1 app)
  from dispatch_rights [OF served(4) assms(2) [OF served(1)] assms(3)] served(2) show ?thesis by simp
qed simp

abbreviation rights_within :: "('n, 'b, 'j, 'w) service_env \<Rightarrow> uuid \<Rightarrow> (uuid \<times> global_right) set \<Rightarrow> ('n, 'b, 'j) full_state \<Rightarrow> bool" where
  "rights_within se m R st \<equiv> sound_state se m st \<and> global_rights (app_db (fs_app st)) \<subseteq> R"

lemma sound_db: "sound_state se m st \<Longrightarrow> db_ok (app_db (fs_app st))"
  by (simp add: service_ok_def)

interpretation rights: service_invariant "\<lambda>k. \<not> is_master k" se "rights_within se m R"
  for se :: "('n, 'b, 'j, 'w) service_env" and m R
proof
  fix st secs t rq req call and w :: 'w and r st' w'
  assume s: "rights_within se m R st" and run: "serve se secs t rq req call st w = Some (r, st', w')"
    and p: "\<And>caller. r = Inr caller \<Longrightarrow> \<not> is_master caller"
  have "sound_state se m st'"
    by (rule sound.request [where P = "\<lambda>_. True", OF conjunct1 [OF s] run]) simp
  moreover have "global_rights (app_db (fs_app st')) \<subseteq> R"
    using serve_rights [OF run p sound_db [OF conjunct1 [OF s]]] conjunct2 [OF s] by (rule subset_trans)
  ultimately show "rights_within se m R st'" ..
next
  fix st i log_id and w w' :: 'w and app
  assume s: "rights_within se m R st" and run: "scheduled_ingest se log_id i (fs_app st) w = Some (app, w')"
  from global_rights_frame [OF scheduled_keys(1) [OF run sound_db [OF conjunct1 [OF s]]]]
    sound.ingest [OF conjunct1 [OF s] run] conjunct2 [OF s]
  show "rights_within se m R (st\<lparr>fs_app := app\<rparr>)" by simp
next
  fix st i log_id and w w' :: 'w and app
  assume s: "rights_within se m R st" and run: "scheduled_sync se log_id i (fs_app st) w = Some (app, w')"
  from global_rights_frame [OF scheduled_keys(2) [OF run sound_db [OF conjunct1 [OF s]]]]
    sound.sync [OF conjunct1 [OF s] run] conjunct2 [OF s]
  show "rights_within se m R (st\<lparr>fs_app := app\<rparr>)" by simp
next
  fix st and tp :: "'n trusted_proxies"
  assume "rights_within se m R st"
  then show "rights_within se m R (st\<lparr>fs_proxies := tp\<rparr>)" by simp
next
  fix st and earliest d e u db
  assume s: "rights_within se m R st" and run: "sweeps earliest d e [u] (app_db (fs_app st)) = Some db"
  have "api_keys db = api_keys (app_db (fs_app st))" using sweep_frame [OF run sound_db [OF conjunct1 [OF s]]] by blast
  from global_rights_frame [OF this] sound.sweep [OF conjunct1 [OF s] run] conjunct2 [OF s]
  show "rights_within se m R (st\<lparr>fs_app := (fs_app st)\<lparr>app_db := db\<rparr>\<rparr>)" by simp
qed


section \<open>Signatures over a run\<close>

lemma map_of_kept: "map_of xs sid = Some e \<Longrightarrow> n < e \<Longrightarrow> map_of (filter (\<lambda>(_, x). n < (x :: int)) xs) sid = Some e"
  by (induction xs) auto

lemma entry_survives:
  assumes "check_and_record g t k d = (ok, g')" "map_of (seen g) sid = Some e" "t < e"
  shows "map_of (seen g') sid = Some e"
proof -
  have "map_of (seen (prune_if_due g t)) sid = Some e"
    using assms(2,3) map_of_kept by (auto simp: prune_if_due_def Let_def)
  then show ?thesis
    using assms(1,3) by (auto simp: check_and_record_def Let_def update_conv' split: if_splits option.splits)
qed

lemma entry_refused:
  assumes "map_of (seen g) (SignatureId k d) = Some e" "t < e"
  shows "\<not> fst (check_and_record g t k d)"
proof -
  have "map_of (seen (prune_if_due g t)) (SignatureId k d) = Some e"
    using assms map_of_kept by (auto simp: prune_if_due_def Let_def)
  then show ?thesis using assms(2) by (simp add: check_and_record_def Let_def)
qed

lemma entry_recorded:
  assumes "check_and_record g t k d = (True, g')"
  shows "map_of (seen g') (SignatureId k d) = Some (t + window g)"
proof -
  have "window (prune_if_due g t) = window g" by (simp add: prune_if_due_def Let_def)
  then show ?thesis using assms by (auto simp: check_and_record_def Let_def update_conv' split: if_splits option.splits)
qed

lemma auth_guard:
  assumes "auth_middleware au dns db secs t req (guard, tp, w) = (r, guard', tp', w')"
  shows "guard' = guard \<or> (\<exists>k d ok. check_and_record guard t k d = (ok, guard'))"
  using assms by (auto simp: auth_middleware_def Let_def try_h_def split: prod.splits sum.splits bool.splits)

lemma verified_digest:
  "verify_signature cs s1 m1 t1 x1 b1 sig = Some d1 \<Longrightarrow> verify_signature cs s2 m2 t2 x2 b2 sig = Some d2 \<Longrightarrow> d1 = d2"
  by (auto simp: verify_signature_def bind_eq_Some_conv split: if_splits)

lemma checked_digest:
  assumes "check_signature au db secs req = Inr (key, digest)" "check_signature au' db' secs' req = Inr (key', digest')" "au_crypto au' = au_crypto au"
  shows "digest' = digest"
  using assms verified_digest unfolding check_signature_Inr by (metis option.inject)

section \<open>A sample process\<close>

definition idle_world :: sim_world where
  "idle_world = \<lparr>sim_live = (\<lambda>_. {}), sim_limit = 9\<rparr>"

definition sample_se :: "(cidr, job_store, nat, sim_world) service_env" where
  "sample_se = \<lparr>se_nets = cidr_ops, se_backend = table_backend, se_crypto = toy_crypto,
     se_dns = \<lparr>lookup_host = (\<lambda>_ w. (Inr [], w)), dns_clock = (\<lambda>_. 0)\<rparr>, se_ingest = sim_ingest, se_show_uuid = (\<lambda>i. dec (unat i)),
     se_max_body = 10, se_sync_log_days = 92, se_audit_log_days = 365\<rparr>"

definition started :: "(cidr, job_store, nat) full_state" where
  "started = (case fst first_start of Inr (_, st) \<Rightarrow> st)"

definition next_rq :: request_env where
  "next_rq = \<lparr>now = 0, client_ip = V4 0, fresh = (\<lambda>n. 200 + of_nat n), entropy = (\<lambda>n. replicate (if n = 2 then 24 else 32) (CHR ''d''))\<rparr>"

definition create_daughter :: api_call where
  "create_daughter = KeyCall (CreateKey \<lparr>ck_name = ''d'', ck_can_manage_keys = True, ck_can_manage_sources = False,
     ck_can_manage_vaults = False, ck_bound_ips = None\<rparr>)"

abbreviation served_daughter :: "((app_error + api_key) \<times> (cidr, job_store, nat) full_state \<times> sim_world) option" where
  "served_daughter \<equiv> serve sample_se 1100 0 next_rq first_request create_daughter started idle_world"

lemma daughter_served:
  "map_option (\<lambda>(r, st, w). (map_option key_id (ok_opt r), map key_id (api_keys (app_db (fs_app st))),
      map_option (\<lambda>g. (group_is_active g, group_cron_schedule g)) (find_group (app_db (fs_app st)) 6))) served_daughter
    = Some (Some 100, [100, 200], Some (True, ''0 0 * * *''))"
  by code_simp

lemma daughter_obtain:
  obtains caller st w g where "served_daughter = Some (Inr caller, st, w)" "key_id caller = 100"
    "map key_id (api_keys (app_db (fs_app st))) = [100, 200]"
    "find_group (app_db (fs_app st)) 6 = Some g" "group_is_active g" "group_cron_schedule g = ''0 0 * * *''"
proof -
  obtain r st w where run: "served_daughter = Some (r, st, w)" "map_option key_id (ok_opt r) = Some 100"
      "map key_id (api_keys (app_db (fs_app st))) = [100, 200]"
      "map_option (\<lambda>g. (group_is_active g, group_cron_schedule g)) (find_group (app_db (fs_app st)) 6) = Some (True, ''0 0 * * *'')"
    using daughter_served by (cases served_daughter) auto
  then show thesis using that by (cases r) (auto simp: ok_opt_def)
qed

lemma started_eq: "\<exists>db'. first_start = (Inr (Some (first_secret, first_secret), started), db')"
  unfolding first_secret_def started_def by (rule first_start_obtain) auto

lemma empty_db_ok: "db_ok empty_db" "lineage_ok empty_db" "config_ok table_backend token_ops empty_db"
  by code_simp+

lemma sample_parts:
  "se_crypto sample_se = toy_crypto" "se_nets sample_se = cidr_ops" "se_backend sample_se = table_backend"
  "ig_ops (se_ingest sample_se) = token_ops"
  by (simp_all add: sample_se_def sim_ingest_def)

lemma started_state:
  obtains m where "service_ok table_backend token_ops m (app_db (fs_app started))" "pin_cell (fs_pin started) = Some m"
    "app_jobs (fs_app started) = \<lparr>running = {}, running_poisoned = False\<rparr>" "window (fs_replay started) = 300000"
proof -
  obtain db' where boot: "first_start = (Inr (Some (first_secret, first_secret), started), db')" using started_eq by blast
  obtain m where m: "service_ok table_backend token_ops m (app_db (fs_app started)) \<and> pin_cell (fs_pin started) = Some m"
    by (rule start_sound [where se = sample_se, unfolded sample_parts, OF boot empty_db_ok])
  have "app_jobs (fs_app st) = \<lparr>running = {}, running_poisoned = False\<rparr> \<and> fs_replay st = replay_default (boot_instant sample_platform)"
    if "start_service toy_crypto cidr_ops table_backend Map.empty sample_platform boot_rq empty_db = (Inr (x, st), db')" for x st
    using that unfolding start_service_Inr by auto
  from this [OF boot] have "app_jobs (fs_app started) = \<lparr>running = {}, running_poisoned = False\<rparr>" "window (fs_replay started) = 300000"
    by (simp_all add: replay_default_def replay_new_def MAX_TIMESTAMP_SKEW_SECS_def)
  with m show thesis by (intro that [of m]) (elim conjE, assumption)+
qed

end
