(* ===== verification/Migrations.thy ===== *)
theory Migrations
  imports VaultApi
begin

text \<open>
  \<open>src/migration/\<close>: what the migrations do to the rows of a database that has only the initial
  schema, on each backend. A migration is a function in the sum type; a statement that a
  constraint refuses is an error, and the sequence stops there. \<open>legacy_db\<close> is the schema of the
  first migration; the result of all five is the \<open>database\<close> the program runs on. Plain indexes
  and column defaults no statement relies on have no effect on the rows and are left out. On
  SQLite the tables are rebuilt, elsewhere they are altered in place; both paths are written out.
\<close>

section \<open>The initial schema\<close>

datatype db_backend = Sqlite | Postgres | MySql

datatype migration_error = Statement db_err | NotNullViolation | SyntaxError | Custom string

record legacy_source =
  ls_id :: uuid
  ls_name :: string
  ls_source_url :: string
  ls_parser_type :: string
  ls_parser_config_json :: "string option"
  ls_cron_schedule :: string
  ls_target_group_name :: string
  ls_mode :: string
  ls_is_active :: bool
  ls_last_run_at :: "instant option"
  ls_owner_key_id :: "uuid option"
  ls_created_at :: instant
  ls_updated_at :: instant

record source_target =
  est_source_id :: uuid
  est_vault_id :: uuid
  est_target_group_name :: "string option"

record legacy_task =
  lt_id :: uuid
  lt_name :: string
  lt_source_vault_id :: uuid
  lt_source_group_name :: string
  lt_target_group_name :: string
  lt_cron_schedule :: string
  lt_last_sync_at :: "instant option"
  lt_mode :: string
  lt_is_active :: bool
  lt_owner_key_id :: "uuid option"
  lt_created_at :: instant
  lt_updated_at :: instant

record legacy_audit =
  la_id :: uuid
  la_api_key_id :: "uuid option"
  la_api_key_name :: "string option"
  la_api_key_prefix :: "string option"
  la_client_ip :: "string option"
  la_action :: string
  la_target_resource :: "string option"
  la_details :: "string option"
  la_timestamp :: instant

record legacy_db =
  l_keys :: "api_key list"
  l_permissions :: "permission list"
  l_vaults :: "vault_endpoint list"
  l_sources :: "legacy_source list"
  l_source_targets :: "source_target list"
  l_tasks :: "legacy_task list"
  l_task_targets :: "task_target list"
  l_sync_logs :: "sync_log list"
  l_audit :: "legacy_audit list"

definition legacy_sources_table :: "legacy_source list \<Rightarrow> bool" where
  "legacy_sources_table ss \<longleftrightarrow> distinct (map ls_id ss) \<and> distinct (map ls_name ss)"

definition source_targets_table :: "source_target list \<Rightarrow> bool" where
  "source_targets_table ts \<longleftrightarrow> distinct (map (\<lambda>t. (est_source_id t, est_vault_id t)) ts)"

definition legacy_ok :: "legacy_db \<Rightarrow> bool" where
  "legacy_ok db \<longleftrightarrow>
     api_keys_table (l_keys db) \<and> permissions_table (l_permissions db) \<and> vault_endpoints_table (l_vaults db) \<and>
     legacy_sources_table (l_sources db) \<and> source_targets_table (l_source_targets db) \<and>
     distinct (map lt_id (l_tasks db)) \<and> distinct (map lt_name (l_tasks db)) \<and> task_targets_table (l_task_targets db) \<and>
     sync_logs_table (l_sync_logs db) \<and> distinct (map la_id (l_audit db)) \<and>
     list_all (\<lambda>p. perm_api_key_id p \<in> set (map key_id (l_keys db))) (l_permissions db) \<and>
     list_all (\<lambda>t. est_source_id t \<in> set (map ls_id (l_sources db)) \<and> est_vault_id t \<in> set (map vault_id (l_vaults db))) (l_source_targets db) \<and>
     list_all (\<lambda>t. lt_source_vault_id t \<in> set (map vault_id (l_vaults db))) (l_tasks db) \<and>
     list_all (\<lambda>t. tt_task_id t \<in> set (map lt_id (l_tasks db)) \<and> tt_vault_id t \<in> set (map vault_id (l_vaults db))) (l_task_targets db) \<and>
     list_all (\<lambda>l. \<forall>k \<in> set_option (la_api_key_id l). k \<in> set (map key_id (l_keys db))) (l_audit db)"

section \<open>The Master marker\<close>

definition marker_up :: "api_key list \<Rightarrow> migration_error + unit" where
  "marker_up keys =
     (let existing_masters = filter is_master keys in
      if 1 < length existing_masters
      then Inl (Custom (''refusing to add master_marker: '' @ dec (length existing_masters)
             @ '' rows already have is_master=true, expected at most 1''))
      else if \<not> master_marker_index keys then Inl (Statement UniqueConstraintViolation)
      else Inr ())"

section \<open>Attribution of audit rows\<close>

datatype attribution = ApiKeyName | ApiKeyPrefix | ClientIp

definition UNRECORDED :: string where
  "UNRECORDED = ''(unknown)''"

definition ATTRIBUTION_COLUMNS :: "attribution list" where
  "ATTRIBUTION_COLUMNS = [ApiKeyName, ApiKeyPrefix, ClientIp]"

fun column_of :: "attribution \<Rightarrow> legacy_audit \<Rightarrow> string option" where
  "column_of ApiKeyName r = la_api_key_name r"
| "column_of ApiKeyPrefix r = la_api_key_prefix r"
| "column_of ClientIp r = la_client_ip r"

fun set_column :: "attribution \<Rightarrow> string \<Rightarrow> legacy_audit \<Rightarrow> legacy_audit" where
  "set_column ApiKeyName v r = r\<lparr>la_api_key_name := Some v\<rparr>"
| "set_column ApiKeyPrefix v r = r\<lparr>la_api_key_prefix := Some v\<rparr>"
| "set_column ClientIp v r = r\<lparr>la_client_ip := Some v\<rparr>"

definition backfill_column :: "attribution \<Rightarrow> legacy_audit list \<Rightarrow> legacy_audit list" where
  "backfill_column c rows = map (\<lambda>r. if column_of c r = None then set_column c UNRECORDED r else r) rows"

definition backfill :: "legacy_audit list \<Rightarrow> legacy_audit list" where
  "backfill rows = fold backfill_column ATTRIBUTION_COLUMNS rows"

text \<open>A table: its rows and the attribution columns declared \<open>NOT NULL\<close>.\<close>

type_synonym audit_table = "legacy_audit list \<times> attribution list"

definition satisfies :: "attribution list \<Rightarrow> legacy_audit list \<Rightarrow> bool" where
  "satisfies cs rows \<longleftrightarrow> list_all (\<lambda>r. list_all (\<lambda>c. column_of c r \<noteq> None) cs) rows"

definition rebuild :: "bool \<Rightarrow> audit_table \<Rightarrow> migration_error + audit_table" where
  "rebuild attribution_not_null tbl =
     (let declared = (if attribution_not_null then ATTRIBUTION_COLUMNS else []) in
      if satisfies declared (fst tbl) then Inr (fst tbl, declared) else Inl NotNullViolation)"

fun modify_columns :: "attribution list \<Rightarrow> audit_table \<Rightarrow> migration_error + audit_table" where
  "modify_columns [] tbl = Inr tbl"
| "modify_columns (c # cs) tbl =
     (if satisfies [c] (fst tbl) then modify_columns cs (fst tbl, snd tbl @ [c]) else Inl NotNullViolation)"

definition attribution_up :: "db_backend \<Rightarrow> audit_table \<Rightarrow> migration_error + audit_table" where
  "attribution_up b tbl =
     (let filled = (backfill (fst tbl), snd tbl) in
      if b = Sqlite then rebuild True filled else modify_columns [ApiKeyName, ApiKeyPrefix, ClientIp] filled)"

definition attribution_down :: "db_backend \<Rightarrow> audit_table \<Rightarrow> migration_error + audit_table" where
  "attribution_down b tbl =
     (if b = Sqlite then rebuild False tbl
      else Inr (fst tbl, fold removeAll [ApiKeyName, ApiKeyPrefix, ClientIp] (snd tbl)))"

text \<open>How the entity reads a row: a null in a column it declares as text cannot be decoded.\<close>

definition read_audit :: "legacy_audit \<Rightarrow> audit_log option" where
  "read_audit r =
     (case (la_api_key_name r, la_api_key_prefix r, la_client_ip r) of
        (Some n, Some p, Some ip) \<Rightarrow>
          Some \<lparr>alog_id = la_id r, alog_api_key_id = la_api_key_id r, alog_api_key_name = n, alog_api_key_prefix = p,
            alog_client_ip = ip, alog_action = la_action r, alog_target_resource = la_target_resource r,
            alog_details = la_details r, alog_timestamp = la_timestamp r\<rparr>
      | _ \<Rightarrow> None)"

section \<open>Destination groups\<close>

definition group_of_source :: "legacy_source \<Rightarrow> destination_group" where
  "group_of_source s =
     \<lparr>group_id = ls_id s, group_name = ls_name s, group_target_group_name = ls_target_group_name s,
      group_cron_schedule = ls_cron_schedule s, group_mode = ls_mode s, group_is_active = ls_is_active s,
      group_skip_bogon_filtering = False, group_last_run_at = ls_last_run_at s, group_owner_key_id = ls_owner_key_id s,
      group_created_at = ls_created_at s, group_updated_at = ls_updated_at s\<rparr>"

definition target_of_source :: "source_target \<Rightarrow> group_target" where
  "target_of_source t =
     \<lparr>gt_group_id = est_source_id t, gt_vault_id = est_vault_id t, gt_target_group_name = est_target_group_name t\<rparr>"

definition migrate_existing_rows_into_groups ::
  "vault_endpoint list \<Rightarrow> legacy_source list \<Rightarrow> source_target list \<Rightarrow> migration_error + destination_group list \<times> group_target list" where
  "migrate_existing_rows_into_groups vs ss ts =
     (let gs = map group_of_source ss; gts = map target_of_source ts in
      if \<not> destination_groups_table gs then Inl (Statement UniqueConstraintViolation)
      else if \<not> group_targets_table gts then Inl (Statement UniqueConstraintViolation)
      else if \<not> list_all (\<lambda>t. gt_group_id t \<in> set (map group_id gs) \<and> gt_vault_id t \<in> set (map vault_id vs)) gts
      then Inl (Statement ForeignKeyViolation)
      else Inr (gs, gts))"

definition feed_of_source :: "legacy_source \<Rightarrow> external_source" where
  "feed_of_source s =
     \<lparr>feed_id = ls_id s, feed_group_id = ls_id s, feed_name = ls_name s, feed_source_url = ls_source_url s,
      feed_parser_type = ls_parser_type s, feed_parser_config_json = ls_parser_config_json s, feed_max_age_days = None,
      feed_skip_bogon_filtering = None, feed_created_at = ls_created_at s, feed_updated_at = ls_updated_at s\<rparr>"

definition insert_rebuilt_feeds :: "destination_group list \<Rightarrow> external_source list \<Rightarrow> migration_error + external_source list" where
  "insert_rebuilt_feeds gs fs =
     (if \<not> external_sources_table fs then Inl (Statement UniqueConstraintViolation)
      else if \<not> list_all (\<lambda>f. feed_group_id f \<in> set (map group_id gs)) fs then Inl (Statement ForeignKeyViolation)
      else Inr fs)"

definition rebuild_feeds :: "destination_group list \<Rightarrow> legacy_source list \<Rightarrow> migration_error + external_source list" where
  "rebuild_feeds gs ss = insert_rebuilt_feeds gs (map feed_of_source ss)"

text \<open>In place: three nullable columns, a backfill, the two constraints, and six columns less.\<close>

record altered_source = legacy_source +
  as_group_id :: "uuid option"
  as_max_age_days :: "int option"
  as_skip_bogon_filtering :: "bool option"

definition add_feed_columns :: "legacy_source \<Rightarrow> altered_source" where
  "add_feed_columns s = legacy_source.extend s (altered_source.fields None None None)"

definition drop_moved_columns :: "altered_source \<Rightarrow> uuid \<Rightarrow> external_source" where
  "drop_moved_columns s g =
     \<lparr>feed_id = ls_id s, feed_group_id = g, feed_name = ls_name s, feed_source_url = ls_source_url s,
      feed_parser_type = ls_parser_type s, feed_parser_config_json = ls_parser_config_json s,
      feed_max_age_days = as_max_age_days s, feed_skip_bogon_filtering = as_skip_bogon_filtering s,
      feed_created_at = ls_created_at s, feed_updated_at = ls_updated_at s\<rparr>"

definition alter_external_sources_directly ::
  "destination_group list \<Rightarrow> legacy_source list \<Rightarrow> migration_error + external_source list" where
  "alter_external_sources_directly gs ss =
     (let added = map add_feed_columns ss;
          filled = map (\<lambda>s. s\<lparr>as_group_id := Some (ls_id s)\<rparr>) added in
      if \<not> list_all (\<lambda>s. as_group_id s \<noteq> None) filled then Inl NotNullViolation
      else if \<not> list_all (\<lambda>s. \<forall>g \<in> set_option (as_group_id s). g \<in> set (map group_id gs)) filled
      then Inl (Statement ForeignKeyViolation)
      else Inr (List.map_filter (\<lambda>s. map_option (drop_moved_columns s) (as_group_id s)) filled))"

definition groups_up ::
  "db_backend \<Rightarrow> vault_endpoint list \<Rightarrow> legacy_source list \<Rightarrow> source_target list
    \<Rightarrow> migration_error + destination_group list \<times> group_target list \<times> external_source list" where
  "groups_up b vs ss ts =
     ebind (migrate_existing_rows_into_groups vs ss ts) (\<lambda>(gs, gts).
     ebind (if b = Sqlite then rebuild_feeds gs ss else alter_external_sources_directly gs ss) (\<lambda>fs.
     Inr (gs, gts, fs)))"

subsection \<open>The way back\<close>

definition legacy_of_feed :: "external_source \<Rightarrow> destination_group \<Rightarrow> legacy_source" where
  "legacy_of_feed es dg =
     \<lparr>ls_id = feed_id es, ls_name = feed_name es, ls_source_url = feed_source_url es, ls_parser_type = feed_parser_type es,
      ls_parser_config_json = feed_parser_config_json es, ls_cron_schedule = group_cron_schedule dg,
      ls_target_group_name = group_target_group_name dg, ls_mode = group_mode dg, ls_is_active = group_is_active dg,
      ls_last_run_at = group_last_run_at dg, ls_owner_key_id = group_owner_key_id dg,
      ls_created_at = feed_created_at es, ls_updated_at = feed_updated_at es\<rparr>"

definition source_of_target :: "group_target \<Rightarrow> source_target" where
  "source_of_target t =
     \<lparr>est_source_id = gt_group_id t, est_vault_id = gt_vault_id t, est_target_group_name = gt_target_group_name t\<rparr>"

text \<open>The join of the rebuild, and the nullable columns of the other path with \<open>UPDATE ... FROM\<close>.\<close>

definition rebuild_sources :: "destination_group list \<Rightarrow> external_source list \<Rightarrow> migration_error + legacy_source list" where
  "rebuild_sources gs fs =
     (let rows = concat (map (\<lambda>es. map (legacy_of_feed es) (filter (\<lambda>dg. group_id dg = feed_group_id es) gs)) fs) in
      if legacy_sources_table rows then Inr rows else Inl (Statement UniqueConstraintViolation))"

record reverted_feed = external_source +
  rf_cron_schedule :: "string option"
  rf_target_group_name :: "string option"
  rf_mode :: "string option"
  rf_is_active :: "bool option"
  rf_last_run_at :: "instant option"
  rf_owner_key_id :: "uuid option"

definition add_source_columns :: "external_source \<Rightarrow> reverted_feed" where
  "add_source_columns es = external_source.extend es (reverted_feed.fields None None (Some ''upsert'') (Some True) None None)"

definition update_from_group :: "destination_group list \<Rightarrow> reverted_feed \<Rightarrow> reverted_feed" where
  "update_from_group gs es =
     (case List.find (\<lambda>dg. group_id dg = feed_group_id es) gs of
        None \<Rightarrow> es
      | Some dg \<Rightarrow> es\<lparr>rf_cron_schedule := Some (group_cron_schedule dg), rf_target_group_name := Some (group_target_group_name dg),
          rf_mode := Some (group_mode dg), rf_is_active := Some (group_is_active dg),
          rf_last_run_at := group_last_run_at dg, rf_owner_key_id := group_owner_key_id dg\<rparr>)"

definition drop_feed_columns :: "reverted_feed \<Rightarrow> legacy_source option" where
  "drop_feed_columns es =
     (case (rf_cron_schedule es, rf_target_group_name es, rf_mode es, rf_is_active es) of
        (Some c, Some t, Some m, Some a) \<Rightarrow>
          Some \<lparr>ls_id = feed_id es, ls_name = feed_name es, ls_source_url = feed_source_url es, ls_parser_type = feed_parser_type es,
            ls_parser_config_json = feed_parser_config_json es, ls_cron_schedule = c, ls_target_group_name = t, ls_mode = m,
            ls_is_active = a, ls_last_run_at = rf_last_run_at es, ls_owner_key_id = rf_owner_key_id es,
            ls_created_at = feed_created_at es, ls_updated_at = feed_updated_at es\<rparr>
      | _ \<Rightarrow> None)"

text \<open>MySQL has no \<open>UPDATE ... FROM\<close>: there the statement does not parse.\<close>

definition revert_sources_directly ::
  "db_backend \<Rightarrow> destination_group list \<Rightarrow> external_source list \<Rightarrow> migration_error + legacy_source list" where
  "revert_sources_directly b gs fs =
     (let filled = map (update_from_group gs) (map add_source_columns fs) in
      if b = MySql then Inl SyntaxError
      else if \<not> list_all (\<lambda>es. rf_cron_schedule es \<noteq> None \<and> rf_target_group_name es \<noteq> None) filled then Inl NotNullViolation
      else Inr (List.map_filter drop_feed_columns filled))"

definition groups_down ::
  "db_backend \<Rightarrow> destination_group list \<Rightarrow> group_target list \<Rightarrow> external_source list
    \<Rightarrow> migration_error + legacy_source list \<times> source_target list" where
  "groups_down b gs gts fs =
     (let ts = map source_of_target gts in
      if \<not> source_targets_table ts then Inl (Statement UniqueConstraintViolation)
      else ebind (if b = Sqlite then rebuild_sources gs fs else revert_sources_directly b gs fs) (\<lambda>ss. Inr (ss, ts)))"

section \<open>The bogon toggle of tasks\<close>

definition bogon_up :: "legacy_task \<Rightarrow> vault_sync_task" where
  "bogon_up t =
     \<lparr>task_id = lt_id t, task_name = lt_name t, task_source_vault_id = lt_source_vault_id t,
      task_source_group_name = lt_source_group_name t, task_target_group_name = lt_target_group_name t,
      task_cron_schedule = lt_cron_schedule t, task_last_sync_at = lt_last_sync_at t, task_mode = lt_mode t,
      task_is_active = lt_is_active t, task_skip_bogon_filtering = False, task_owner_key_id = lt_owner_key_id t,
      task_created_at = lt_created_at t, task_updated_at = lt_updated_at t\<rparr>"

definition bogon_down :: "vault_sync_task \<Rightarrow> legacy_task" where
  "bogon_down t =
     \<lparr>lt_id = task_id t, lt_name = task_name t, lt_source_vault_id = task_source_vault_id t,
      lt_source_group_name = task_source_group_name t, lt_target_group_name = task_target_group_name t,
      lt_cron_schedule = task_cron_schedule t, lt_last_sync_at = task_last_sync_at t, lt_mode = task_mode t,
      lt_is_active = task_is_active t, lt_owner_key_id = task_owner_key_id t,
      lt_created_at = task_created_at t, lt_updated_at = task_updated_at t\<rparr>"

section \<open>The migrator\<close>

text \<open>The four migrations after the initial schema, in the order of \<open>Migrator::migrations\<close>.\<close>

definition migrate_up :: "db_backend \<Rightarrow> legacy_db \<Rightarrow> migration_error + database" where
  "migrate_up b db =
     ebind (marker_up (l_keys db)) (\<lambda>_.
     ebind (attribution_up b (l_audit db, [])) (\<lambda>(audit, _).
     ebind (groups_up b (l_vaults db) (l_sources db) (l_source_targets db)) (\<lambda>(gs, gts, fs).
     Inr \<lparr>api_keys = l_keys db, permissions = l_permissions db, vaults = l_vaults db, groups = gs, group_targets = gts,
          feeds = fs, tasks = map bogon_up (l_tasks db), task_targets = l_task_targets db, sync_logs = l_sync_logs db,
          audit_logs = List.map_filter read_audit audit\<rparr>)))"

text \<open>The way back, in the opposite order; what the entities wrote is text in every attribution column.\<close>

definition audit_of_log :: "audit_log \<Rightarrow> legacy_audit" where
  "audit_of_log l =
     \<lparr>la_id = alog_id l, la_api_key_id = alog_api_key_id l, la_api_key_name = Some (alog_api_key_name l),
      la_api_key_prefix = Some (alog_api_key_prefix l), la_client_ip = Some (alog_client_ip l), la_action = alog_action l,
      la_target_resource = alog_target_resource l, la_details = alog_details l, la_timestamp = alog_timestamp l\<rparr>"

definition migrate_down :: "db_backend \<Rightarrow> database \<Rightarrow> migration_error + legacy_db" where
  "migrate_down b db =
     ebind (groups_down b (groups db) (group_targets db) (feeds db)) (\<lambda>(ss, ts).
     ebind (attribution_down b (map audit_of_log (audit_logs db), ATTRIBUTION_COLUMNS)) (\<lambda>(audit, _).
     Inr \<lparr>l_keys = api_keys db, l_permissions = permissions db, l_vaults = vaults db, l_sources = ss, l_source_targets = ts,
          l_tasks = map bogon_down (tasks db), l_task_targets = task_targets db, l_sync_logs = sync_logs db, l_audit = audit\<rparr>))"

section \<open>The tables of the initial schema\<close>

text \<open>
  Creating and dropping whole tables: a foreign key needs the table it refers to, and a table that
  another one refers to cannot be dropped.
\<close>

datatype schema_table =
    ApiKeys | VaultEndpoints | ExternalSources | ExternalSourceVaultTargets | VaultSyncTasks | VaultSyncTaskTargets
  | ApiKeySyncPermissions | SyncLogs | AuditLogs

fun references :: "schema_table \<Rightarrow> schema_table list" where
  "references ExternalSourceVaultTargets = [ExternalSources, VaultEndpoints]"
| "references VaultSyncTasks = [VaultEndpoints]"
| "references VaultSyncTaskTargets = [VaultSyncTasks, VaultEndpoints]"
| "references ApiKeySyncPermissions = [ApiKeys]"
| "references AuditLogs = [ApiKeys]"
| "references _ = []"

fun create_tables :: "schema_table list \<Rightarrow> schema_table list \<Rightarrow> migration_error + schema_table list" where
  "create_tables [] present = Inr present"
| "create_tables (t # ts) present =
     (if list_all (\<lambda>u. u \<in> set present) (references t) then create_tables ts (t # removeAll t present)
      else Inl (Statement ForeignKeyViolation))"

fun drop_tables :: "schema_table list \<Rightarrow> schema_table list \<Rightarrow> migration_error + schema_table list" where
  "drop_tables [] present = Inr present"
| "drop_tables (t # ts) present =
     (if list_ex (\<lambda>u. u \<noteq> t \<and> t \<in> set (references u)) present then Inl (Statement ForeignKeyViolation)
      else drop_tables ts (removeAll t present))"

definition schema_up :: "schema_table list \<Rightarrow> migration_error + schema_table list" where
  "schema_up present = create_tables
     [ApiKeys, VaultEndpoints, ExternalSources, ExternalSourceVaultTargets, VaultSyncTasks, VaultSyncTaskTargets,
      ApiKeySyncPermissions, SyncLogs, AuditLogs] present"

definition schema_down :: "schema_table list \<Rightarrow> migration_error + schema_table list" where
  "schema_down present = drop_tables
     [AuditLogs, SyncLogs, ApiKeySyncPermissions, VaultSyncTaskTargets, VaultSyncTasks, ExternalSourceVaultTargets,
      ExternalSources, VaultEndpoints, ApiKeys] present"

lemma schema_orders: "ebind (schema_up []) schema_down = Inr []"
  by code_simp

section \<open>Both backends do the same\<close>

definition recorded :: "string option \<Rightarrow> string" where
  "recorded v = (case v of None \<Rightarrow> UNRECORDED | Some x \<Rightarrow> x)"

definition filled_row :: "legacy_audit \<Rightarrow> legacy_audit" where
  "filled_row r = r\<lparr>la_api_key_name := Some (recorded (la_api_key_name r)), la_api_key_prefix := Some (recorded (la_api_key_prefix r)),
     la_client_ip := Some (recorded (la_client_ip r))\<rparr>"

definition attributed :: "legacy_audit \<Rightarrow> audit_log" where
  "attributed r =
     \<lparr>alog_id = la_id r, alog_api_key_id = la_api_key_id r, alog_api_key_name = recorded (la_api_key_name r),
      alog_api_key_prefix = recorded (la_api_key_prefix r), alog_client_ip = recorded (la_client_ip r), alog_action = la_action r,
      alog_target_resource = la_target_resource r, alog_details = la_details r, alog_timestamp = la_timestamp r\<rparr>"

lemma backfill_eq: "backfill rows = map filled_row rows"
  by (auto simp: backfill_def ATTRIBUTION_COLUMNS_def backfill_column_def filled_row_def recorded_def split: option.splits)

lemma filled_columns: "column_of c (filled_row r) \<noteq> None"
  by (cases c) (simp_all add: filled_row_def)

lemma filled_satisfies: "satisfies cs (map filled_row rows)"
  unfolding satisfies_def list_all_iff using filled_columns by auto

lemma attribution_up_eq: "attribution_up b (rows, []) = Inr (map filled_row rows, ATTRIBUTION_COLUMNS)"
  by (simp add: attribution_up_def Let_def rebuild_def backfill_eq filled_satisfies ATTRIBUTION_COLUMNS_def)

lemma attribution_round_trip: "attribution_down b (rows, ATTRIBUTION_COLUMNS) = Inr (rows, [])"
  by (simp add: attribution_down_def rebuild_def satisfies_def list_all_iff ATTRIBUTION_COLUMNS_def)

lemma read_filled: "List.map_filter read_audit (map filled_row rows) = map attributed rows"
  by (induction rows) (simp_all add: List.map_filter_simps read_audit_def filled_row_def attributed_def)

lemma altered_eq: "drop_moved_columns ((add_feed_columns s)\<lparr>as_group_id := Some (ls_id s)\<rparr>) (ls_id s) = feed_of_source s"
  "as_group_id ((add_feed_columns s)\<lparr>as_group_id := Some g\<rparr>) = Some g" "ls_id (add_feed_columns s) = ls_id s"
  by (simp_all add: drop_moved_columns_def add_feed_columns_def feed_of_source_def legacy_source.extend_def altered_source.fields_def)

lemma alter_feeds_eq:
  "alter_external_sources_directly (map group_of_source ss) ss = Inr (map feed_of_source ss)"
proof -
  have "List.map_filter (\<lambda>s. map_option (drop_moved_columns s) (as_group_id s)) (map (\<lambda>s. (add_feed_columns s)\<lparr>as_group_id := Some (ls_id s)\<rparr>) ss)
      = map feed_of_source ss"
    by (induction ss) (simp_all add: List.map_filter_simps altered_eq)
  then show ?thesis
    by (simp add: alter_external_sources_directly_def Let_def list_all_iff altered_eq o_def) (simp add: group_of_source_def)
qed

lemma rebuild_feeds_eq:
  "legacy_sources_table ss \<Longrightarrow> rebuild_feeds (map group_of_source ss) ss = Inr (map feed_of_source ss)"
  by (auto simp: rebuild_feeds_def insert_rebuilt_feeds_def legacy_sources_table_def external_sources_table_def feed_of_source_def
      group_of_source_def list_all_iff o_def)

lemma groups_up_eq:
  assumes "legacy_sources_table ss" "source_targets_table ts"
    and "list_all (\<lambda>t. est_source_id t \<in> set (map ls_id ss) \<and> est_vault_id t \<in> set (map vault_id vs)) ts"
  shows "groups_up b vs ss ts = Inr (map group_of_source ss, map target_of_source ts, map feed_of_source ss)"
proof -
  have "migrate_existing_rows_into_groups vs ss ts = Inr (map group_of_source ss, map target_of_source ts)"
    using assms
    by (auto simp: migrate_existing_rows_into_groups_def Let_def legacy_sources_table_def source_targets_table_def
        destination_groups_table_def group_targets_table_def group_of_source_def target_of_source_def list_all_iff o_def)
  then show ?thesis by (simp add: groups_up_def rebuild_feeds_eq [OF assms(1)] alter_feeds_eq)
qed

lemma legacy_of_own_group: "legacy_of_feed (feed_of_source s) (group_of_source s) = s"
  by (simp add: legacy_of_feed_def feed_of_source_def group_of_source_def)

lemma targets_back: "map source_of_target (map target_of_source ts) = ts"
  by (induction ts) (simp_all add: source_of_target_def target_of_source_def)

lemma filter_distinct_key: "distinct (map f xs) \<Longrightarrow> x \<in> set xs \<Longrightarrow> filter (\<lambda>y. f y = f x) xs = [x]"
  by (induction xs) (auto simp: filter_empty_conv rev_image_eqI)

lemma own_group:
  assumes "distinct (map group_id gs)" "g \<in> set gs" "feed_group_id f = group_id g"
  shows "filter (\<lambda>dg. group_id dg = feed_group_id f) gs = [g]" "List.find (\<lambda>dg. group_id dg = feed_group_id f) gs = Some g"
  using filter_distinct_key [OF assms(1,2)] find_distinct [OF assms(1,2)] assms(3) by simp_all

lemma rebuild_sources_eq:
  assumes "destination_groups_table gs" "external_sources_table fs" "list_all (\<lambda>f. feed_group_id f \<in> set (map group_id gs)) fs"
  shows "revert_sources_directly b gs fs = (if b = MySql then Inl SyntaxError else rebuild_sources gs fs)"
proof -
  define grp where "grp f = hd (filter (\<lambda>dg. group_id dg = feed_group_id f) gs)" for f :: external_source
  have d: "distinct (map group_id gs)" using assms(1) by (simp add: destination_groups_table_def)
  have own: "filter (\<lambda>dg. group_id dg = feed_group_id f) gs = [grp f]" "List.find (\<lambda>dg. group_id dg = feed_group_id f) gs = Some (grp f)"
    if f: "f \<in> set fs" for f
  proof -
    obtain g where "g \<in> set gs" "feed_group_id f = group_id g" using assms(3) f by (auto simp: list_all_iff)
    from own_group [OF d this] show "filter (\<lambda>dg. group_id dg = feed_group_id f) gs = [grp f]"
      "List.find (\<lambda>dg. group_id dg = feed_group_id f) gs = Some (grp f)" by (simp_all add: grp_def)
  qed
  let ?rows = "map (\<lambda>f. legacy_of_feed f (grp f)) fs"
  have rows: "concat (map (\<lambda>es. map (legacy_of_feed es) (filter (\<lambda>dg. group_id dg = feed_group_id es) gs)) fs) = ?rows"
    using own(1) by (induction fs) auto
  have "legacy_sources_table ?rows"
    using assms(2) by (simp add: legacy_sources_table_def external_sources_table_def legacy_of_feed_def o_def)
  then have l: "rebuild_sources gs fs = Inr ?rows" unfolding rebuild_sources_def Let_def rows by simp
  have upd: "drop_feed_columns (update_from_group gs (add_source_columns f)) = Some (legacy_of_feed f (grp f))"
    "rf_cron_schedule (update_from_group gs (add_source_columns f)) \<noteq> None"
    "rf_target_group_name (update_from_group gs (add_source_columns f)) \<noteq> None" if "f \<in> set fs" for f
  proof -
    have [simp]: "feed_group_id (add_source_columns f) = feed_group_id f"
      by (simp add: add_source_columns_def external_source.extend_def)
    show "drop_feed_columns (update_from_group gs (add_source_columns f)) = Some (legacy_of_feed f (grp f))"
      "rf_cron_schedule (update_from_group gs (add_source_columns f)) \<noteq> None"
      "rf_target_group_name (update_from_group gs (add_source_columns f)) \<noteq> None"
      by (simp_all add: update_from_group_def own(2) [OF that])
        (simp add: drop_feed_columns_def legacy_of_feed_def add_source_columns_def external_source.extend_def reverted_feed.fields_def)
  qed
  then have "List.map_filter drop_feed_columns (map (update_from_group gs) (map add_source_columns fs)) = ?rows"
    by (induction fs) (simp_all add: List.map_filter_simps)
  moreover have "list_all (\<lambda>es. rf_cron_schedule es \<noteq> None \<and> rf_target_group_name es \<noteq> None) (map (update_from_group gs) (map add_source_columns fs))"
    using upd(2,3) by (simp add: list_all_iff)
  ultimately show ?thesis using l by (simp add: revert_sources_directly_def Let_def)
qed

lemma marker_up_iff: "marker_up keys = Inr () \<longleftrightarrow> master_marker_index keys"
  by (simp add: marker_up_def master_marker_index_def Let_def)

lemma bogon_round_trip: "map bogon_down (map bogon_up ts) = ts"
  by (induction ts) (simp_all add: bogon_down_def bogon_up_def)

definition migrated :: "legacy_db \<Rightarrow> database" where
  "migrated db = \<lparr>api_keys = l_keys db, permissions = l_permissions db, vaults = l_vaults db,
     groups = map group_of_source (l_sources db), group_targets = map target_of_source (l_source_targets db),
     feeds = map feed_of_source (l_sources db), tasks = map bogon_up (l_tasks db), task_targets = l_task_targets db,
     sync_logs = l_sync_logs db, audit_logs = map attributed (l_audit db)\<rparr>"

lemma migrated_ok:
  assumes "legacy_ok db" "master_marker_index (l_keys db)"
  shows "db_ok (migrated db)"
proof -
  have ids: "map group_id (map group_of_source ss) = map ls_id ss" "map group_name (map group_of_source ss) = map ls_name ss"
    "map feed_id (map feed_of_source ss) = map ls_id ss" "map feed_name (map feed_of_source ss) = map ls_name ss"
    "map feed_group_id (map feed_of_source ss) = map ls_id ss" for ss
    by (simp_all add: group_of_source_def feed_of_source_def o_def)
  have tids: "map task_id (map bogon_up ts) = map lt_id ts" "map task_name (map bogon_up ts) = map lt_name ts" for ts
    by (simp_all add: bogon_up_def o_def)
  have "map alog_id (map attributed ls) = map la_id ls" for ls by (simp add: attributed_def o_def)
  moreover have "map (\<lambda>t. (gt_group_id t, gt_vault_id t)) (map target_of_source ts) = map (\<lambda>t. (est_source_id t, est_vault_id t)) ts" for ts
    by (simp add: target_of_source_def o_def)
  ultimately have "unique_ok (migrated db)"
    using assms ids tids unfolding unique_ok_def table_defs migrated_def legacy_ok_def legacy_sources_table_def source_targets_table_def
    by (simp del: map_map)
  moreover have "fk_ok (migrated db)"
    using assms(1) unfolding fk_ok_def legacy_ok_def
    by (auto simp: has_key_def has_vault_def has_group_def has_task_def migrated_def list_all_iff group_of_source_def
        target_of_source_def feed_of_source_def bogon_up_def attributed_def image_iff)
  ultimately show ?thesis by (simp add: db_ok_def)
qed

lemma migrate_up_eq:
  assumes "legacy_ok db"
  shows "migrate_up b db = Inr db' \<longleftrightarrow> master_marker_index (l_keys db) \<and> db' = migrated db"
proof -
  have g: "groups_up b (l_vaults db) (l_sources db) (l_source_targets db) =
      Inr (map group_of_source (l_sources db), map target_of_source (l_source_targets db), map feed_of_source (l_sources db))"
    by (rule groups_up_eq) (use assms in \<open>simp_all add: legacy_ok_def\<close>)
  show ?thesis
  proof (cases "master_marker_index (l_keys db)")
    case True
    then show ?thesis by (auto simp: migrate_up_def marker_up_iff [THEN iffD2] attribution_up_eq read_filled migrated_def g)
  next
    case False
    then have "marker_up (l_keys db) \<noteq> Inr ()" by (simp add: marker_up_iff)
    with False show ?thesis by (cases "marker_up (l_keys db)") (auto simp: migrate_up_def)
  qed
qed

section \<open>Properties\<close>

text \<open>
  C31. Upgrading succeeds and loses nothing, on every backend alike: a database of the initial schema
  with at most one Master becomes the same database whether the tables are rebuilt or altered in
  place, every constraint of the new schema holds in it, each source is a group with one feed of
  the same id and its targets, and unattributed audit rows say so. A database with several
  Masters is refused.\<close>

theorem migration_complete:
  assumes "legacy_ok db"
  shows "migrate_up b db = (if length (filter is_master (l_keys db)) \<le> 1 then Inr (migrated db)
      else Inl (Custom (''refusing to add master_marker: '' @ dec (length (filter is_master (l_keys db)))
             @ '' rows already have is_master=true, expected at most 1''))) \<and>
    (length (filter is_master (l_keys db)) \<le> 1 \<longrightarrow> db_ok (migrated db))"
proof (cases "length (filter is_master (l_keys db)) \<le> 1")
  case True
  then have m: "master_marker_index (l_keys db)" by (simp add: master_marker_index_def)
  from migrate_up_eq [OF assms] True migrated_ok [OF assms m] m show ?thesis by simp
next
  case False
  then show ?thesis by (simp add: migrate_up_def marker_up_def Let_def)
qed

lemma groups_round_trip:
  assumes "legacy_ok db"
  shows "groups_down b (groups (migrated db)) (group_targets (migrated db)) (feeds (migrated db)) =
      (if b = MySql then Inl SyntaxError else Inr (l_sources db, l_source_targets db)) \<and>
    map bogon_down (tasks (migrated db)) = l_tasks db"
proof -
  let ?gs = "map group_of_source (l_sources db)" and ?fs = "map feed_of_source (l_sources db)"
  have t: "legacy_sources_table (l_sources db)" "source_targets_table (l_source_targets db)" using assms by (simp_all add: legacy_ok_def)
  then have tables: "destination_groups_table ?gs" "external_sources_table ?fs" "list_all (\<lambda>f. feed_group_id f \<in> set (map group_id ?gs)) ?fs"
    by (auto simp: legacy_sources_table_def destination_groups_table_def external_sources_table_def group_of_source_def feed_of_source_def
        list_all_iff o_def)
  have d: "distinct (map group_id ?gs)" using tables(1) by (simp add: destination_groups_table_def)
  have own: "map (legacy_of_feed (feed_of_source s)) (filter (\<lambda>dg. group_id dg = feed_group_id (feed_of_source s)) ?gs) = [s]"
    if "s \<in> set (l_sources db)" for s
  proof -
    have "group_of_source s \<in> set ?gs" "feed_group_id (feed_of_source s) = group_id (group_of_source s)"
      using that by (simp_all add: feed_of_source_def group_of_source_def)
    from own_group(1) [OF d this] show ?thesis by (simp add: legacy_of_own_group)
  qed
  have "concat (map (\<lambda>es. map (legacy_of_feed es) (filter (\<lambda>dg. group_id dg = feed_group_id es) ?gs)) (map feed_of_source ss)) = ss"
    if "set ss \<subseteq> set (l_sources db)" for ss
    using that own by (induction ss) auto
  then have "rebuild_sources ?gs ?fs = Inr (l_sources db)" using t(1) unfolding rebuild_sources_def Let_def by simp
  with rebuild_sources_eq [OF tables] t(2) targets_back [of "l_source_targets db"] show ?thesis
    by (simp add: groups_down_def migrated_def bogon_round_trip del: map_map)
qed

text \<open>
  C32. Rolling back right after the upgrade gives the old database again, on SQLite and PostgreSQL
  alike, but for the attribution of audit rows: what was unknown stays marked as unknown. On
  MySQL the rollback always stops with an error.\<close>

theorem migration_round_trip:
  assumes "legacy_ok db"
  shows "migrate_down b (migrated db) =
    (if b = MySql then Inl SyntaxError else Inr (db\<lparr>l_audit := map filled_row (l_audit db)\<rparr>))"
proof -
  have "map audit_of_log (audit_logs (migrated db)) = map filled_row (l_audit db)"
    by (simp add: migrated_def audit_of_log_def attributed_def filled_row_def)
  moreover have "api_keys (migrated db) = l_keys db" "permissions (migrated db) = l_permissions db" "vaults (migrated db) = l_vaults db"
    "task_targets (migrated db) = l_task_targets db" "sync_logs (migrated db) = l_sync_logs db" by (simp_all add: migrated_def)
  ultimately show ?thesis
    using groups_round_trip [OF assms, of b] by (simp add: migrate_down_def attribution_round_trip del: map_map)
qed

text \<open>
  A rollback is not exact once feeds have been added: a feed that shares its group with others
  becomes a source of its own, under the schedule of the group but without any target, although
  the group it came from had targets.\<close>

theorem rollback_detaches_added_feeds:
  assumes "db_ok db" "groups_down b (groups db) (group_targets db) (feeds db) = Inr (ss, ts)"
    and "f \<in> set (feeds db)" "g \<in> set (groups db)" "feed_group_id f = group_id g" "\<not> has_group db (feed_id f)"
  shows "legacy_of_feed f g \<in> set ss \<and> feed_id f \<notin> est_source_id ` set ts"
proof -
  have tables: "destination_groups_table (groups db)" "external_sources_table (feeds db)"
    "list_all (\<lambda>f. feed_group_id f \<in> set (map group_id (groups db))) (feeds db)"
    using assms(1) by (auto simp: db_ok_def unique_ok_def fk_ok_def has_group_def)
  have d: "distinct (map group_id (groups db))" using tables(1) by (simp add: destination_groups_table_def)
  have "rebuild_sources (groups db) (feeds db) = Inr ss"
    using assms(2) rebuild_sources_eq [OF tables] by (auto simp: groups_down_def Let_def split: if_splits)
  then have "ss = concat (map (\<lambda>es. map (legacy_of_feed es) (filter (\<lambda>dg. group_id dg = feed_group_id es) (groups db))) (feeds db))"
    by (simp add: rebuild_sources_def Let_def split: if_splits)
  then have "legacy_of_feed f g \<in> set ss" using assms(3-5) by (auto intro!: bexI [of _ f] imageI)
  moreover have "ts = map source_of_target (group_targets db)" using assms(2) by (auto simp: groups_down_def Let_def split: if_splits)
  moreover have "feed_id f \<notin> gt_group_id ` set (group_targets db)"
    using assms(1,6) by (auto simp: db_ok_def fk_ok_def list_all_iff)
  ultimately show ?thesis by (auto simp: source_of_target_def)
qed

text \<open>
  Permissions are not carried over: the upgrade leaves every permission row as it is, also those
  on an external source, whose resource is a destination group from then on. So a key that is
  not the Master manages a migrated group only if it already held a row for a group of that id.\<close>

theorem source_permissions_not_migrated:
  assumes "migrate_up b db = Inr db'" "\<not> is_master caller"
    and "\<forall>p. p \<in> set (l_permissions db) \<longrightarrow> perm_resource_type p \<noteq> ''destination_group''"
  shows "permissions db' = l_permissions db \<and> (\<forall>g. g \<in> set (groups db') \<longrightarrow> \<not> manages db' caller ''destination_group'' (group_id g))"
proof -
  have "permissions db' = l_permissions db"
    using assms(1) by (auto simp: migrate_up_def)
  then show ?thesis
    using assms(2,3) by (auto simp: manages_def dest!: find_permission_Some)
qed

section \<open>Witnesses\<close>

definition old_source :: legacy_source where
  "old_source = \<lparr>ls_id = 7, ls_name = ''s'', ls_source_url = ''u'', ls_parser_type = ''REGEX_LINE'', ls_parser_config_json = None,
     ls_cron_schedule = ''0 * * * *'', ls_target_group_name = ''g'', ls_mode = ''upsert'', ls_is_active = True, ls_last_run_at = None,
     ls_owner_key_id = Some 2, ls_created_at = 0, ls_updated_at = 0\<rparr>"

definition old_audit :: legacy_audit where
  "old_audit = \<lparr>la_id = 9, la_api_key_id = None, la_api_key_name = None, la_api_key_prefix = Some ''ab'', la_client_ip = None,
     la_action = ''X'', la_target_resource = None, la_details = None, la_timestamp = 0\<rparr>"

definition old_permission :: permission where
  "old_permission = \<lparr>perm_id = 5, perm_api_key_id = 2, perm_resource_type = ''external_source'', perm_resource_id = 7,
     can_sync = True, can_manage = True, can_view_logs = True, perm_created_at = 0\<rparr>"

definition old_db :: legacy_db where
  "old_db = \<lparr>l_keys = [sample_master, sample_manager], l_permissions = [old_permission], l_vaults = [sample_vault None], l_sources = [old_source],
     l_source_targets = [\<lparr>est_source_id = 7, est_vault_id = 10, est_target_group_name = None\<rparr>], l_tasks = [], l_task_targets = [],
     l_sync_logs = [], l_audit = [old_audit]\<rparr>"

lemma old_db_ok: "legacy_ok old_db" "length (filter is_master (l_keys old_db)) \<le> 1"
  by code_simp+

lemma migration_up_sample: "migrate_up Sqlite old_db = Inr (migrated old_db)"
  by code_simp

theorem migration_complete_witness:
  "migrate_up Sqlite old_db = Inr (migrated old_db) \<and> migrate_up Postgres old_db = Inr (migrated old_db) \<and>
   map alog_api_key_name (audit_logs (migrated old_db)) = [''(unknown)''] \<and> db_ok (migrated old_db)"
proof -
  have "map alog_api_key_name (audit_logs (migrated old_db)) = [''(unknown)'']" by code_simp
  with migration_complete [OF old_db_ok(1), of Sqlite] migration_complete [OF old_db_ok(1), of Postgres] old_db_ok(2)
  show ?thesis by simp
qed

theorem migration_round_trip_witness:
  "migrate_down Postgres (migrated old_db) = Inr (old_db\<lparr>l_audit := [filled_row old_audit]\<rparr>)"
  using migration_round_trip [OF old_db_ok(1), of Postgres] by (simp add: old_db_def)

definition added_feed :: external_source where
  "added_feed = (feed_of_source old_source)\<lparr>feed_id := 8, feed_name := ''t''\<rparr>"

definition two_feeds :: database where
  "two_feeds = (migrated old_db)\<lparr>feeds := [feed_of_source old_source, added_feed]\<rparr>"

theorem rollback_detaches_added_feeds_witness:
  "\<exists>ss ts. groups_down Sqlite (groups two_feeds) (group_targets two_feeds) (feeds two_feeds) = Inr (ss, ts) \<and>
     legacy_of_feed added_feed (group_of_source old_source) \<in> set ss \<and> 8 \<notin> est_source_id ` set ts \<and> group_targets two_feeds \<noteq> []"
proof -
  have ok: "db_ok two_feeds" "\<not> has_group two_feeds (feed_id added_feed)" "feed_id added_feed = 8" "group_targets two_feeds \<noteq> []" by code_simp+
  have "\<not> isl (groups_down Sqlite (groups two_feeds) (group_targets two_feeds) (feeds two_feeds))" by code_simp
  then obtain ss ts where d: "groups_down Sqlite (groups two_feeds) (group_targets two_feeds) (feeds two_feeds) = Inr (ss, ts)"
    by (cases "groups_down Sqlite (groups two_feeds) (group_targets two_feeds) (feeds two_feeds)") auto
  have "added_feed \<in> set (feeds two_feeds)" "group_of_source old_source \<in> set (groups two_feeds)"
    "feed_group_id added_feed = group_id (group_of_source old_source)"
    by (simp_all add: two_feeds_def migrated_def old_db_def added_feed_def feed_of_source_def group_of_source_def)
  from rollback_detaches_added_feeds [OF ok(1) d this ok(2)] d ok(3,4) show ?thesis by auto
qed

theorem source_permissions_not_migrated_witness:
  "\<exists>db'. migrate_up Sqlite old_db = Inr db' \<and> can_manage_keys sample_manager \<and> permissions db' = [old_permission] \<and>
     \<not> manages db' sample_manager ''destination_group'' 7"
proof -
  have m: "migrate_up Sqlite old_db = Inr (migrated old_db)" using migration_up_sample by blast
  have g: "group_of_source old_source \<in> set (groups (migrated old_db))" "group_id (group_of_source old_source) = 7"
    by (simp_all add: migrated_def old_db_def group_of_source_def old_source_def)
  have k: "\<not> is_master sample_manager" "can_manage_keys sample_manager" by code_simp+
  have "permissions (migrated old_db) = l_permissions old_db \<and>
      (\<forall>g. g \<in> set (groups (migrated old_db)) \<longrightarrow> \<not> manages (migrated old_db) sample_manager ''destination_group'' (group_id g))"
    by (rule source_permissions_not_migrated [OF m k(1)]) (simp add: old_db_def old_permission_def)
  with g have "\<not> manages (migrated old_db) sample_manager ''destination_group'' 7" "permissions (migrated old_db) = [old_permission]"
    by (metis, simp add: old_db_def)
  with m k(2) show ?thesis by blast
qed

end
