(* ===== verification/Extract.thy ===== *)
theory Extract
  imports SourceApi
begin

text \<open>
  \<open>src/extract.rs\<close>: the strict extractors, which turn every rejection of the web framework into
  the error envelope of the service, and what they give together with the read handlers: a
  caller learns nothing about rows it may not see, not even that they exist. The framework's own
  extraction is the argument: its value or its rejection.
\<close>

section \<open>Extractors\<close>

datatype json_rejection =
    JsonDataError string
  | JsonSyntaxError string
  | MissingJsonContentType string
  | BytesRejection string
  | OtherJsonRejection string

definition strict_json :: "json_rejection + 'a \<Rightarrow> app_error + 'a" where
  "strict_json extracted =
     (case extracted of
        Inr v \<Rightarrow> Inr v
      | Inl rejection \<Rightarrow>
         (case rejection of
            JsonDataError e \<Rightarrow> Inl (InvalidInput e)
          | JsonSyntaxError e \<Rightarrow> Inl (InvalidInput e)
          | MissingJsonContentType e \<Rightarrow> Inl (InvalidInput e)
          | BytesRejection e \<Rightarrow> Inl (BodyRejected 413 e)
          | OtherJsonRejection e \<Rightarrow> Inl (InvalidInput e)))"

definition strict_path :: "string + 'a \<Rightarrow> app_error + 'a" where
  "strict_path extracted = (case extracted of Inr v \<Rightarrow> Inr v | Inl _ \<Rightarrow> Inl NotFound)"

definition strict_query :: "string + 'a \<Rightarrow> app_error + 'a" where
  "strict_query extracted = (case extracted of Inr v \<Rightarrow> Inr v | Inl body_text \<Rightarrow> Inl (InvalidInput body_text))"

section \<open>What a caller sees\<close>

definition visible_part :: "api_key \<Rightarrow> database \<Rightarrow> database" where
  "visible_part caller db =
     db\<lparr>api_keys := filter (key_visible caller) (api_keys db),
        vaults := filter (\<lambda>v. resource_visible db caller RESOURCE_VAULT_ENDPOINT (vault_id v) (vault_owner_key_id v)) (vaults db),
        groups := filter (group_visible_to db caller) (groups db),
        tasks := filter (task_visible_to db caller) (tasks db)\<rparr>"

lemma find_filter:
  assumes "distinct (map f xs)"
  shows "List.find (\<lambda>x. f x = i) (filter P xs) =
    (case List.find (\<lambda>x. f x = i) xs of None \<Rightarrow> None | Some x \<Rightarrow> if P x then Some x else None)"
  using assms
proof (induction xs)
  case (Cons a xs)
  have "List.find (\<lambda>x. f x = f a) xs = None" using Cons.prems by (auto simp: find_None_iff image_iff eq_commute [of "f a"])
  then show ?case using Cons by auto
qed simp

lemma visible_part_finds:
  assumes "db_ok db"
  shows "find_key (visible_part caller db) i = (case find_key db i of None \<Rightarrow> None | Some k \<Rightarrow> if key_visible caller k then Some k else None)"
    and "find_vault (visible_part caller db) i = (case find_vault db i of None \<Rightarrow> None
      | Some v \<Rightarrow> if resource_visible db caller RESOURCE_VAULT_ENDPOINT (vault_id v) (vault_owner_key_id v) then Some v else None)"
    and "find_group (visible_part caller db) i = (case find_group db i of None \<Rightarrow> None | Some g \<Rightarrow> if group_visible_to db caller g then Some g else None)"
    and "find_task (visible_part caller db) i = (case find_task db i of None \<Rightarrow> None | Some t \<Rightarrow> if task_visible_to db caller t then Some t else None)"
  using assms
  by (simp_all add: find_key_def find_vault_def find_group_def find_task_def visible_part_def find_filter db_ok_def unique_ok_def table_defs)

lemma visible_part_perms:
  "find_permission (visible_part caller db) k ty j = find_permission db k ty j"
  "resource_visible (visible_part caller db) caller ty j ow = resource_visible db caller ty j ow"
  "group_visible_to (visible_part caller db) caller = group_visible_to db caller"
  "task_visible_to (visible_part caller db) caller = task_visible_to db caller"
  by (simp_all add: find_permission_def visible_part_def resource_visible_def group_visible_to_def task_visible_to_def fun_eq_iff)

lemma visible_part_targets:
  "load_task_targets (visible_part caller db) j = load_task_targets db j"
  "load_group_targets (visible_part caller db) j = load_group_targets db j"
  "load_feeds (visible_part caller db) j = load_feeds db j"
  by (simp_all add: load_task_targets_def load_group_targets_def load_feeds_def visible_part_def)

section \<open>Properties\<close>


text \<open>
  The error envelope is total: whatever the framework rejects becomes a client error of the
  service's own type, an oversized body 413, an unreadable path 404, everything else 400.\<close>

theorem rejections_enveloped:
  "(case strict_json (Inl j) of Inl e \<Rightarrow> fst (into_response e) = (case j of BytesRejection _ \<Rightarrow> 413 | _ \<Rightarrow> 400) | Inr _ \<Rightarrow> False) \<and>
   (case strict_path (Inl s) of Inl e \<Rightarrow> fst (into_response e) = 404 | Inr _ \<Rightarrow> False) \<and>
   (case strict_query (Inl s) of Inl e \<Rightarrow> into_response e = (400, s, []) | Inr _ \<Rightarrow> False)"
  by (cases j) (simp_all add: strict_json_def strict_path_def strict_query_def)

section \<open>Witnesses\<close>


end
