(* ===== verification/Router.thy ===== *)
theory Router
  imports Service
begin

text \<open>
  \<open>create_app\<close> of \<open>src/lib.rs\<close>: the route table itself. Which pattern a path matches is the web
  framework's business, so the matcher is an argument; \<open>path_matching\<close> states what its
  documentation promises, segment by segment. \<open>create_app\<close> says which handler a method and a path
  reach and whether the authentication layer is in front of it.
\<close>

section \<open>Patterns\<close>

datatype segment = Static string | Capture

definition pattern_of :: "string \<Rightarrow> segment list" where
  "pattern_of pat = map (\<lambda>s. if starts_with ''{'' s then Capture else Static s) (split_char (CHR ''/'') pat)"

fun segment_matches :: "segment \<Rightarrow> string \<Rightarrow> bool" where
  "segment_matches (Static s) x \<longleftrightarrow> x = s"
| "segment_matches Capture x \<longleftrightarrow> x \<noteq> []"

definition path_matches :: "string \<Rightarrow> string \<Rightarrow> bool" where
  "path_matches pat path = list_all2 segment_matches (pattern_of pat) (split_char (CHR ''/'') path)"

locale path_matching =
  fixes mt :: "string \<Rightarrow> string \<Rightarrow> bool"
  assumes matches_iff: "mt pat path \<longleftrightarrow> list_all2 segment_matches (pattern_of pat) (split_char (CHR ''/'') path)"

interpretation segmentwise: path_matching path_matches
  by unfold_locales (simp add: path_matches_def)

section \<open>The route table\<close>

datatype http_method = HEAD | GET | POST | PUT | PATCH | DELETE

datatype handler =
    Health_check | Readiness_check
  | Get_me | List_api_keys | Create_api_key | Get_api_key | Update_api_key | Delete_api_key | Rotate_api_key
  | Rotate_signing_secret | List_key_permissions | Grant_key_permission | Revoke_key_permission
  | List_vault_endpoints | Create_vault_endpoint | Get_vault_endpoint | Update_vault_endpoint | Delete_vault_endpoint
  | Test_fetch_external_source
  | List_destination_groups | Create_destination_group | Get_destination_group | Update_destination_group
  | Delete_destination_group | Trigger_destination_group | Create_feed | Update_feed | Delete_feed
  | List_vault_sync_tasks | Create_vault_sync_task | Get_vault_sync_task | Update_vault_sync_task
  | Delete_vault_sync_task | Trigger_vault_sync_task
  | List_sync_logs | List_audit_logs

type_synonym route = "string \<times> (http_method \<times> handler) list"

definition api_routes :: "route list" where
  "api_routes =
     [(''/auth/me'', [(GET, Get_me)]),
      (''/keys'', [(GET, List_api_keys), (POST, Create_api_key)]),
      (''/keys/{id}'', [(GET, Get_api_key), (PATCH, Update_api_key), (DELETE, Delete_api_key)]),
      (''/keys/{id}/rotate'', [(POST, Rotate_api_key)]),
      (''/keys/{id}/rotate-secret'', [(POST, Rotate_signing_secret)]),
      (''/keys/{id}/permissions'', [(GET, List_key_permissions), (PUT, Grant_key_permission)]),
      (''/keys/{id}/permissions/{permission_id}'', [(DELETE, Revoke_key_permission)]),
      (''/vaults'', [(GET, List_vault_endpoints), (POST, Create_vault_endpoint)]),
      (''/vaults/{id}'', [(GET, Get_vault_endpoint), (PATCH, Update_vault_endpoint), (DELETE, Delete_vault_endpoint)]),
      (''/sources/test-fetch'', [(POST, Test_fetch_external_source)]),
      (''/destination-groups'', [(GET, List_destination_groups), (POST, Create_destination_group)]),
      (''/destination-groups/{id}'', [(GET, Get_destination_group), (PATCH, Update_destination_group), (DELETE, Delete_destination_group)]),
      (''/destination-groups/{id}/trigger'', [(POST, Trigger_destination_group)]),
      (''/destination-groups/{group_id}/feeds'', [(POST, Create_feed)]),
      (''/destination-groups/{group_id}/feeds/{feed_id}'', [(PATCH, Update_feed), (DELETE, Delete_feed)]),
      (''/sync-tasks'', [(GET, List_vault_sync_tasks), (POST, Create_vault_sync_task)]),
      (''/sync-tasks/{id}'', [(GET, Get_vault_sync_task), (PATCH, Update_vault_sync_task), (DELETE, Delete_vault_sync_task)]),
      (''/sync-tasks/{id}/trigger'', [(POST, Trigger_vault_sync_task)]),
      (''/sync-logs'', [(GET, List_sync_logs)]),
      (''/audit-logs'', [(GET, List_audit_logs)])]"

definition public_routes :: "route list" where
  "public_routes =
     [(''/health'', [(GET, Health_check)]),
      (''/healthz'', [(GET, Health_check)]),
      (''/ready'', [(GET, Readiness_check)]),
      (''/readyz'', [(GET, Readiness_check)])]"

definition nested_routes :: "route list" where
  "nested_routes = map (\<lambda>(pat, hs). (''/api'' @ pat, hs)) api_routes"

text \<open>A \<open>get\<close> route also answers \<open>HEAD\<close>. \<open>None\<close> is the refusal of the method.\<close>

definition method_handler :: "(http_method \<times> handler) list \<Rightarrow> http_method \<Rightarrow> handler option" where
  "method_handler hs m =
     (case map_of hs m of
        Some h \<Rightarrow> Some h
      | None \<Rightarrow> if m = HEAD then map_of hs GET else None)"

datatype routed = Public "handler option" | Protected "handler option" | StaticFile

definition create_app :: "(string \<Rightarrow> string \<Rightarrow> bool) \<Rightarrow> http_method \<Rightarrow> string \<Rightarrow> routed" where
  "create_app mt m path =
     (case List.find (\<lambda>(pat, _). mt pat path) public_routes of
        Some (_, hs) \<Rightarrow> Public (method_handler hs m)
      | None \<Rightarrow>
         (case List.find (\<lambda>(pat, _). mt pat path) nested_routes of
            Some (_, hs) \<Rightarrow> Protected (method_handler hs m)
          | None \<Rightarrow> StaticFile))"

section \<open>The handler of a call\<close>

fun key_handler :: "key_request \<Rightarrow> handler" where
  "key_handler (CreateKey _) = Create_api_key"
| "key_handler (UpdateKey _ _) = Update_api_key"
| "key_handler (DeleteKey _) = Delete_api_key"
| "key_handler (RotateKey _) = Rotate_api_key"
| "key_handler (RotateSecret _) = Rotate_signing_secret"
| "key_handler (GrantPermission _ _) = Grant_key_permission"
| "key_handler (RevokePermission _ _) = Revoke_key_permission"

fun vault_handler :: "vault_request \<Rightarrow> handler" where
  "vault_handler (CreateVault _) = Create_vault_endpoint"
| "vault_handler (UpdateVault _ _) = Update_vault_endpoint"
| "vault_handler (DeleteVault _) = Delete_vault_endpoint"

fun source_handler :: "source_request \<Rightarrow> handler" where
  "source_handler (CreateGroup _) = Create_destination_group"
| "source_handler (UpdateGroup _ _) = Update_destination_group"
| "source_handler (DeleteGroup _) = Delete_destination_group"
| "source_handler (CreateFeed _ _) = Create_feed"
| "source_handler (UpdateFeed _ _ _) = Update_feed"
| "source_handler (DeleteFeed _ _) = Delete_feed"

fun task_handler :: "task_request \<Rightarrow> handler" where
  "task_handler (CreateTask _) = Create_vault_sync_task"
| "task_handler (UpdateTask _ _) = Update_vault_sync_task"
| "task_handler (DeleteTask _) = Delete_vault_sync_task"

fun read_handler :: "read_request \<Rightarrow> handler" where
  "read_handler ReadMe = Get_me"
| "read_handler ReadKeys = List_api_keys"
| "read_handler (ReadKey _) = Get_api_key"
| "read_handler (ReadPermissions _) = List_key_permissions"
| "read_handler ReadVaults = List_vault_endpoints"
| "read_handler (ReadVault _) = Get_vault_endpoint"
| "read_handler ReadGroups = List_destination_groups"
| "read_handler (ReadGroup _) = Get_destination_group"
| "read_handler ReadTasks = List_vault_sync_tasks"
| "read_handler (ReadTask _) = Get_vault_sync_task"
| "read_handler (ReadSyncLogs _) = List_sync_logs"
| "read_handler (ReadAuditLogs _) = List_audit_logs"

fun call_handler :: "api_call \<Rightarrow> handler" where
  "call_handler (KeyCall r) = key_handler r"
| "call_handler (VaultCall r) = vault_handler r"
| "call_handler (SourceCall r) = source_handler r"
| "call_handler (TriggerGroupCall _) = Trigger_destination_group"
| "call_handler (TestFetchCall _) = Test_fetch_external_source"
| "call_handler (TaskCall r) = task_handler r"
| "call_handler (TriggerTaskCall _) = Trigger_vault_sync_task"
| "call_handler (ReadCall r) = read_handler r"

section \<open>No two routes compete\<close>

fun segments_compatible :: "segment \<Rightarrow> segment \<Rightarrow> bool" where
  "segments_compatible (Static s) (Static t) \<longleftrightarrow> s = t"
| "segments_compatible (Static s) Capture \<longleftrightarrow> s \<noteq> []"
| "segments_compatible Capture (Static t) \<longleftrightarrow> t \<noteq> []"
| "segments_compatible Capture Capture \<longleftrightarrow> True"

definition compete :: "string \<Rightarrow> string \<Rightarrow> bool" where
  "compete p q = list_all2 segments_compatible (pattern_of p) (pattern_of q)"

lemma segments_meet: "segment_matches p x \<Longrightarrow> segment_matches q x \<Longrightarrow> segments_compatible p q"
  by (cases p; cases q) auto

fun exclusive :: "string list \<Rightarrow> bool" where
  "exclusive [] = True"
| "exclusive (p # ps) = (list_all (\<lambda>q. \<not> compete p q) ps \<and> exclusive ps)"

lemma table_exclusive: "exclusive (map fst (public_routes @ nested_routes))"
  by code_simp

lemma parts_exclusive: "exclusive (map fst public_routes)" "exclusive (map fst nested_routes)"
  by code_simp+

lemma nested_in: "(pat, hs) \<in> set nested_routes \<longleftrightarrow> (\<exists>p. pat = ''/api'' @ p \<and> (p, hs) \<in> set api_routes)"
  by (auto simp: nested_routes_def)

context path_matching
begin

lemma both_match: "mt p path \<Longrightarrow> mt q path \<Longrightarrow> compete p q"
  by (simp add: matches_iff compete_def list_all2_conv_all_nth) (metis segments_meet)

lemma find_exclusive:
  assumes "exclusive (map fst rs)"
  shows "List.find (\<lambda>(pat, _). mt pat path) rs = Some (pat, hs) \<longleftrightarrow> (pat, hs) \<in> set rs \<and> mt pat path"
  using assms
proof (induction rs)
  case (Cons r rs)
  obtain p gs where r: "r = (p, gs)" by (cases r)
  have "\<not> mt q path" if "mt p path" "(q, ks) \<in> set rs" for q ks
    using Cons.prems that both_match by (force simp: r list_all_iff)
  with Cons show ?case by (auto simp: r)
qed simp

lemma find_append_exclusive:
  assumes "exclusive (map fst (rs @ ss))" "List.find (\<lambda>(pat, _). mt pat path) ss = Some r"
  shows "List.find (\<lambda>(pat, _). mt pat path) rs = None"
  using assms
proof (induction rs)
  case (Cons q rs)
  obtain p gs where q: "q = (p, gs)" by (cases q)
  obtain x ks where x: "(x, ks) \<in> set ss" "mt x path" using Cons.prems(2) by (fastforce simp: find_Some_iff in_set_conv_nth)
  have "\<not> mt p path" using Cons.prems(1) x both_match by (force simp: q list_all_iff)
  with Cons show ?case by (auto simp: q)
qed simp

lemma protected_iff:
  "create_app mt m path = Protected r \<longleftrightarrow>
     (\<exists>pat hs. (pat, hs) \<in> set api_routes \<and> mt (''/api'' @ pat) path \<and> method_handler hs m = r)"
proof -
  let ?find = "List.find (\<lambda>(pat, _). mt pat path)"
  have "create_app mt m path = Protected r \<longleftrightarrow> (\<exists>pat hs. ?find nested_routes = Some (pat, hs) \<and> method_handler hs m = r)"
  proof (cases "?find nested_routes")
    case None
    then show ?thesis by (auto simp: create_app_def split: option.splits)
  next
    case (Some e)
    with find_append_exclusive [OF table_exclusive] have "?find public_routes = None" by blast
    with Some show ?thesis by (cases e) (simp add: create_app_def)
  qed
  then show ?thesis unfolding find_exclusive [OF parts_exclusive(2)] nested_in by blast
qed

lemma matches_itself: "mt pat pat"
  by (auto simp: matches_iff pattern_of_def list_all2_map1 list_all2_same starts_with_def)

end

definition handlers :: "route list \<Rightarrow> handler set" where
  "handlers rs = (\<Union>(pat, hs) \<in> set rs. snd ` set hs)"

lemma method_handler_in: "method_handler hs m = Some h \<Longrightarrow> h \<in> snd ` set hs"
  by (force simp: method_handler_def split: option.splits if_splits dest!: map_of_SomeD)

lemma public_handlers: "handlers public_routes = {Health_check, Readiness_check}"
  by (auto simp: handlers_def public_routes_def)

lemma call_handler_range: "(\<exists>call. call_handler call = h) \<longleftrightarrow> h \<notin> {Health_check, Readiness_check}"
proof
  assume "\<exists>call. call_handler call = h"
  then obtain call where h: "h = call_handler call" by blast
  show "h \<notin> {Health_check, Readiness_check}"
  proof (cases call)
    case (KeyCall r) then show ?thesis unfolding h by (cases r) simp_all
  next
    case (VaultCall r) then show ?thesis unfolding h by (cases r) simp_all
  next
    case (SourceCall r) then show ?thesis unfolding h by (cases r) simp_all
  next
    case (TaskCall r) then show ?thesis unfolding h by (cases r) simp_all
  next
    case (ReadCall r) then show ?thesis unfolding h by (cases r) simp_all
  qed (simp_all add: h)
next
  assume "h \<notin> {Health_check, Readiness_check}"
  then show "\<exists>call. call_handler call = h"
    by (cases h) (simp; metis call_handler.simps key_handler.simps vault_handler.simps source_handler.simps task_handler.simps read_handler.simps)+
qed

section \<open>Properties\<close>

text \<open>
  C33. The route table is unambiguous and closed: a request reaches a handler behind the
  authentication layer exactly when some entry of the table matches its path and has its method,
  whatever the order of the entries; without that layer only the two probes can be reached; and
  whatever lies under no entry is a static file.\<close>

theorem routing_exact:
  assumes "path_matching mt"
  shows "(create_app mt m path = Protected r \<longleftrightarrow>
      (\<exists>pat hs. (pat, hs) \<in> set api_routes \<and> mt (''/api'' @ pat) path \<and> method_handler hs m = r)) \<and>
    (create_app mt m path = Public (Some h) \<longrightarrow> h = Health_check \<or> h = Readiness_check) \<and>
    (create_app mt m path = StaticFile \<longleftrightarrow> (\<forall>pat. pat \<in> fst ` set (public_routes @ nested_routes) \<longrightarrow> \<not> mt pat path))"
proof -
  let ?find = "List.find (\<lambda>(pat, _). mt pat path)"
  note one = path_matching.find_exclusive [OF assms]
  have public: "h = Health_check \<or> h = Readiness_check" if app: "create_app mt m path = Public (Some h)"
  proof -
    obtain pat hs where "?find public_routes = Some (pat, hs)" "method_handler hs m = Some h"
      using app by (auto simp: create_app_def split: option.splits)
    then have "h \<in> handlers public_routes" using method_handler_in by (fastforce simp: one [OF parts_exclusive(1)] handlers_def)
    then show ?thesis by (simp add: public_handlers)
  qed
  have static: "create_app mt m path = StaticFile \<longleftrightarrow> ?find public_routes = None \<and> ?find nested_routes = None"
    by (auto simp: create_app_def split: option.splits)
  show ?thesis
    unfolding path_matching.protected_iff [OF assms] static find_None_iff using public by (auto 4 3)
qed

text \<open>
  The calls the process is modelled with are exactly the handlers that can be reached behind the
  authentication layer.\<close>

theorem calls_are_routes:
  assumes "path_matching mt"
  shows "(\<exists>m path. create_app mt m path = Protected (Some h)) \<longleftrightarrow> (\<exists>call. call_handler call = h)"
proof -
  have "(\<exists>m path. create_app mt m path = Protected (Some h)) \<longleftrightarrow> h \<in> handlers api_routes"
  proof
    assume "\<exists>m path. create_app mt m path = Protected (Some h)"
    then show "h \<in> handlers api_routes"
      using method_handler_in by (fastforce simp: path_matching.protected_iff [OF assms] handlers_def)
  next
    assume "h \<in> handlers api_routes"
    then obtain pat hs m where e: "(pat, hs) \<in> set api_routes" "(m, h) \<in> set hs" by (auto simp: handlers_def)
    have "list_all (\<lambda>(_, hs). distinct (map fst hs)) api_routes" by code_simp
    with e have "method_handler hs m = Some h" by (auto simp: list_all_iff method_handler_def)
    with e(1) path_matching.matches_itself [OF assms] show "\<exists>m path. create_app mt m path = Protected (Some h)"
      unfolding path_matching.protected_iff [OF assms] by blast
  qed
  also have "\<dots> \<longleftrightarrow> h \<notin> {Health_check, Readiness_check}"
    by (cases h) (simp_all add: handlers_def api_routes_def)
  also have "\<dots> \<longleftrightarrow> (\<exists>call. call_handler call = h)"
    using call_handler_range by blast
  finally show ?thesis .
qed

section \<open>Witnesses\<close>

theorem routing_exact_witness:
  "create_app path_matches GET ''/api/keys/7'' = Protected (Some Get_api_key) \<and>
   create_app path_matches PUT ''/api/keys/7'' = Protected None \<and> create_app path_matches GET ''/index.html'' = StaticFile"
proof -
  have e: "(''/keys/{id}'', [(GET, Get_api_key), (PATCH, Update_api_key), (DELETE, Delete_api_key)]) \<in> set api_routes"
    "path_matches (''/api'' @ ''/keys/{id}'') ''/api/keys/7''" by (simp add: api_routes_def, code_simp)
  have "\<not> list_ex (\<lambda>pat. path_matches pat ''/index.html'') (map fst (public_routes @ nested_routes))" by code_simp
  then have "\<forall>pat. pat \<in> fst ` set (public_routes @ nested_routes) \<longrightarrow> \<not> path_matches pat ''/index.html''" by (auto simp: list_ex_iff)
  then have static: "create_app path_matches GET ''/index.html'' = StaticFile"
    using routing_exact [OF segmentwise.path_matching_axioms, of GET "''/index.html''"] by blast
  have m: "method_handler [(GET, Get_api_key), (PATCH, Update_api_key), (DELETE, Delete_api_key)] GET = Some Get_api_key"
    "method_handler [(GET, Get_api_key), (PATCH, Update_api_key), (DELETE, Delete_api_key)] PUT = None"
    by (simp_all add: method_handler_def)
  have "create_app path_matches GET ''/api/keys/7'' = Protected (Some Get_api_key)"
    by (rule routing_exact [OF segmentwise.path_matching_axioms, THEN conjunct1, THEN iffD2]) (intro exI conjI, (rule e m)+)
  moreover have "create_app path_matches PUT ''/api/keys/7'' = Protected None"
    by (rule routing_exact [OF segmentwise.path_matching_axioms, THEN conjunct1, THEN iffD2]) (intro exI conjI, (rule e m)+)
  ultimately show ?thesis using static by (intro conjI)
qed

theorem calls_are_routes_witness:
  "(\<exists>m path. create_app path_matches m path = Protected (Some Delete_feed)) \<and> call_handler (SourceCall (DeleteFeed 1 2)) = Delete_feed"
  using calls_are_routes [OF segmentwise.path_matching_axioms, of Delete_feed] by (auto intro: exI [of _ "SourceCall (DeleteFeed 1 2)"])

end
