(* ===== verification/Startup.thy ===== *)
theory Startup
  imports Service Migrations
begin

text \<open>
  \<open>src/db.rs\<close> and \<open>run\<close> of \<open>src/main.rs\<close>: from the connection string to a serving process. The
  driver (parsing of SQLite options, the pool, the plain connection, the catalogue query) is a
  record of parameters; what the code decides is which options it asks for. The stored data is
  either of the initial schema or already migrated. The session pragmas set at connection are
  part of the options; the later confirmation pass only logs.
\<close>

section \<open>Connecting\<close>

definition SQLITE_MAX_CONNECTIONS :: nat where
  "SQLITE_MAX_CONNECTIONS = 1"

definition SQLITE_BUSY_TIMEOUT_MS :: nat where
  "SQLITE_BUSY_TIMEOUT_MS = 5000"

datatype journal_mode = JournalDefault | Wal

datatype synchronous = SyncDefault | SyncNormal

record sqlite_options =
  so_file :: string
  so_create_if_missing :: bool
  so_foreign_keys :: bool
  so_journal_mode :: journal_mode
  so_synchronous :: synchronous
  so_busy_timeout_ms :: nat

record 'c db_driver =
  options_from_str :: "string \<Rightarrow> string + sqlite_options"
  pool_connect :: "nat \<Rightarrow> sqlite_options \<Rightarrow> string + 'c"
  plain_connect :: "string \<Rightarrow> string + 'c"
  backend_of :: "'c \<Rightarrow> db_backend"
  catalogue_query :: "'c \<Rightarrow> string \<Rightarrow> string list \<Rightarrow> string + bool"

definition connect :: "'c db_driver \<Rightarrow> string \<Rightarrow> string + 'c" where
  "connect drv database_url =
     (case strip_prefix ''sqlite://'' database_url of
        Some sqlite_url \<Rightarrow>
          ebind (map_err (\<lambda>e. ''invalid DATABASE_URL: '' @ e) (options_from_str drv (''sqlite://'' @ sqlite_url))) (\<lambda>opts.
          map_err (\<lambda>e. ''failed to connect to SQLite: '' @ e)
            (pool_connect drv SQLITE_MAX_CONNECTIONS
              (opts\<lparr>so_create_if_missing := True, so_foreign_keys := True, so_journal_mode := Wal, so_synchronous := SyncNormal,
                    so_busy_timeout_ms := SQLITE_BUSY_TIMEOUT_MS\<rparr>)))
      | None \<Rightarrow> plain_connect drv database_url)"

definition has_index :: "'c db_driver \<Rightarrow> 'c \<Rightarrow> string \<Rightarrow> string \<Rightarrow> string + bool" where
  "has_index drv c table_name index_name =
     catalogue_query drv c
       (case backend_of drv c of
          Sqlite \<Rightarrow> ''SELECT 1 FROM sqlite_master WHERE type = 'index' AND name = ? AND tbl_name = ?''
        | Postgres \<Rightarrow> ''SELECT 1 FROM pg_indexes WHERE indexname = $1 AND tablename = $2''
        | MySql \<Rightarrow> ''SELECT 1 FROM information_schema.statistics WHERE index_name = ? AND table_name = ?'')
       [index_name, table_name]"

section \<open>The whole start\<close>

datatype stored = Legacy legacy_db | Current database

definition run_migrations :: "db_backend \<Rightarrow> stored \<Rightarrow> migration_error + database" where
  "run_migrations b s = (case s of Legacy l \<Rightarrow> migrate_up b l | Current db \<Rightarrow> Inr db)"

datatype run_error =
    ConnectFailed string
  | MigrationFailed migration_error
  | CatalogueFailed string
  | BootFailed boot_error

definition DEFAULT_DATABASE_URL :: string where
  "DEFAULT_DATABASE_URL = ''sqlite://simply_ip_sync.db?mode=rwc''"

definition API_KEYS_TABLE :: string where
  "API_KEYS_TABLE = ''api_keys''"

definition MASTER_MARKER_INDEX :: string where
  "MASTER_MARKER_INDEX = ''idx-api_keys-master_marker''"

text \<open>The pin asks the catalogue for the unique index; a failing query stops the start at that point too.\<close>

definition start_failure :: "string + bool \<Rightarrow> boot_error \<Rightarrow> run_error" where
  "start_failure found e =
     (case found of
        Inl query_error \<Rightarrow> if e = PinRefused MissingUniquenessIndex then CatalogueFailed query_error else BootFailed e
      | Inr _ \<Rightarrow> BootFailed e)"

definition run ::
  "'c db_driver \<Rightarrow> crypto_ops \<Rightarrow> 'n ipnet_ops \<Rightarrow> ('b, 'j) cron_backend \<Rightarrow> environment \<Rightarrow> 'b platform \<Rightarrow> request_env \<Rightarrow> stored
    \<Rightarrow> run_error + (string \<times> string) option \<times> ('n, 'b, 'j) full_state"
where
  "run drv cs nets bk env pf rq s =
     ebind (map_err ConnectFailed (connect drv (or_default DEFAULT_DATABASE_URL (env ''DATABASE_URL'')))) (\<lambda>c.
     ebind (map_err MigrationFailed (run_migrations (backend_of drv c) s)) (\<lambda>db.
     let found = has_index drv c API_KEYS_TABLE MASTER_MARKER_INDEX in
     map_err (start_failure found)
       (fst (start_service cs nets bk env (pf\<lparr>master_index_present := (found = Inr True)\<rparr>) rq db))))"

section \<open>Lemmas\<close>

lemma run_Inr:
  "run drv cs nets bk env pf rq s = Inr (printed, st) \<longleftrightarrow>
     (\<exists>c db db'. connect drv (or_default DEFAULT_DATABASE_URL (env ''DATABASE_URL'')) = Inr c \<and>
        run_migrations (backend_of drv c) s = Inr db \<and>
        start_service cs nets bk env (pf\<lparr>master_index_present := (has_index drv c API_KEYS_TABLE MASTER_MARKER_INDEX = Inr True)\<rparr>) rq db
          = (Inr (printed, st), db'))"
  by (auto simp: run_def Let_def prod_eq_iff)

section \<open>Properties\<close>

text \<open>
  What a process that comes up over a database of the initial schema serves: the migrated rows,
  all constraints on them, the one Master it is pinned to, and one live cron job for each active
  schedulable source and task, under the ids they had.\<close>

theorem run_serves_migrated:
  assumes "reliable_backend bk jobs" "cron_scheduler pf = Inr b" "jobs b = Map.empty" "legacy_ok l" "lineage_ok (migrated l)"
    and "run drv cs nets bk env pf rq (Legacy l) = Inr (printed, st)"
  shows "db_ok (app_db (fs_app st)) \<and> lineage_ok (app_db (fs_app st)) \<and>
    (\<exists>m. filter is_master (api_keys (app_db (fs_app st))) = [m] \<and> pin_cell (fs_pin st) = Some (key_id m)) \<and>
    groups (app_db (fs_app st)) = map group_of_source (l_sources l) \<and> tasks (app_db (fs_app st)) = map bogon_up (l_tasks l) \<and>
    feeds (app_db (fs_app st)) = map feed_of_source (l_sources l) \<and> audit_logs (app_db (fs_app st)) = map attributed (l_audit l) \<and>
    mirrors bk jobs (fs_app st)"
proof -
  obtain c db' where start: "start_service cs nets bk env
      (pf\<lparr>master_index_present := (has_index drv c API_KEYS_TABLE MASTER_MARKER_INDEX = Inr True)\<rparr>) rq (migrated l) = (Inr (printed, st), db')"
    and ok: "db_ok (migrated l)"
    using assms(6) migrated_ok [OF assms(4)] unfolding run_Inr run_migrations_def stored.case migrate_up_eq [OF assms(4)] by blast
  obtain cipher trusted i where boot: "bootstrap_master_key cs env rq (migrated l) = (Inr printed, db')" and sole: "sole_master db' = Inr i"
    and st: "app_db (fs_app st) = db'" "pin_cell (fs_pin st) = Some i" "app_sched (fs_app st) = boot bk db' (scheduler_new b)"
    using start assms(2) unfolding start_service_Inr by auto
  note effect = bootstrap_effect [OF boot ok assms(5)]
  have "map key_id (filter is_master (api_keys db')) = [i]" using sole by (simp add: sole_master_iff)
  then have one: "\<exists>m. filter is_master (api_keys db') = [m] \<and> pin_cell (fs_pin st) = Some (key_id m)" by (auto simp: st)
  have rows: "groups db' = groups (migrated l)" "tasks db' = tasks (migrated l)" "feeds db' = feeds (migrated l)"
    "audit_logs db' = audit_logs (migrated l)"
    using effect by (auto split: if_splits)
  have "mirrors bk jobs (fs_app st)"
    using reliable_backend.boot_mirrors [OF assms(1,3), of db'] effect by (simp add: mirrors_def st)
  with effect one rows show ?thesis by (simp add: st migrated_def)
qed


section \<open>Witnesses\<close>

definition file_driver :: "sqlite_options db_driver" where
  "file_driver = \<lparr>options_from_str = (\<lambda>s. Inr \<lparr>so_file = s, so_create_if_missing = False, so_foreign_keys = False, so_journal_mode = JournalDefault,
       so_synchronous = SyncDefault, so_busy_timeout_ms = 0\<rparr>),
     pool_connect = (\<lambda>n opts. if n = 1 \<and> so_foreign_keys opts then Inr opts else Inl ''refused''),
     plain_connect = (\<lambda>_. Inl ''no server''), backend_of = (\<lambda>_. Sqlite), catalogue_query = (\<lambda>_ _ names. Inr (names \<noteq> []))\<rparr>"

definition no_keys_db :: legacy_db where
  "no_keys_db = old_db\<lparr>l_keys := [], l_permissions := []\<rparr>"

lemma no_keys_ok: "legacy_ok no_keys_db" "l_keys no_keys_db = []" "lineage_ok (migrated no_keys_db)"
  by code_simp+


theorem run_serves_migrated_witness:
  "\<exists>st. run file_driver toy_crypto cidr_ops table_backend Map.empty sample_platform boot_rq (Legacy no_keys_db) =
       Inr (Some (first_secret, first_secret), st) \<and>
     map group_id (groups (app_db (fs_app st))) = [7] \<and> mirrors table_backend table_live (fs_app st)"
proof -
  have "map_option fst (ok_opt (run file_driver toy_crypto cidr_ops table_backend Map.empty sample_platform boot_rq (Legacy no_keys_db))) =
      Some (Some (first_secret, first_secret))" by code_simp
  then obtain st where r: "run file_driver toy_crypto cidr_ops table_backend Map.empty sample_platform boot_rq (Legacy no_keys_db) =
      Inr (Some (first_secret, first_secret), st)"
    by (cases "run file_driver toy_crypto cidr_ops table_backend Map.empty sample_platform boot_rq (Legacy no_keys_db)") (auto simp: ok_opt_def)
  have p: "cron_scheduler sample_platform = Inr empty_jobs" by (simp add: sample_platform_def)
  have "table_live empty_jobs = Map.empty" by (simp add: table_live_def empty_jobs_def fun_eq_iff)
  from run_serves_migrated [OF table_jobs.reliable_backend_axioms p this no_keys_ok(1,3) r]
  have "groups (app_db (fs_app st)) = map group_of_source (l_sources no_keys_db)" "mirrors table_backend table_live (fs_app st)" by blast+
  moreover have "map group_id (map group_of_source (l_sources no_keys_db)) = [7]" by code_simp
  ultimately show ?thesis using r by (intro exI [of _ st]) simp
qed

end
