(* ===== verification/Schedules.thy ===== *)
theory Schedules
  imports Service
begin

text \<open>
  The schedule over the steps of the process: every active row keeps exactly one live cron job
  with its expression, whatever requests come and whatever jobs run. The converse does not hold:
  deleting a vault leaves jobs behind (see \<open>TaskApi\<close>), so the invariant is \<open>covered\<close> and not equality.
\<close>

section \<open>Steps that only look at the rows\<close>

definition wanted_shrinks :: "('b, 'j) cron_backend \<Rightarrow> database \<Rightarrow> database \<Rightarrow> bool" where
  "wanted_shrinks bk db db' \<longleftrightarrow> (\<forall>r. wanted bk db' r = {} \<or> wanted bk db' r = wanted bk db r)"

lemma wanted_same [intro]: "groups db' = groups db \<Longrightarrow> tasks db' = tasks db \<Longrightarrow> wanted_shrinks bk db db'"
  using wanted_cong [of db' db bk] by (simp add: wanted_shrinks_def)

lemma covered_frame:
  assumes "follows covered bk jobs st" "app_sched st' = app_sched st" "wanted_shrinks bk (app_db st) (app_db st')"
  shows "follows covered bk jobs st'"
  using assms by (fastforce simp: follows_def covered_def wanted_shrinks_def)

lemma wanted_single: "c \<in> wanted bk db r \<Longrightarrow> wanted bk db r = {c}"
  by (cases r) (auto simp: active_cron_def split: option.splits if_splits)

lemma fewer_tasks:
  assumes "db_ok db" "groups db' = groups db" "set (tasks db') \<subseteq> set (tasks db)"
  shows "wanted_shrinks bk db db'"
proof -
  have fewer: "find_task db' i = None \<or> find_task db' i = find_task db i" for i
  proof (cases "find_task db' i")
    case (Some t)
    then have "t \<in> set (tasks db)" "task_id t = i" using find_task_Some [OF Some] assms(3) by auto
    with Some assms(1) find_distinct [of task_id "tasks db" t] show ?thesis by (simp add: find_task_def db_ok_defs)
  qed simp
  have "wanted bk db' r = {} \<or> wanted bk db' r = wanted bk db r" for r
  proof (cases r)
    case (IngestGroup i)
    then show ?thesis by (simp add: find_group_def assms(2))
  next
    case (SyncTask i)
    then show ?thesis using fewer [of i] by auto
  qed
  then show ?thesis by (simp add: wanted_shrinks_def)
qed

lemma replaced_group:
  assumes "find_group db i = Some g" "groups db1 = groups db" "tasks db1 = tasks db"
  shows "wanted_shrinks bk db (db1\<lparr>groups := replace_row group_id (g\<lparr>group_last_run_at := x\<rparr>) (groups db1)\<rparr>)" (is "wanted_shrinks bk db ?db")
proof -
  have g: "g \<in> set (groups db)" "group_id g = i" using find_group_Some [OF assms(1)] by simp_all
  then have "has_group db (group_id (g\<lparr>group_last_run_at := x\<rparr>))" by (auto simp: has_group_def)
  from find_group_replace [OF this, of ?db] have "find_group ?db j = (if j = i then Some (g\<lparr>group_last_run_at := x\<rparr>) else find_group db j)" for j
    using g(2) assms(2) by simp
  moreover have "find_task ?db j = find_task db j" for j by (simp add: find_task_def assms(3))
  ultimately have "wanted bk ?db r = wanted bk db r" for r using assms(1) by (cases r) simp_all
  then show ?thesis by (simp add: wanted_shrinks_def)
qed

lemma replaced_task:
  assumes "find_task db i = Some t" "groups db1 = groups db" "tasks db1 = tasks db"
  shows "wanted_shrinks bk db (db1\<lparr>tasks := replace_row task_id (t\<lparr>task_last_sync_at := x\<rparr>) (tasks db1)\<rparr>)" (is "wanted_shrinks bk db ?db")
proof -
  have t: "t \<in> set (tasks db)" "task_id t = i" using find_task_Some [OF assms(1)] by simp_all
  then have "has_task db (task_id (t\<lparr>task_last_sync_at := x\<rparr>))" by (auto simp: has_task_def)
  from find_task_replace [OF this, of ?db] have "find_task ?db j = (if j = i then Some (t\<lparr>task_last_sync_at := x\<rparr>) else find_task db j)" for j
    using t(2) assms(3) by simp
  moreover have "find_group ?db j = find_group db j" for j by (simp add: find_group_def assms(2))
  ultimately have "wanted bk ?db r = wanted bk db r" for r using assms(1) by (cases r) simp_all
  then show ?thesis by (simp add: wanted_shrinks_def)
qed

lemma ingest_wanted:
  assumes "ingest_run nets env log_id i db w = Some ((r, db'), w')"
  shows "wanted_shrinks bk db db'"
proof (cases "find_group db i")
  case (Some g)
  then obtain sm where run: "try_h (sql (write_sync_log log_id ''EXTERNAL_FEED'' i (group_name g) sm (utc_now (env_world (ig_client env)) w) db)) db (\<lambda>db1.
      try_h (sql (update_group (g\<lparr>group_last_run_at := Some (utc_now (env_world (ig_client env)) w)\<rparr>) db1)) db1 (\<lambda>db2. (Inr sm, db2))) = (r, db')"
    using assms by (auto simp: ingest_run_def Let_def split: option.splits)
  have "wanted_shrinks bk db (snd (r, db'))"
    unfolding run [symmetric]
    by (intro try_h_snd_cases [where P = "wanted_shrinks bk db"])
      (auto simp: sql_eq_Inr update_group_Inr dest!: log_frame intro: replaced_group [OF Some])
  then show ?thesis by simp
qed (use assms in \<open>auto simp: ingest_run_def Let_def\<close>)

lemma sync_wanted:
  assumes "sync_run nets env log_id i db w = Some ((r, db'), w')"
  shows "wanted_shrinks bk db db'"
proof (cases "find_task db i")
  case (Some t)
  then obtain sm ok where run: "try_h (sql (write_sync_log log_id ''VAULT_SYNC'' i (task_name t) sm (utc_now (env_world env) w) db)) db (\<lambda>db1.
      if ok then try_h (sql (update_task (t\<lparr>task_last_sync_at := Some (utc_now (env_world env) w)\<rparr>) db1)) db1 (\<lambda>db2. (Inr sm, db2)) else (Inr sm, db1))
      = (r, db')"
    using assms by (auto simp: sync_run_def Let_def split: option.splits)
  have "wanted_shrinks bk db (snd (r, db'))"
    unfolding run [symmetric]
    by (intro try_h_snd_cases [where P = "wanted_shrinks bk db"])
      (auto simp: sql_eq_Inr update_task_Inr try_h_def split: sum.splits dest!: log_frame intro: replaced_task [OF Some])
  then show ?thesis by simp
qed (use assms in \<open>auto simp: sync_run_def Let_def\<close>)

lemma wanted_after: "wanted_shrinks bk db1 db' \<Longrightarrow> groups db1 = groups db \<Longrightarrow> tasks db1 = tasks db \<Longrightarrow> wanted_shrinks bk db db'"
  using wanted_cong [of db1 db bk] by (simp add: wanted_shrinks_def)

section \<open>Every step\<close>

lemma scheduled_cover:
  "scheduled_ingest se log_id i st w = Some (st', w') \<Longrightarrow> follows covered bk jobs st \<Longrightarrow> follows covered bk jobs st'"
  "scheduled_sync se log_id i st w = Some (st', w') \<Longrightarrow> follows covered bk jobs st \<Longrightarrow> follows covered bk jobs st'"
  by (auto simp: scheduled_ingest_def scheduled_sync_def split: prod.splits bool.splits
      elim!: covered_frame intro: ingest_wanted sync_wanted)

lemma trigger_cover:
  assumes "follows covered bk jobs st"
  shows "trigger_destination_group nets env rq caller i st w = Some ((r, st'), w') \<Longrightarrow> follows covered bk jobs st'"
    and "trigger_vault_sync_task nets cl rq caller i st w = Some ((r, st'), w') \<Longrightarrow> follows covered bk jobs st'"
proof -
  have g: "wanted_shrinks bk (app_db st) db2"
    if "create_audit_log a b c d e f g (app_db st) = Inr db1" "ingest_run nets env h i db1 w = Some ((x, db2), w2)"
    for a b c d e f g h db1 x db2 w2
    by (rule wanted_after [OF ingest_wanted [OF that(2)]]) (use audit_effect [OF that(1)] in simp_all)
  then show "trigger_destination_group nets env rq caller i st w = Some ((r, st'), w') \<Longrightarrow> follows covered bk jobs st'"
    using assms by (auto simp: trigger_destination_group_def split: option.splits sum.splits prod.splits bool.splits elim!: covered_frame)
  have t: "wanted_shrinks bk (app_db st) db2"
    if "create_audit_log a b c d e f g (app_db st) = Inr db1" "sync_run nets cl h i db1 w = Some ((x, db2), w2)"
    for a b c d e f g h db1 x db2 w2
    by (rule wanted_after [OF sync_wanted [OF that(2)]]) (use audit_effect [OF that(1)] in simp_all)
  then show "trigger_vault_sync_task nets cl rq caller i st w = Some ((r, st'), w') \<Longrightarrow> follows covered bk jobs st'"
    using assms by (auto simp: trigger_vault_sync_task_def split: option.splits sum.splits prod.splits bool.splits elim!: covered_frame)
qed

lemma dispatch_cover:
  assumes "dispatch se cipher rq caller call st w = Some (st', w')" "reliable_backend (se_backend se) jobs" "db_ok (app_db st)"
    and "follows covered (se_backend se) jobs st"
  shows "follows covered (se_backend se) jobs st'"
proof (cases call)
  case (KeyCall r)
  then obtain db where k: "handle_key \<lparr>kc_crypto = se_crypto se, kc_cipher = cipher, kc_show_uuid = se_show_uuid se\<rparr> rq caller r (app_db st) = Some db"
    "st' = st\<lparr>app_db := db\<rparr>" using assms(1) by auto
  show ?thesis by (rule covered_frame [OF assms(4)]) (use key_request_frame [OF k(1)] in \<open>auto simp: k(2)\<close>)
next
  case (VaultCall r)
  then have s: "st' = st\<lparr>app_db := handle_vault \<lparr>kc_crypto = se_crypto se, kc_cipher = cipher, kc_show_uuid = se_show_uuid se\<rparr> rq caller r (app_db st)\<rparr>"
    using assms(1) by simp
  show ?thesis
    by (rule covered_frame [OF assms(4)]) (simp_all add: s fewer_tasks [OF assms(3)] vault_request_frame)
next
  case (SourceCall r)
  then have "st' = handle_source (se_backend se) (ig_ops (se_ingest se)) rq caller r st" using assms(1) by simp
  then show ?thesis
    using schedule_follower.follows_source_request [OF reliable_backend.cover_follower [OF assms(2)] assms(4)] by (simp only:)
next
  case (TaskCall r)
  then have "st' = snd (handle_task (se_backend se) rq caller r st)" using assms(1) by simp
  then show ?thesis
    using schedule_follower.follows_task_request [OF reliable_backend.cover_follower [OF assms(2)] assms(4)] by (simp only:)
next
  case (TriggerGroupCall i)
  then obtain r where "trigger_destination_group (se_nets se) (se_ingest se) rq caller i st w = Some ((r, st'), w')" using assms(1) by auto
  then show ?thesis by (rule trigger_cover(1) [OF assms(4)])
next
  case (TriggerTaskCall i)
  then obtain r where "trigger_vault_sync_task (se_nets se) (ig_client (se_ingest se)) rq caller i st w = Some ((r, st'), w')" using assms(1) by auto
  then show ?thesis by (rule trigger_cover(2) [OF assms(4)])
qed (use assms in auto)

abbreviation scheduled_state ::
  "('n, 'b, 'j, 'w) service_env \<Rightarrow> ('b, 'j) job_table \<Rightarrow> uuid \<Rightarrow> ('n, 'b, 'j) full_state \<Rightarrow> bool" where
  "scheduled_state se jobs m st \<equiv>
     sound_state se m st \<and> reliable_backend (se_backend se) jobs \<and> follows covered (se_backend se) jobs (fs_app st)"

interpretation scheduled: service_invariant P se "scheduled_state se jobs m"
  for P :: "api_key \<Rightarrow> bool" and se :: "('n, 'b, 'j, 'w) service_env" and jobs m
proof
  fix st secs t rq req call and w :: 'w and r st' w'
  assume s: "scheduled_state se jobs m st" and run: "serve se secs t rq req call st w = Some (r, st', w')"
    and p: "\<And>caller. r = Inr caller \<Longrightarrow> P caller"
  have "follows covered (se_backend se) jobs (fs_app st')"
    using run
  proof (cases rule: serve_cases)
    case (served caller ip guard tp w1 app)
    from s have "db_ok (app_db (fs_app st))" by (simp add: service_ok_def)
    from dispatch_cover [OF served(4) _ this] s served(2) show ?thesis by simp
  qed (use s in simp)
  with s sound.request [where P = P and m = m, OF conjunct1 [OF s] run p] show "scheduled_state se jobs m st'" by blast
next
  fix st i log_id and w w' :: 'w and app
  assume s: "scheduled_state se jobs m st" and run: "scheduled_ingest se log_id i (fs_app st) w = Some (app, w')"
  with sound.ingest [OF _ run, of m] scheduled_cover(1) [OF run] show "scheduled_state se jobs m (st\<lparr>fs_app := app\<rparr>)" by simp
next
  fix st i log_id and w w' :: 'w and app
  assume s: "scheduled_state se jobs m st" and run: "scheduled_sync se log_id i (fs_app st) w = Some (app, w')"
  with sound.sync [OF _ run, of m] scheduled_cover(2) [OF run] show "scheduled_state se jobs m (st\<lparr>fs_app := app\<rparr>)" by simp
next
  fix st and earliest d e u db
  assume s: "scheduled_state se jobs m st" and run: "sweeps earliest d e [u] (app_db (fs_app st)) = Some db"
  have "db_ok (app_db (fs_app st))" using s by (simp add: service_ok_def)
  from sweep_frame [OF run this] have "wanted_shrinks (se_backend se) (app_db (fs_app st)) db" by blast
  then have "follows covered (se_backend se) jobs ((fs_app st)\<lparr>app_db := db\<rparr>)"
    by (intro covered_frame [OF conjunct2 [OF conjunct2 [OF s]]]) simp_all
  with conjunct1 [OF conjunct2 [OF s]] sound.sweep [where se = se and m = m, OF conjunct1 [OF s] run]
  show "scheduled_state se jobs m (st\<lparr>fs_app := (fs_app st)\<lparr>app_db := db\<rparr>\<rparr>)" by simp
qed simp

end
