(* ===== verification/Flights.thy ===== *)
theory Flights
  imports SourceApi
begin

text \<open>
  \<open>src/jobs/external_ingestion.rs\<close> and \<open>src/jobs/vault_sync.rs\<close> one database statement at a time.
  \<open>run\<close> awaits after every query, so other requests and jobs act between two of its statements; a
  phase is what an execution has in its hands at such a point. \<open>SourceApi\<close> and \<open>TaskApi\<close> treat a run
  as one step; here it is shown what each statement does to the tables as they are when it is
  executed, and that the phases without interruption are that step.
\<close>

section \<open>One column of one row\<close>

text \<open>
  A \<open>Model\<close> turned into an \<open>ActiveModel\<close> has no column marked for writing: with one \<open>Set\<close>, the update
  writes that column of the row with the primary key, and nothing else the model has read.
\<close>

definition set_last_sync_at :: "uuid \<Rightarrow> instant \<Rightarrow> database \<Rightarrow> db_err + database" where
  "set_last_sync_at i s db =
     (if has_task db i
      then checked (db\<lparr>tasks := map (\<lambda>t. if task_id t = i then t\<lparr>task_last_sync_at := Some s\<rparr> else t) (tasks db)\<rparr>)
      else Inl RecordNotUpdated)"

definition set_last_run_at :: "uuid \<Rightarrow> instant \<Rightarrow> database \<Rightarrow> db_err + database" where
  "set_last_run_at i s db =
     (if has_group db i
      then checked (db\<lparr>groups := map (\<lambda>g. if group_id g = i then g\<lparr>group_last_run_at := Some s\<rparr> else g) (groups db)\<rparr>)
      else Inl RecordNotUpdated)"

section \<open>Phases\<close>

datatype sync_phase =
    SyncClaimed
  | SyncStarted instant
  | SyncRowRead instant vault_sync_task
  | SyncSourceRead instant vault_sync_task "vault_endpoint option"
  | SyncTargetsRead instant vault_sync_task "vault_endpoint option" "(task_target \<times> vault_endpoint option) list"
  | SyncExecuted instant vault_sync_task job_summary bool
  | SyncLogged instant job_summary

datatype ingest_phase =
    IngestClaimed
  | IngestStarted instant
  | IngestRowRead instant destination_group
  | IngestFeedsRead instant destination_group "external_source list"
  | IngestTargetsRead instant destination_group "external_source list" "(group_target \<times> vault_endpoint option) list"
  | IngestExecuted instant destination_group job_summary
  | IngestLogged instant job_summary

datatype 'p progress = Next 'p | Returned "app_error + job_summary"

definition query :: "'p progress \<Rightarrow> database \<Rightarrow> 'w \<Rightarrow> ('p progress \<times> database \<times> 'w) option" where
  "query p db w = Some (p, db, w)"

definition statement ::
  "db_err + database \<Rightarrow> 'p progress \<Rightarrow> database \<Rightarrow> 'w \<Rightarrow> ('p progress \<times> database \<times> 'w) option" where
  "statement r p db w =
     Some (case sql r of Inl e \<Rightarrow> (Returned (Inl e), db, w) | Inr db' \<Rightarrow> (p, db', w))"

fun sync_advance ::
  "'n ipnet_ops \<Rightarrow> 'w client_env \<Rightarrow> uuid \<Rightarrow> uuid \<Rightarrow> sync_phase \<Rightarrow> database \<Rightarrow> 'w
    \<Rightarrow> (sync_phase progress \<times> database \<times> 'w) option"
where
  "sync_advance nets env log_id i SyncClaimed db w = query (Next (SyncStarted (utc_now (env_world env) w))) db w"
| "sync_advance nets env log_id i (SyncStarted s) db w =
     query (case find_task db i of None \<Rightarrow> Returned (Inl NotFound) | Some task \<Rightarrow> Next (SyncRowRead s task)) db w"
| "sync_advance nets env log_id i (SyncRowRead s task) db w =
     query (Next (SyncSourceRead s task (find_vault db (task_source_vault_id task)))) db w"
| "sync_advance nets env log_id i (SyncSourceRead s task source) db w =
     query (Next (SyncTargetsRead s task source (task_targets_of db i))) db w"
| "sync_advance nets env log_id i (SyncTargetsRead s task source targets) db w =
     map_option (\<lambda>((summary, ok), w'). (Next (SyncExecuted s task summary ok), db, w'))
       (sync_execute nets env task source targets w)"
| "sync_advance nets env log_id i (SyncExecuted s task summary ok) db w =
     statement (write_sync_log log_id ''VAULT_SYNC'' i (task_name task) summary s db)
       (if ok then Next (SyncLogged s summary) else Returned (Inr summary)) db w"
| "sync_advance nets env log_id i (SyncLogged s summary) db w =
     statement (set_last_sync_at i s db) (Returned (Inr summary)) db w"

fun ingest_advance ::
  "'n ipnet_ops \<Rightarrow> 'w ingest_env \<Rightarrow> uuid \<Rightarrow> uuid \<Rightarrow> ingest_phase \<Rightarrow> database \<Rightarrow> 'w
    \<Rightarrow> (ingest_phase progress \<times> database \<times> 'w) option"
where
  "ingest_advance nets env log_id i IngestClaimed db w =
     query (Next (IngestStarted (utc_now (env_world (ig_client env)) w))) db w"
| "ingest_advance nets env log_id i (IngestStarted s) db w =
     query (case find_group db i of None \<Rightarrow> Returned (Inl NotFound) | Some grp \<Rightarrow> Next (IngestRowRead s grp)) db w"
| "ingest_advance nets env log_id i (IngestRowRead s grp) db w =
     query (Next (IngestFeedsRead s grp (filter (\<lambda>f. feed_group_id f = i) (feeds db)))) db w"
| "ingest_advance nets env log_id i (IngestFeedsRead s grp fs) db w =
     query (Next (IngestTargetsRead s grp fs (group_targets_of db i))) db w"
| "ingest_advance nets env log_id i (IngestTargetsRead s grp fs targets) db w =
     map_option (\<lambda>(summary, w'). (Next (IngestExecuted s grp summary), db, w')) (ingest_execute nets env grp fs targets w)"
| "ingest_advance nets env log_id i (IngestExecuted s grp summary) db w =
     statement (write_sync_log log_id ''EXTERNAL_FEED'' i (group_name grp) summary s db) (Next (IngestLogged s summary)) db w"
| "ingest_advance nets env log_id i (IngestLogged s summary) db w =
     statement (set_last_run_at i s db) (Returned (Inr summary)) db w"

text \<open>An execution in flight, of a group or of a task.\<close>

datatype flight = IngestFlight (flight_id: uuid) ingest_phase | SyncFlight (flight_id: uuid) sync_phase

fun advance ::
  "'n ipnet_ops \<Rightarrow> 'w ingest_env \<Rightarrow> uuid \<Rightarrow> flight \<Rightarrow> database \<Rightarrow> 'w \<Rightarrow> (flight progress \<times> database \<times> 'w) option"
where
  "advance nets env log_id (IngestFlight i p) db w =
     map_option (apfst (map_progress (IngestFlight i))) (ingest_advance nets env log_id i p db w)"
| "advance nets env log_id (SyncFlight i p) db w =
     map_option (apfst (map_progress (SyncFlight i))) (sync_advance nets (ig_client env) log_id i p db w)"

section \<open>What a statement does\<close>

text \<open>
  The database after a statement of the execution of \<open>f\<close>: the same, or with one more row of history
  for this resource, or with the one time column of the current row of this resource set.
\<close>

inductive flight_effect :: "flight \<Rightarrow> database \<Rightarrow> database \<Rightarrow> bool" where
  reads: "flight_effect f db db"
| logs: "slog_job_id l = flight_id f \<Longrightarrow> db_ok (db\<lparr>sync_logs := sync_logs db @ [l]\<rparr>) \<Longrightarrow>
     flight_effect f db (db\<lparr>sync_logs := sync_logs db @ [l]\<rparr>)"
| ran: "has_group db i \<Longrightarrow> db' = db\<lparr>groups := map (\<lambda>g. if group_id g = i then g\<lparr>group_last_run_at := Some s\<rparr> else g) (groups db)\<rparr> \<Longrightarrow>
     db_ok db' \<Longrightarrow> flight_effect (IngestFlight i (IngestLogged s summary)) db db'"
| synced: "has_task db i \<Longrightarrow> db' = db\<lparr>tasks := map (\<lambda>t. if task_id t = i then t\<lparr>task_last_sync_at := Some s\<rparr> else t) (tasks db)\<rparr> \<Longrightarrow>
     db_ok db' \<Longrightarrow> flight_effect (SyncFlight i (SyncLogged s summary)) db db'"

lemma set_last_sync_at_Inr:
  "set_last_sync_at i s db = Inr db' \<longleftrightarrow> has_task db i \<and>
     db' = db\<lparr>tasks := map (\<lambda>t. if task_id t = i then t\<lparr>task_last_sync_at := Some s\<rparr> else t) (tasks db)\<rparr> \<and> db_ok db'"
  by (auto simp: set_last_sync_at_def)

lemma set_last_run_at_Inr:
  "set_last_run_at i s db = Inr db' \<longleftrightarrow> has_group db i \<and>
     db' = db\<lparr>groups := map (\<lambda>g. if group_id g = i then g\<lparr>group_last_run_at := Some s\<rparr> else g) (groups db)\<rparr> \<and> db_ok db'"
  by (auto simp: set_last_run_at_def)

lemma query_Some [simp]: "query p db w = Some (q, db', w') \<longleftrightarrow> q = p \<and> db' = db \<and> w' = w"
  by (auto simp: query_def)

lemma statement_Some:
  "statement r p db w = Some (q, db', w') \<longleftrightarrow>
     w' = w \<and> (case r of Inl e \<Rightarrow> q = Returned (Inl (DbError e)) \<and> db' = db | Inr db1 \<Rightarrow> q = p \<and> db' = db1)"
  by (auto simp: statement_def sql_def split: sum.splits)

lemma log_effect:
  "write_sync_log log_id ty i nm sm s db = Inr db' \<Longrightarrow> flight_id f = i \<Longrightarrow> flight_effect f db db'"
  by (auto simp: write_sync_log_def insert_sync_log_def intro: logs)

lemma sync_advance_effect:
  "sync_advance nets env log_id i p db w = Some (q, db', w') \<Longrightarrow> flight_effect (SyncFlight i p) db db'"
  by (cases p) (auto simp: statement_Some set_last_sync_at_Inr split: sum.splits option.splits intro: reads synced log_effect)

lemma ingest_advance_effect:
  "ingest_advance nets env log_id i p db w = Some (q, db', w') \<Longrightarrow> flight_effect (IngestFlight i p) db db'"
  by (cases p) (auto simp: statement_Some set_last_run_at_Inr split: sum.splits option.splits intro: reads ran log_effect)

lemma advance_effect: "advance nets env log_id f db w = Some (q, db', w') \<Longrightarrow> flight_effect f db db'"
  by (cases f) (auto dest: sync_advance_effect ingest_advance_effect)

lemma map_progress_Next: "map_progress g p = Next f \<longleftrightarrow> (\<exists>x. p = Next x \<and> f = g x)"
  by (cases p) auto

lemma advance_id: "advance nets env log_id f db w = Some (Next f', db', w') \<Longrightarrow> flight_id f' = flight_id f"
  by (cases f) (auto simp: map_progress_Next)

section \<open>A flight on its own\<close>

fun phase_rank :: "flight \<Rightarrow> nat" where
  "phase_rank (SyncFlight i p) =
     (case p of SyncClaimed \<Rightarrow> 6 | SyncStarted _ \<Rightarrow> 5 | SyncRowRead _ _ \<Rightarrow> 4 | SyncSourceRead _ _ _ \<Rightarrow> 3
      | SyncTargetsRead _ _ _ _ \<Rightarrow> 2 | SyncExecuted _ _ _ _ \<Rightarrow> 1 | SyncLogged _ _ \<Rightarrow> 0)"
| "phase_rank (IngestFlight i p) =
     (case p of IngestClaimed \<Rightarrow> 6 | IngestStarted _ \<Rightarrow> 5 | IngestRowRead _ _ \<Rightarrow> 4 | IngestFeedsRead _ _ _ \<Rightarrow> 3
      | IngestTargetsRead _ _ _ _ \<Rightarrow> 2 | IngestExecuted _ _ _ \<Rightarrow> 1 | IngestLogged _ _ \<Rightarrow> 0)"

lemma sync_rank:
  "sync_advance nets env log_id i p db w = Some (Next q, db', w') \<Longrightarrow> phase_rank (SyncFlight i q) < phase_rank (SyncFlight i p)"
  by (cases p) (auto simp: statement_Some split: sum.splits option.splits if_splits)

lemma ingest_rank:
  "ingest_advance nets env log_id i p db w = Some (Next q, db', w') \<Longrightarrow> phase_rank (IngestFlight i q) < phase_rank (IngestFlight i p)"
  by (cases p) (auto simp: statement_Some split: sum.splits option.splits)

lemma advance_rank: "advance nets env log_id f db w = Some (Next f', db', w') \<Longrightarrow> phase_rank f' < phase_rank f"
  by (cases f) (auto simp only: advance.simps map_option_eq_Some prod.inject apfst_conv map_progress_Next dest!: sync_rank ingest_rank)

function complete ::
  "'n ipnet_ops \<Rightarrow> 'w ingest_env \<Rightarrow> uuid \<Rightarrow> flight \<Rightarrow> database \<Rightarrow> 'w \<Rightarrow> (((app_error + job_summary) \<times> database) \<times> 'w) option"
where
  "complete nets env log_id f db w =
     (case advance nets env log_id f db w of
        None \<Rightarrow> None
      | Some (Returned r, db', w') \<Rightarrow> Some ((r, db'), w')
      | Some (Next f', db', w') \<Rightarrow> complete nets env log_id f' db' w')"
  by pat_completeness auto
termination
  by (relation "measure (\<lambda>(nets, env, log_id, f, db, w). phase_rank f)") (auto dest: advance_rank)

declare complete.simps [simp del]

lemma set_last_sync_at_row:
  assumes "db_ok db" "find_task db i = Some task"
  shows "set_last_sync_at i s db = update_task (task\<lparr>task_last_sync_at := Some s\<rparr>) db"
proof -
  have t: "task \<in> set (tasks db)" "task_id task = i" using find_task_Some [OF assms(2)] by simp_all
  have "t = task" if "t \<in> set (tasks db)" "task_id t = i" for t
    using that t assms(1) distinct_map_eq [of task_id "tasks db" t task] by (simp add: db_ok_defs)
  then have "map (\<lambda>t. if task_id t = i then t\<lparr>task_last_sync_at := Some s\<rparr> else t) (tasks db) =
      replace_row task_id (task\<lparr>task_last_sync_at := Some s\<rparr>) (tasks db)"
    unfolding replace_row_def using t(2) by (intro map_cong refl) simp
  then show ?thesis using t(2) by (simp add: set_last_sync_at_def update_task_def)
qed

lemma set_last_run_at_row:
  assumes "db_ok db" "find_group db i = Some grp"
  shows "set_last_run_at i s db = update_group (grp\<lparr>group_last_run_at := Some s\<rparr>) db"
proof -
  have g: "grp \<in> set (groups db)" "group_id grp = i" using find_group_Some [OF assms(2)] by simp_all
  have "g = grp" if "g \<in> set (groups db)" "group_id g = i" for g
    using that g assms(1) distinct_map_eq [of group_id "groups db" g grp] by (simp add: db_ok_defs)
  then have "map (\<lambda>g. if group_id g = i then g\<lparr>group_last_run_at := Some s\<rparr> else g) (groups db) =
      replace_row group_id (grp\<lparr>group_last_run_at := Some s\<rparr>) (groups db)"
    unfolding replace_row_def using g(2) by (intro map_cong refl) simp
  then show ?thesis using g(2) by (simp add: set_last_run_at_def update_group_def)
qed

lemma logged_rows:
  assumes "write_sync_log log_id ty i nm sm s db = Inr db'"
  shows "db_ok db'" "find_task db' j = find_task db j" "find_group db' j = find_group db j"
  using assms by (auto simp: write_sync_log_def insert_sync_log_def find_task_def find_group_def)

lemma complete_sync: "complete nets env log_id (SyncFlight i SyncClaimed) db w = sync_run nets (ig_client env) log_id i db w"
  by (auto simp: complete.simps sync_run_def query_def statement_def sql_def try_h_def Let_def set_last_sync_at_row logged_rows
      split: option.splits sum.splits prod.splits)

lemma complete_ingest: "complete nets env log_id (IngestFlight i IngestClaimed) db w = ingest_run nets env log_id i db w"
  by (auto simp: complete.simps ingest_run_def query_def statement_def sql_def try_h_def Let_def set_last_run_at_row logged_rows
      split: option.splits sum.splits prod.splits)

section \<open>What the statements leave alone\<close>

text \<open>The tables without the two time columns and the histories: what the administrators have configured.\<close>

definition unstamped :: "database \<Rightarrow> database" where
  "unstamped db = db\<lparr>groups := map (\<lambda>g. g\<lparr>group_last_run_at := None\<rparr>) (groups db),
     tasks := map (\<lambda>t. t\<lparr>task_last_sync_at := None\<rparr>) (tasks db), sync_logs := [], audit_logs := []\<rparr>"

definition job_frame :: "database \<Rightarrow> database \<Rightarrow> bool" where
  "job_frame db db' \<longleftrightarrow> unstamped db' = unstamped db \<and> (db_ok db \<longrightarrow> db_ok db')"

lemma flight_effect_frame: "flight_effect f db db' \<Longrightarrow> job_frame db db'"
  by (cases rule: flight_effect.cases) (auto simp: job_frame_def unstamped_def comp_def if_distrib cong: if_cong)

lemma audit_frame: "create_audit_log i t k ip act tr d db = Inr db' \<Longrightarrow> job_frame db db'"
  by (auto simp: create_audit_log_Inr job_frame_def unstamped_def)

lemma find_map_row: "(\<And>x. k (g x) = k x) \<Longrightarrow> List.find (\<lambda>y. k y = i) (map g xs) = map_option g (List.find (\<lambda>y. k y = i) xs)"
  by (induction xs) auto

lemma unstamped_sel [simp]:
  "api_keys (unstamped db) = api_keys db" "permissions (unstamped db) = permissions db" "vaults (unstamped db) = vaults db"
  "feeds (unstamped db) = feeds db" "group_targets (unstamped db) = group_targets db" "task_targets (unstamped db) = task_targets db"
  "find_group (unstamped db) i = map_option (\<lambda>g. g\<lparr>group_last_run_at := None\<rparr>) (find_group db i)"
  "find_task (unstamped db) i = map_option (\<lambda>t. t\<lparr>task_last_sync_at := None\<rparr>) (find_task db i)"
  by (simp_all add: unstamped_def find_group_def find_task_def find_map_row)

lemma synced_rows:
  assumes "db' = db\<lparr>tasks := map (\<lambda>t. if task_id t = i then t\<lparr>task_last_sync_at := Some s\<rparr> else t) (tasks db)\<rparr>"
  shows "find_task db' j = (if j = i then map_option (\<lambda>t. t\<lparr>task_last_sync_at := Some s\<rparr>) (find_task db j) else find_task db j)"
proof -
  have "find_task db' j = map_option (\<lambda>t. if task_id t = i then t\<lparr>task_last_sync_at := Some s\<rparr> else t) (find_task db j)"
    unfolding assms find_task_def by (simp add: find_map_row)
  then show ?thesis by (cases "find_task db j") (auto dest: find_task_Some)
qed

lemma effect_positions:
  assumes "flight_effect f db db'" "find_task db' j \<noteq> find_task db j"
  shows "\<exists>s summary. f = SyncFlight j (SyncLogged s summary) \<and> map_option task_last_sync_at (find_task db' j) = Some (Some s)"
  using assms
proof (cases rule: flight_effect.cases)
  case (synced i s summary)
  from synced_rows [OF synced(3), of j] assms(2) synced(1) show ?thesis by (cases "find_task db j") (auto split: if_splits)
qed (auto simp: find_task_def)

lemma effect_logs: "flight_effect f db db' \<Longrightarrow> audit_logs db' = audit_logs db \<and> (\<exists>ls. sync_logs db' = sync_logs db @ ls \<and> length ls \<le> 1)"
  by (cases rule: flight_effect.cases) auto

section \<open>Properties\<close>

text \<open>
  An execution split at its awaits is the execution: the statements of a flight, one after
  the other with nothing in between, are exactly the run of the task or of the group, errors,
  early returns and panics included.\<close>

theorem statements_compose_to_run:
  "complete nets env log_id (SyncFlight i SyncClaimed) db w = sync_run nets (ig_client env) log_id i db w \<and>
   complete nets env log_id (IngestFlight i IngestClaimed) db w = ingest_run nets env log_id i db w"
  by (simp add: complete_sync complete_ingest)

text \<open>
  C5. A running job never undoes what happened since it read its rows. Whatever the database has
  become in the meantime, a statement of the job leaves all configuration as it finds it: it
  brings back no deleted row and reverts no edited column. It adds at most one row of history.
  Only the last statement of a sync job moves a position, that of its own task, to the instant
  the job started at; when the task is gone by then the job ends with an error and changes nothing.\<close>

theorem running_jobs_lose_no_update:
  assumes "advance nets env log_id f db w = Some (progress, db', w')"
  shows "unstamped db' = unstamped db \<and> audit_logs db' = audit_logs db \<and> (\<exists>ls. sync_logs db' = sync_logs db @ ls \<and> length ls \<le> 1) \<and>
    (db_ok db \<longrightarrow> db_ok db') \<and>
    (\<forall>j. find_task db' j \<noteq> find_task db j \<longrightarrow>
       (\<exists>s summary. f = SyncFlight j (SyncLogged s summary) \<and> map_option task_last_sync_at (find_task db' j) = Some (Some s))) \<and>
    (\<forall>i s summary. f = SyncFlight i (SyncLogged s summary) \<and> \<not> has_task db i \<longrightarrow>
       progress = Returned (Inl (DbError RecordNotUpdated)) \<and> db' = db)"
proof -
  note effect = advance_effect [OF assms]
  have gone: "progress = Returned (Inl (DbError RecordNotUpdated)) \<and> db' = db"
    if "f = SyncFlight i (SyncLogged s summary)" "\<not> has_task db i" for i s summary
    using assms that by (auto simp: statement_Some set_last_sync_at_def)
  show ?thesis
    using flight_effect_frame [OF effect] effect_logs [OF effect] effect_positions [OF effect] gone by (simp add: job_frame_def)
qed

section \<open>Witnesses\<close>

text \<open>The task renamed after the job has read its row: the position is set, the new name stays.\<close>

definition renamed_db :: database where
  "renamed_db = sim_db\<lparr>tasks := [sim_task\<lparr>task_name := ''renamed''\<rparr>]\<rparr>"

definition ended :: job_summary where
  "ended = \<lparr>sum_status = ''SUCCESS'', sum_items_processed = 1, sum_chunks_sent = 1, sum_duration_ms = 0, sum_error_message = None\<rparr>"

definition idle :: sim_world where
  "idle = \<lparr>sim_live = (\<lambda>_. {}), sim_limit = 9\<rparr>"

theorem running_jobs_lose_no_update_witness:
  "\<exists>db. advance cidr_ops sim_ingest 99 (SyncFlight 5 (SyncLogged 7 ended)) renamed_db idle = Some (Returned (Inr ended), db, idle) \<and>
     map task_last_sync_at (tasks db) = [Some 7] \<and> map task_name (tasks db) = [''renamed''] \<and> unstamped db = unstamped renamed_db"
proof -
  let ?db = "renamed_db\<lparr>tasks := [sim_task\<lparr>task_name := ''renamed'', task_last_sync_at := Some 7\<rparr>]\<rparr>"
  have run: "advance cidr_ops sim_ingest 99 (SyncFlight 5 (SyncLogged 7 ended)) renamed_db idle = Some (Returned (Inr ended), ?db, idle)"
    by (simp add: statement_def sql_def set_last_sync_at_def checked_def db_ok_defs renamed_db_def sim_db_def sim_task_def sim_target_def sim_endpoint_def)
  from running_jobs_lose_no_update [OF run] have "unstamped ?db = unstamped renamed_db" by blast
  with run show ?thesis by (intro exI [of _ ?db]) simp
qed

end
