(* ===== verification/Interleaving.thy ===== *)
theory Interleaving
  imports Schedules Flights
begin

text \<open>
  The process with its concurrency. In \<open>Service\<close> a job is one step; here a manual trigger or a
  cron tick only claims the slot and leaves an execution in flight, whose statements are separate
  steps (\<open>Flights\<close>), so that requests, sweeps and the statements of other jobs come between any
  two of them. A flight may also end at any point without finishing, when its future is dropped
  or panics: then the guard releases the slot. The invariants of \<open>Service\<close> and \<open>Schedules\<close> are
  carried over by one locale, which adds to theirs what a statement needs.
\<close>

section \<open>Starting a flight\<close>

definition begin_sync :: "request_env \<Rightarrow> api_key \<Rightarrow> uuid \<Rightarrow> ('b, 'j) app_state \<Rightarrow> (app_error + flight) \<times> ('b, 'j) app_state" where
  "begin_sync rq caller i st =
     try_h (ok_or NotFound (find_task (app_db st) i)) st (\<lambda>existing.
     try_h (guard_can_sync caller (find_permission (app_db st) (key_id caller) RESOURCE_SYNC_TASK i)) st (\<lambda>_.
     case try_start_job (app_jobs st) i of
       (False, rj) \<Rightarrow> (Inl (Conflict ''a sync for this task is already in progress''), st\<lparr>app_jobs := rj\<rparr>)
     | (True, rj) \<Rightarrow>
         try_h (create_audit_log (fresh rq 0) (now rq) caller (client_ip rq) ''SYNC_TASK_TRIGGER'' (Some (task_name existing)) None (app_db st))
           (st\<lparr>app_jobs := job_guard_drop rj i\<rparr>) (\<lambda>db1.
         (Inr (SyncFlight i SyncClaimed), st\<lparr>app_db := db1, app_jobs := rj\<rparr>))))"

definition begin_ingest :: "request_env \<Rightarrow> api_key \<Rightarrow> uuid \<Rightarrow> ('b, 'j) app_state \<Rightarrow> (app_error + flight) \<times> ('b, 'j) app_state" where
  "begin_ingest rq caller i st =
     try_h (ok_or NotFound (find_group (app_db st) i)) st (\<lambda>existing.
     try_h (guard_can_sync caller (find_permission (app_db st) (key_id caller) RESOURCE_DESTINATION_GROUP i)) st (\<lambda>_.
     case try_start_job (app_jobs st) i of
       (False, rj) \<Rightarrow> (Inl (Conflict ''a sync for this group is already in progress''), st\<lparr>app_jobs := rj\<rparr>)
     | (True, rj) \<Rightarrow>
         try_h (create_audit_log (fresh rq 0) (now rq) caller (client_ip rq) ''GROUP_TRIGGER'' (Some (group_name existing)) None (app_db st))
           (st\<lparr>app_jobs := job_guard_drop rj i\<rparr>) (\<lambda>db1.
         (Inr (IngestFlight i IngestClaimed), st\<lparr>app_db := db1, app_jobs := rj\<rparr>))))"

text \<open>A cron tick; \<open>first_phase\<close> is the closure the scheduler has registered for the resource.\<close>

fun first_phase :: "cron_job \<Rightarrow> flight" where
  "first_phase (IngestGroup i) = IngestFlight i IngestClaimed"
| "first_phase (SyncTask i) = SyncFlight i SyncClaimed"

definition cron_tick :: "cron_job \<Rightarrow> ('b, 'j) app_state \<Rightarrow> ('b, 'j) app_state \<times> flight list" where
  "cron_tick resource st =
     (case try_start_job (app_jobs st) (flight_id (first_phase resource)) of
        (False, rj) \<Rightarrow> (st\<lparr>app_jobs := rj\<rparr>, [])
      | (True, rj) \<Rightarrow> (st\<lparr>app_jobs := rj\<rparr>, [first_phase resource]))"

definition release :: "flight \<Rightarrow> ('b, 'j) app_state \<Rightarrow> ('b, 'j) app_state" where
  "release f st = st\<lparr>app_jobs := job_guard_drop (app_jobs st) (flight_id f)\<rparr>"

section \<open>Requests\<close>

definition opened :: "(app_error + flight) \<times> ('b, 'j) app_state \<Rightarrow> ('b, 'j) app_state \<times> flight list" where
  "opened r = (snd r, case fst r of Inl _ \<Rightarrow> [] | Inr f \<Rightarrow> [f])"

definition open_call ::
  "('n, 'b, 'j, 'w) service_env \<Rightarrow> secret_cipher \<Rightarrow> request_env \<Rightarrow> api_key \<Rightarrow> api_call \<Rightarrow> ('b, 'j) app_state \<Rightarrow> 'w
    \<Rightarrow> ((('b, 'j) app_state \<times> flight list) \<times> 'w) option"
where
  "open_call se cipher rq caller call st w =
     (case call of
        TriggerGroupCall i \<Rightarrow> Some (opened (begin_ingest rq caller i st), w)
      | TriggerTaskCall i \<Rightarrow> Some (opened (begin_sync rq caller i st), w)
      | _ \<Rightarrow> map_option (\<lambda>(st', w'). ((st', []), w')) (dispatch se cipher rq caller call st w))"

definition open_request ::
  "('n, 'b, 'j, 'w) service_env \<Rightarrow> int \<Rightarrow> instant \<Rightarrow> request_env \<Rightarrow> inbound_request \<Rightarrow> api_call
    \<Rightarrow> ('n, 'b, 'j) full_state \<Rightarrow> 'w \<Rightarrow> ((app_error + api_key) \<times> ('n, 'b, 'j) full_state \<times> flight list \<times> 'w) option"
where
  "open_request se secs t rq req call st w =
     (case auth_middleware (auth_env_of (se_crypto se) (se_nets se) (se_max_body se) st) (se_dns se) (app_db (fs_app st)) secs t req
             (fs_replay st, fs_proxies st, w) of
        (Inl e, guard, tp, w1) \<Rightarrow> Some (Inl e, st\<lparr>fs_replay := guard, fs_proxies := tp\<rparr>, [], w1)
      | (Inr (caller, ip), guard, tp, w1) \<Rightarrow>
          map_option (\<lambda>((app, fl), w2). (Inr caller, st\<lparr>fs_replay := guard, fs_proxies := tp, fs_app := app\<rparr>, fl, w2))
            (open_call se (fs_cipher st) (rq\<lparr>client_ip := ip\<rparr>) caller call (fs_app st) w1))"

section \<open>Steps\<close>

type_synonym ('n, 'b, 'j, 'w) process = "('n, 'b, 'j) full_state \<times> flight list \<times> 'w"

inductive process_step ::
  "(api_key \<Rightarrow> bool) \<Rightarrow> ('n, 'b, 'j, 'w) service_env \<Rightarrow> instant \<Rightarrow> ('n, 'b, 'j, 'w) process \<Rightarrow> ('n, 'b, 'j, 'w) process \<Rightarrow> bool"
  for P se t where
  proc_prime: "prime (se_nets se) (se_dns se) (fs_proxies st) w = (failed, tp, w') \<Longrightarrow>
     process_step P se t (st, fl, w) (st\<lparr>fs_proxies := tp\<rparr>, fl, w')"
| proc_request: "open_request se secs t rq req call st w = Some (r, st', new, w') \<Longrightarrow> (\<And>caller. r = Inr caller \<Longrightarrow> P caller) \<Longrightarrow>
     process_step P se t (st, fl, w) (st', new @ fl, w')"
| proc_tick: "cron_tick resource (fs_app st) = (app, new) \<Longrightarrow>
     process_step P se t (st, fl, w) (st\<lparr>fs_app := app\<rparr>, new @ fl, w)"
| proc_next: "advance (se_nets se) (se_ingest se) log_id f (app_db (fs_app st)) w = Some (Next f', db, w') \<Longrightarrow>
     process_step P se t (st, fl1 @ f # fl2, w) (st\<lparr>fs_app := (fs_app st)\<lparr>app_db := db\<rparr>\<rparr>, fl1 @ f' # fl2, w')"
| proc_return: "advance (se_nets se) (se_ingest se) log_id f (app_db (fs_app st)) w = Some (Returned r, db, w') \<Longrightarrow>
     process_step P se t (st, fl1 @ f # fl2, w) (st\<lparr>fs_app := release f ((fs_app st)\<lparr>app_db := db\<rparr>)\<rparr>, fl1 @ fl2, w')"
| proc_abandon: "process_step P se t (st, fl1 @ f # fl2, w) (st\<lparr>fs_app := release f (fs_app st)\<rparr>, fl1 @ fl2, w)"
| proc_sweep: "sweeps (ig_earliest (se_ingest se)) (se_sync_log_days se) (se_audit_log_days se) [u] (app_db (fs_app st)) = Some db \<Longrightarrow>
     process_step P se t (st, fl, w) (st\<lparr>fs_app := (fs_app st)\<lparr>app_db := db\<rparr>\<rparr>, fl, w)"

inductive process_run ::
  "(api_key \<Rightarrow> bool) \<Rightarrow> ('n, 'b, 'j, 'w) service_env \<Rightarrow> instant \<Rightarrow> ('n, 'b, 'j, 'w) process \<Rightarrow> instant \<Rightarrow> ('n, 'b, 'j, 'w) process \<Rightarrow> bool"
  for P se t0 s0 where
  proc_start: "process_run P se t0 s0 t0 s0"
| proc_step: "process_run P se t0 s0 t s \<Longrightarrow> t \<le> u \<Longrightarrow> process_step P se u s s' \<Longrightarrow> process_run P se t0 s0 u s'"

section \<open>Shapes of the steps\<close>

definition only_jobs :: "('b, 'j) app_state \<Rightarrow> ('b, 'j) app_state \<Rightarrow> bool" where
  "only_jobs st st' \<longleftrightarrow> (\<exists>db rj. st' = st\<lparr>app_db := db, app_jobs := rj\<rparr> \<and> job_frame (app_db st) db)"

lemma only_jobs_intros:
  "only_jobs st st" "only_jobs st (st\<lparr>app_jobs := rj\<rparr>)" "job_frame (app_db st) db \<Longrightarrow> only_jobs st (st\<lparr>app_db := db, app_jobs := rj\<rparr>)"
proof -
  show "only_jobs st st" unfolding only_jobs_def by (intro exI [of _ "app_db st"] exI [of _ "app_jobs st"]) (simp add: job_frame_def)
  show "only_jobs st (st\<lparr>app_jobs := rj\<rparr>)" unfolding only_jobs_def by (intro exI [of _ "app_db st"] exI [of _ rj]) (simp add: job_frame_def)
  show "job_frame (app_db st) db \<Longrightarrow> only_jobs st (st\<lparr>app_db := db, app_jobs := rj\<rparr>)" unfolding only_jobs_def by blast
qed

lemma begun: "only_jobs st (snd (begin_sync rq caller i st))" "only_jobs st (snd (begin_ingest rq caller i st))"
  unfolding begin_sync_def begin_ingest_def
  by (intro try_h_snd_cases [where P = "only_jobs st"] only_jobs_intros;
      simp split: prod.split bool.split; intro allI impI try_h_snd_cases [where P = "only_jobs st"] conjI;
      simp add: only_jobs_intros audit_frame)+

lemma begin_effect:
  assumes "opened (begin_sync rq caller i st) = (st', fl) \<or> opened (begin_ingest rq caller i st) = (st', fl)"
  shows "\<exists>db rj. st' = st\<lparr>app_db := db, app_jobs := rj\<rparr> \<and> job_frame (app_db st) db"
  using assms begun [of st rq caller i] by (auto simp: opened_def only_jobs_def)

lemma open_call_cases:
  assumes "open_call se cipher rq caller call st w = Some ((st', fl), w')"
  obtains (trigger) db rj where "st' = st\<lparr>app_db := db, app_jobs := rj\<rparr>" "job_frame (app_db st) db" "w' = w"
  | (plain) "dispatch se cipher rq caller call st w = Some (st', w')" "fl = []" "\<And>i. call \<noteq> TriggerGroupCall i" "\<And>i. call \<noteq> TriggerTaskCall i"
proof (cases "(\<exists>i. call = TriggerGroupCall i) \<or> (\<exists>i. call = TriggerTaskCall i)")
  case True
  then obtain i where "opened (begin_sync rq caller i st) = (st', fl) \<or> opened (begin_ingest rq caller i st) = (st', fl)" "w' = w"
    using assms by (elim disjE exE) (simp_all add: open_call_def, blast+)
  with begin_effect that(1) show thesis by metis
next
  case False
  then have "map_option (\<lambda>(st', w'). ((st', []), w')) (dispatch se cipher rq caller call st w) = Some ((st', fl), w')"
    using assms by (cases call) (simp_all add: open_call_def)
  with False that(2) show thesis by (auto split: prod.splits)
qed

lemma open_request_cases:
  assumes "open_request se secs t rq req call st w = Some (r, st', fl, w')"
  obtains (refused) guard tp where "st' = st\<lparr>fs_replay := guard, fs_proxies := tp\<rparr>" "fl = []"
  | (trigger) guard tp db rj where
      "st' = st\<lparr>fs_replay := guard, fs_proxies := tp, fs_app := (fs_app st)\<lparr>app_db := db, app_jobs := rj\<rparr>\<rparr>" "job_frame (app_db (fs_app st)) db"
  | (plain) "serve se secs t rq req call st w = Some (r, st', w')" "fl = []" "\<And>i. call \<noteq> TriggerGroupCall i" "\<And>i. call \<noteq> TriggerTaskCall i"
proof -
  obtain x guard tp w1 where auth: "auth_middleware (auth_env_of (se_crypto se) (se_nets se) (se_max_body se) st) (se_dns se) (app_db (fs_app st)) secs t req
      (fs_replay st, fs_proxies st, w) = (x, guard, tp, w1)" by (rule prod_cases4)
  show thesis
  proof (cases x)
    case (Inl e)
    then have "st' = st\<lparr>fs_replay := guard, fs_proxies := tp\<rparr>" "fl = []" using assms auth by (simp_all add: open_request_def)
    then show thesis by (rule that(1))
  next
    case (Inr ci)
    obtain caller ip where ci: "ci = (caller, ip)" by (cases ci)
    obtain app where app: "open_call se (fs_cipher st) (rq\<lparr>client_ip := ip\<rparr>) caller call (fs_app st) w1 = Some ((app, fl), w')"
        "r = Inr caller" "st' = st\<lparr>fs_replay := guard, fs_proxies := tp, fs_app := app\<rparr>"
      using assms auth Inr ci by (auto simp: open_request_def)
    from app(1) show thesis
    proof (cases rule: open_call_cases)
      case (trigger db rj)
      then show thesis using that(2) app(3) by simp
    next
      case plain
      then show thesis using that(3) app(2,3) auth Inr ci by (simp add: serve_def)
    qed
  qed
qed

section \<open>Invariants under interleaving\<close>

text \<open>
  A property of the state that the steps of \<open>Service\<close> keep, and that depends neither on the replay
  guard nor on what a statement of a job writes, holds in every interleaving.
\<close>

locale interleaved_invariant = service_invariant P se Inv
  for P :: "api_key \<Rightarrow> bool" and se :: "('n, 'b, 'j, 'w) service_env" and Inv :: "('n, 'b, 'j) full_state \<Rightarrow> bool" +
  assumes admission: "Inv st \<Longrightarrow> Inv (st\<lparr>fs_replay := guard, fs_proxies := tp\<rparr>)"
    and statement: "Inv st \<Longrightarrow> job_frame (app_db (fs_app st)) db \<Longrightarrow> Inv (st\<lparr>fs_app := (fs_app st)\<lparr>app_db := db, app_jobs := rj\<rparr>\<rparr>)"
begin

lemma slots: "Inv st \<Longrightarrow> Inv (st\<lparr>fs_app := (fs_app st)\<lparr>app_jobs := rj\<rparr>\<rparr>)"
  using statement [of st "app_db (fs_app st)" rj] by (simp add: job_frame_def)

lemma opened_request:
  assumes "Inv st" "open_request se secs t rq req call st w = Some (r, st', fl, w')" "\<And>caller. r = Inr caller \<Longrightarrow> P caller"
  shows "Inv st'"
  using assms(2)
proof (cases rule: open_request_cases)
  case (refused guard tp)
  then show ?thesis using admission assms(1) by simp
next
  case (trigger guard tp db rj)
  from statement [OF admission [OF assms(1), of tp guard], of db rj] trigger show ?thesis by simp
next
  case plain
  then show ?thesis using request [OF assms(1) _ assms(3)] by blast
qed

lemma process_step: "process_step P se t s s' \<Longrightarrow> Inv (fst s) \<Longrightarrow> Inv (fst s')"
proof (induction rule: process_step.induct)
  case (proc_tick resource st app new fl w)
  then show ?case using slots by (auto simp: cron_tick_def split: prod.splits bool.splits)
next
  case (proc_next log_id f st w f' db w' fl1 fl2)
  then show ?case using statement [OF _ flight_effect_frame [OF advance_effect [OF proc_next.hyps]], of "app_jobs (fs_app st)"] by simp
next
  case (proc_return log_id f st w r db w' fl1 fl2)
  then show ?case
    using statement [OF _ flight_effect_frame [OF advance_effect [OF proc_return.hyps]]] by (simp add: release_def)
qed (auto simp del: sweeps.simps simp: release_def intro: opened_request priming sweep slots)

lemma process_run: "process_run P se t0 s0 t s \<Longrightarrow> Inv (fst s0) \<Longrightarrow> Inv (fst s)"
  by (induction rule: process_run.induct) (auto dest: process_step)

end

lemma unstamped_config: "config_ok bk ops (unstamped db) \<longleftrightarrow> config_ok bk ops db"
  by (simp add: config_ok_def unstamped_def list_all_iff group_config_ok_def)

lemma unstamped_wanted: "wanted bk (unstamped db) r = wanted bk db r"
  by (cases r) (auto split: option.splits)

lemma frame_keys: "job_frame db db' \<Longrightarrow> api_keys db' = api_keys db"
  unfolding job_frame_def by (metis unstamped_sel(1))

lemma frame_service: "job_frame db db' \<Longrightarrow> service_ok bk ops m db \<Longrightarrow> service_ok bk ops m db'"
  using unstamped_config [of bk ops db'] unstamped_config [of bk ops db]
  by (simp add: service_ok_def lineage_ok_def frame_keys) (simp add: job_frame_def)

lemma frame_wanted: "job_frame db db' \<Longrightarrow> wanted_shrinks bk db db'"
  using unstamped_wanted [of bk db'] unstamped_wanted [of bk db] by (simp add: job_frame_def wanted_shrinks_def)

interpretation sound_run: interleaved_invariant P se "sound_state se m"
  for P :: "api_key \<Rightarrow> bool" and se :: "('n, 'b, 'j, 'w) service_env" and m
  by unfold_locales (auto intro: frame_service)

interpretation rights_run: interleaved_invariant "\<lambda>k. \<not> is_master k" se "rights_within se m R"
  for se :: "('n, 'b, 'j, 'w) service_env" and m R
  by unfold_locales (auto intro: frame_service simp: global_rights_frame [OF frame_keys])

interpretation scheduled_run: interleaved_invariant P se "scheduled_state se jobs m"
  for P :: "api_key \<Rightarrow> bool" and se :: "('n, 'b, 'j, 'w) service_env" and jobs m
  by unfold_locales (auto intro: frame_service elim!: covered_frame dest: frame_wanted)

section \<open>Slots\<close>

text \<open>The slots and the ids in flight, where the process moves as \<open>Jobs\<close> allows.\<close>

definition slots_of :: "('n, 'b, 'j, 'w) process \<Rightarrow> running_jobs \<times> uuid list" where
  "slots_of s = (app_jobs (fs_app (fst s)), map flight_id (fst (snd s)))"

lemma claimed_slot: "try_start_job rj i = (True, rj') \<Longrightarrow> job_guard_drop rj' i = rj"
  by (auto simp: try_start_job_def job_guard_drop_def split: if_splits)

lemma refused_slot: "try_start_job rj i = (False, rj') \<Longrightarrow> rj' = rj"
  by (auto simp: try_start_job_def split: if_splits)

lemma begin_slots:
  assumes "opened (begin_sync rq caller i st) = (st', fl) \<or> opened (begin_ingest rq caller i st) = (st', fl)"
  shows "app_jobs st' = app_jobs st \<and> fl = [] \<or>
    (\<exists>f. fl = [f] \<and> try_start_job (app_jobs st) (flight_id f) = (True, app_jobs st'))"
  using assms
  by (auto simp: begin_sync_def begin_ingest_def opened_def try_h_def claimed_slot refused_slot
      split: sum.splits prod.splits bool.splits)

lemma tick_slots:
  "cron_tick resource st = (st', fl) \<Longrightarrow> app_jobs st' = app_jobs st \<and> fl = [] \<or>
    (\<exists>f. fl = [f] \<and> try_start_job (app_jobs st) (flight_id f) = (True, app_jobs st'))"
  by (auto simp: cron_tick_def refused_slot split: prod.splits bool.splits)

lemma task_jobs_kept: "app_jobs (snd (handle_task bk rq caller r st)) = app_jobs st"
proof (cases r)
  case (CreateTask p)
  show ?thesis unfolding CreateTask snd_handle_task create_vault_sync_task_def Let_def
    by (intro try_h_snd_cases [where P = "\<lambda>s. app_jobs s = app_jobs st"]) auto
next
  case (UpdateTask i p)
  show ?thesis unfolding UpdateTask snd_handle_task update_vault_sync_task_def Let_def
    by (intro try_h_snd_cases [where P = "\<lambda>s. app_jobs s = app_jobs st"]) auto
next
  case (DeleteTask i)
  show ?thesis unfolding DeleteTask snd_handle_task delete_vault_sync_task_def Let_def by (auto simp: try_h_def split: sum.splits)
qed

lemma source_jobs_kept: "app_jobs (handle_source bk ops rq caller r st) = app_jobs st" (is "?Q (handle_source bk ops rq caller r st)")
proof (cases r)
  case (CreateGroup p)
  show ?thesis unfolding CreateGroup handle_source.simps create_destination_group_def Let_def
    by (intro try_h_snd_cases [where P = ?Q]) auto
next
  case (UpdateGroup i p)
  show ?thesis unfolding UpdateGroup handle_source.simps update_destination_group_def Let_def
    by (intro try_h_snd_cases [where P = ?Q]) auto
next
  case (DeleteGroup i)
  show ?thesis unfolding DeleteGroup handle_source.simps delete_destination_group_def Let_def by (auto simp: try_h_def split: sum.splits)
qed (auto simp: create_feed_def update_feed_def delete_feed_def try_h_def Let_def split: sum.splits)

lemma dispatch_jobs:
  assumes "dispatch se cipher rq caller call st w = Some (st', w')" "\<And>i. call \<noteq> TriggerGroupCall i" "\<And>i. call \<noteq> TriggerTaskCall i"
  shows "app_jobs st' = app_jobs st"
  using assms by (cases call) (auto simp: task_jobs_kept source_jobs_kept)

lemma open_call_slots:
  assumes "open_call se cipher rq caller call st w = Some ((st', fl), w')"
  shows "app_jobs st' = app_jobs st \<and> fl = [] \<or>
    (\<exists>f. fl = [f] \<and> try_start_job (app_jobs st) (flight_id f) = (True, app_jobs st'))"
proof (cases "(\<exists>i. call = TriggerGroupCall i) \<or> (\<exists>i. call = TriggerTaskCall i)")
  case True
  then obtain i where "opened (begin_sync rq caller i st) = (st', fl) \<or> opened (begin_ingest rq caller i st) = (st', fl)"
    using assms by (elim disjE exE) (simp_all add: open_call_def, blast+)
  then show ?thesis by (rule begin_slots)
next
  case False
  then have "dispatch se cipher rq caller call st w = Some (st', w') \<and> fl = []"
    using assms by (cases call) (auto simp: open_call_def split: prod.splits)
  then have "app_jobs st' = app_jobs st" "fl = []" using False by (auto intro: dispatch_jobs)
  then show ?thesis by simp
qed

lemma open_request_slots:
  assumes "open_request se secs t rq req call st w = Some (r, st', fl, w')"
  shows "app_jobs (fs_app st') = app_jobs (fs_app st) \<and> fl = [] \<or>
    (\<exists>f. fl = [f] \<and> try_start_job (app_jobs (fs_app st)) (flight_id f) = (True, app_jobs (fs_app st')))"
  using assms by (auto simp: open_request_def split: prod.splits sum.splits dest: open_call_slots)

lemma started_flight:
  assumes "app_jobs app = app_jobs (fs_app st) \<and> new = [] \<or>
    (\<exists>f. new = [f] \<and> try_start_job (app_jobs (fs_app st)) (flight_id f) = (True, app_jobs app))"
  shows "job_step\<^sup>=\<^sup>= (slots_of (st, fl, w)) (app_jobs app, map flight_id (new @ fl))"
  using assms by (auto simp: slots_of_def intro: job_step.start)

lemma ended_flight:
  assumes "slots_ok (slots_of (st, fl1 @ f # fl2, w))"
  shows "job_step (slots_of (st, fl1 @ f # fl2, w)) (job_guard_drop (app_jobs (fs_app st)) (flight_id f), map flight_id (fl1 @ fl2))"
proof -
  have "flight_id f \<notin> flight_id ` set fl1" using assms by (auto simp: slots_ok_def slots_of_def)
  then have "remove1 (flight_id f) (map flight_id (fl1 @ f # fl2)) = map flight_id (fl1 @ fl2)" by (simp add: remove1_append)
  with job_step.finish [of "flight_id f" "map flight_id (fl1 @ f # fl2)" "app_jobs (fs_app st)"] show ?thesis by (simp add: slots_of_def)
qed

lemma process_slots:
  assumes "process_step P se t s s'" "slots_ok (slots_of s)"
  shows "job_step\<^sup>=\<^sup>= (slots_of s) (slots_of s')"
  using assms
proof (induction rule: process_step.induct)
  case (proc_request secs rq req call st w r st' new w' fl)
  from started_flight [OF open_request_slots [OF proc_request.hyps(1)], of fl w] show ?case by (simp add: slots_of_def)
next
  case (proc_tick resource st app new fl w)
  from started_flight [OF tick_slots [OF proc_tick.hyps(1)], of fl w] show ?case by (simp add: slots_of_def)
next
  case (proc_return log_id f st w r db w' fl1 fl2)
  from ended_flight [OF proc_return.prems] show ?case by (simp add: slots_of_def release_def)
next
  case (proc_abandon st fl1 f fl2 w)
  from ended_flight [OF proc_abandon.prems] show ?case by (simp add: slots_of_def release_def)
qed (auto simp: slots_of_def dest: advance_id simp del: advance.simps sweeps.simps)

lemma drop_lock [simp]: "running_poisoned (job_guard_drop rj i) = running_poisoned rj"
  by (simp add: job_guard_drop_def)

lemma start_lock: "try_start_job rj i = (ok, rj') \<Longrightarrow> running_poisoned rj' = running_poisoned rj"
  by (auto simp: try_start_job_def split: if_splits)

lemma process_lock:
  "process_step P se t s s' \<Longrightarrow> running_poisoned (app_jobs (fs_app (fst s'))) = running_poisoned (app_jobs (fs_app (fst s)))"
proof (induction rule: process_step.induct)
  case (proc_request secs rq req call st w r st' new w' fl)
  then show ?case using open_request_slots [OF proc_request.hyps(1)] start_lock by force
next
  case (proc_tick resource st app new fl w)
  then show ?case using tick_slots [OF proc_tick.hyps(1)] start_lock by force
qed (auto simp: release_def simp del: advance.simps sweeps.simps)

lemma process_run_lock:
  "process_run P se t0 s0 t s \<Longrightarrow> running_poisoned (app_jobs (fs_app (fst s))) = running_poisoned (app_jobs (fs_app (fst s0)))"
  by (induction rule: process_run.induct) (auto dest: process_lock)

lemma process_run_slots:
  assumes "process_run P se t0 s0 t s" "slots_ok (slots_of s0)"
  shows "job_step\<^sup>*\<^sup>* (slots_of s0) (slots_of s) \<and> slots_ok (slots_of s)"
  using assms
proof (induction rule: process_run.induct)
  case (proc_step t s u s')
  then have IH: "job_step\<^sup>*\<^sup>* (slots_of s0) (slots_of s)" "slots_ok (slots_of s)" by simp_all
  from process_slots [OF proc_step.hyps(3) IH(2)] IH show ?case by (auto intro: rtranclp.rtrancl_into_rtrancl dest: slots_ok_step)
qed simp

section \<open>Signatures\<close>

lemma open_request_auth:
  assumes "open_request se secs t rq req call st w = Some (r, st', fl, w')"
  obtains x tp w1 where "r = map_sum id fst x"
    "auth_middleware (auth_env_of (se_crypto se) (se_nets se) (se_max_body se) st) (se_dns se) (app_db (fs_app st)) secs t req
      (fs_replay st, fs_proxies st, w) = (x, fs_replay st', tp, w1)"
  using assms by (auto simp: open_request_def split: prod.splits sum.splits)

lemma open_request_served:
  assumes "open_request se secs t rq req call st w = Some (Inr caller, st', fl, w')"
  obtains key digest where
    "check_signature (auth_env_of (se_crypto se) (se_nets se) (se_max_body se) st) (app_db (fs_app st)) secs req = Inr (key, digest)"
    "key_id caller = key_id key" "check_and_record (fs_replay st) t (key_id key) digest = (True, fs_replay st')"
proof -
  obtain x tp w1 where x: "Inr caller = map_sum id fst x"
    "auth_middleware (auth_env_of (se_crypto se) (se_nets se) (se_max_body se) st) (se_dns se) (app_db (fs_app st)) secs t req
      (fs_replay st, fs_proxies st, w) = (x, fs_replay st', tp, w1)" using assms by (rule open_request_auth)
  then obtain ip where "x = Inr (caller, ip)" by (cases x) auto
  from auth_caller [OF x(2) [unfolded this]] that show thesis by blast
qed

lemma process_entry:
  assumes "process_step P se t s s'" "map_of (seen (fs_replay (fst s))) sid = Some e" "t < e"
  shows "map_of (seen (fs_replay (fst s'))) sid = Some e"
  using assms(1)
proof (cases rule: process_step.cases)
  case (proc_request secs rq req call st w r st' new w' fl)
  from proc_request(3) obtain x tp w1 where
    "auth_middleware (auth_env_of (se_crypto se) (se_nets se) (se_max_body se) st) (se_dns se) (app_db (fs_app st)) secs t req
      (fs_replay st, fs_proxies st, w) = (x, fs_replay st', tp, w1)" by (rule open_request_auth)
  from auth_guard [OF this] assms(2,3) proc_request(1,2) show ?thesis by (auto dest: entry_survives)
qed (use assms(2) in auto)

lemma process_run_entry:
  assumes "process_run P se t0 s0 t s" "map_of (seen (fs_replay (fst s0))) sid = Some e" "t < e"
  shows "map_of (seen (fs_replay (fst s))) sid = Some e"
  using assms
proof (induction rule: process_run.induct)
  case (proc_step t s u s')
  then have "map_of (seen (fs_replay (fst s))) sid = Some e" by simp
  with process_entry [OF proc_step.hyps(3)] proc_step.prems show ?case by simp
qed

section \<open>Serialised runs\<close>

abbreviation process_steps where
  "process_steps P se t \<equiv> (process_step P se t)\<^sup>+\<^sup>+"

lemma run_steps: "process_steps P se u s s' \<Longrightarrow> process_run P se t0 s0 t s \<Longrightarrow> t \<le> u \<Longrightarrow> process_run P se t0 s0 u s'"
  by (induction rule: tranclp_induct) (auto intro: proc_step)

lemma flown_alone:
  "complete (se_nets se) (se_ingest se) log_id f (app_db (fs_app st)) w = Some ((r, db), w') \<Longrightarrow>
   process_steps P se t (st, f # fl, w) (st\<lparr>fs_app := release f ((fs_app st)\<lparr>app_db := db\<rparr>)\<rparr>, fl, w')"
proof (induction "phase_rank f" arbitrary: f st w rule: less_induct)
  case less
  obtain p db1 w1 where adv: "advance (se_nets se) (se_ingest se) log_id f (app_db (fs_app st)) w = Some (p, db1, w1)"
    using less.prems by (auto simp: complete.simps [of _ _ _ f] split: option.splits)
  show ?case
  proof (cases p)
    case (Next f')
    let ?st = "st\<lparr>fs_app := (fs_app st)\<lparr>app_db := db1\<rparr>\<rparr>"
    have "process_step P se t (st, f # fl, w) (?st, f' # fl, w1)"
      using proc_next [OF adv [unfolded Next], of P t "[]" fl] by simp
    moreover have "process_steps P se t (?st, f' # fl, w1) (?st\<lparr>fs_app := release f' ((fs_app ?st)\<lparr>app_db := db\<rparr>)\<rparr>, fl, w')"
      using less.prems adv Next by (intro less.hyps) (simp_all add: complete.simps [of _ _ _ f] advance_rank)
    ultimately show ?thesis using advance_id [OF adv [unfolded Next]] by (auto simp: release_def intro: tranclp_into_tranclp2)
  next
    case (Returned x)
    then have "db1 = db" "w1 = w'" using less.prems adv by (simp_all add: complete.simps [of _ _ _ f])
    with proc_return [OF adv [unfolded Returned], of P t "[]" fl] show ?thesis by simp
  qed
qed

lemma scheduled_flight:
  assumes "scheduled_ingest se log_id i (fs_app st) w = Some (app, w') \<or> scheduled_sync se log_id i (fs_app st) w = Some (app, w')"
  shows "process_steps P se t (st, fl, w) (st\<lparr>fs_app := app\<rparr>, fl, w')"
proof -
  obtain resource where run: "flight_id (first_phase resource) = i"
    "(case try_start_job (app_jobs (fs_app st)) i of
        (False, rj) \<Rightarrow> Some ((fs_app st)\<lparr>app_jobs := rj\<rparr>, w)
      | (True, rj) \<Rightarrow> map_option (\<lambda>((_, db), w'). ((fs_app st)\<lparr>app_db := db, app_jobs := job_guard_drop rj i\<rparr>, w'))
          (complete (se_nets se) (se_ingest se) log_id (first_phase resource) (app_db (fs_app st)) w)) = Some (app, w')"
    using assms
  proof
    assume "scheduled_ingest se log_id i (fs_app st) w = Some (app, w')"
    then show thesis using that [of "IngestGroup i"] unfolding scheduled_ingest_def first_phase.simps complete_ingest flight.sel by blast
  next
    assume "scheduled_sync se log_id i (fs_app st) w = Some (app, w')"
    then show thesis using that [of "SyncTask i"] unfolding scheduled_sync_def first_phase.simps complete_sync flight.sel by blast
  qed
  obtain ok rj where slot: "try_start_job (app_jobs (fs_app st)) i = (ok, rj)" by (rule prod.exhaust)
  show ?thesis
  proof (cases ok)
    case True
    let ?f = "first_phase resource" and ?st = "st\<lparr>fs_app := (fs_app st)\<lparr>app_jobs := rj\<rparr>\<rparr>"
    obtain r db where c: "complete (se_nets se) (se_ingest se) log_id ?f (app_db (fs_app ?st)) w = Some ((r, db), w')"
        "app = (fs_app st)\<lparr>app_db := db, app_jobs := job_guard_drop rj i\<rparr>"
      using run(2) slot True by auto
    have "process_step P se t (st, fl, w) (?st, ?f # fl, w)"
      using proc_tick [of resource st "(fs_app st)\<lparr>app_jobs := rj\<rparr>" "[?f]" P se t fl w] slot True run(1) by (simp add: cron_tick_def)
    with flown_alone [OF c(1)] c(2) run(1) show ?thesis by (auto simp: release_def intro: tranclp_into_tranclp2)
  next
    case False
    then have "app = (fs_app st)\<lparr>app_jobs := rj\<rparr>" "w' = w" using run(2) slot by simp_all
    with proc_tick [of resource st app "[]" P se t fl w] slot False run(1) show ?thesis by (auto simp: cron_tick_def)
  qed
qed

text \<open>A trigger that runs to its end at once, as a flight that is opened and then flown.\<close>

definition flown ::
  "'n ipnet_ops \<Rightarrow> 'w ingest_env \<Rightarrow> ('b, 'j) app_state \<times> flight list \<Rightarrow> 'w \<Rightarrow> ('b, 'j) app_state \<Rightarrow> 'w \<Rightarrow> bool" where
  "flown nets env op w st' w' \<longleftrightarrow>
     (case op of
        (st1, []) \<Rightarrow> st' = st1 \<and> w' = w
      | (st1, f # fl) \<Rightarrow> fl = [] \<and> (\<exists>log_id r db. complete nets env log_id f (app_db st1) w = Some ((r, db), w') \<and>
          st' = release f (st1\<lparr>app_db := db\<rparr>)))"

lemma triggered_task:
  assumes "trigger_vault_sync_task nets (ig_client env) rq caller i st w = Some ((r, st'), w')"
  shows "flown nets env (opened (begin_sync rq caller i st)) w st' w'"
  using assms
  by (auto simp: trigger_vault_sync_task_def begin_sync_def flown_def opened_def release_def complete_sync
      split: option.splits sum.splits prod.splits bool.splits)

lemma triggered_group:
  assumes "trigger_destination_group nets env rq caller i st w = Some ((r, st'), w')"
  shows "flown nets env (opened (begin_ingest rq caller i st)) w st' w'"
  using assms
  by (auto simp: trigger_destination_group_def begin_ingest_def flown_def opened_def release_def complete_ingest
      split: option.splits sum.splits prod.splits bool.splits)

lemma dispatched:
  assumes "dispatch se cipher rq caller call st w = Some (st', w')"
  shows "\<exists>op w1. open_call se cipher rq caller call st w = Some (op, w1) \<and> flown (se_nets se) (se_ingest se) op w1 st' w'"
proof (cases "(\<exists>i. call = TriggerGroupCall i) \<or> (\<exists>i. call = TriggerTaskCall i)")
  case True
  then show ?thesis
    using assms by (elim disjE exE) (auto simp: open_call_def split: prod.splits dest: triggered_task triggered_group)
next
  case False
  then have "open_call se cipher rq caller call st w = Some ((st', []), w')"
    using assms by (cases call) (auto simp: open_call_def)
  then show ?thesis by (simp add: flown_def)
qed

lemma served_flight:
  assumes "serve se secs t rq req call st w = Some (r, st', w')" "\<And>caller. r = Inr caller \<Longrightarrow> P caller"
  shows "process_steps P se t (st, fl, w) (st', fl, w')"
  using assms(1)
proof (cases rule: serve_cases)
  case (refused e guard tp)
  then have "open_request se secs t rq req call st w = Some (r, st', [], w')" by (simp add: open_request_def)
  from proc_request [where fl = fl and P = P, OF this] assms(2) show ?thesis by auto
next
  case (served caller ip guard tp w1 app)
  obtain app1 new w2 where op: "open_call se (fs_cipher st) (rq\<lparr>client_ip := ip\<rparr>) caller call (fs_app st) w1 = Some ((app1, new), w2)"
      "flown (se_nets se) (se_ingest se) (app1, new) w2 app w'"
    using dispatched [OF served(4)] by auto
  let ?st = "st\<lparr>fs_replay := guard, fs_proxies := tp, fs_app := app1\<rparr>"
  have "open_request se secs t rq req call st w = Some (r, ?st, new, w2)" using served(1,3) op(1) by (simp add: open_request_def)
  from proc_request [where fl = fl and P = P, OF this] assms(2) have start: "process_step P se t (st, fl, w) (?st, new @ fl, w2)" by blast
  show ?thesis
  proof (cases new)
    case Nil
    with start op(2) served(2) show ?thesis by (auto simp: flown_def)
  next
    case (Cons f rest)
    then obtain log_id x db where c: "complete (se_nets se) (se_ingest se) log_id f (app_db (fs_app ?st)) w2 = Some ((x, db), w')"
        "app = release f (app1\<lparr>app_db := db\<rparr>)" "rest = []" using op(2) by (auto simp: flown_def)
    from flown_alone [OF c(1), of P t fl] start Cons c(2,3) served(2) show ?thesis by (auto intro: tranclp_into_tranclp2)
  qed
qed

lemma service_step_steps:
  assumes "service_step P se t s s'"
  shows "process_steps P se t (fst s, fl, snd s) (fst s', fl, snd s')"
  using assms
proof (cases rule: service_step.cases)
  case (step_request secs rq req call st w r st' w')
  from served_flight [OF this(3,4)] this(1,2) show ?thesis by simp
qed (auto intro: proc_prime proc_sweep scheduled_flight simp del: sweeps.simps)

section \<open>Properties\<close>

text \<open>
  C1. Throughout every run of a started process, however requests, sweeps and the statements of the
  jobs interleave and wherever a job is cut off: all constraints and the lineage hold, the stored
  configuration is one the jobs can run, there is exactly one Master row, whose id is the one
  pinned at the start, and exactly the resources with an execution in flight hold their slot,
  each with one execution.\<close>

theorem service_invariants:
  assumes "start_service (se_crypto se) (se_nets se) (se_backend se) env pf rq db = (Inr (printed, st), db')"
    and "db_ok db" "lineage_ok db" "config_ok (se_backend se) (ig_ops (se_ingest se)) db"
    and "process_run (\<lambda>_. True) se t (st, [], w) u (st', fl, w')"
  shows "(\<exists>m. pin_cell (fs_pin st) = Some m \<and> pin_cell (fs_pin st') = Some m \<and>
      service_ok (se_backend se) (ig_ops (se_ingest se)) m (app_db (fs_app st'))) \<and>
    distinct (map flight_id fl) \<and> running (app_jobs (fs_app st')) = set (map flight_id fl)"
proof -
  obtain i where i: "sound_state se i st" by (rule start_sound [OF assms(1-4)])
  have jobs: "app_jobs (fs_app st) = \<lparr>running = {}, running_poisoned = False\<rparr>" using assms(1) unfolding start_service_Inr by auto
  from sound_run.process_run [OF assms(5), of i] i have "sound_state se i st'" by simp
  moreover have "slots_ok (slots_of (st', fl, w')) \<and> \<not> running_poisoned (app_jobs (fs_app st'))"
    using process_run_slots [OF assms(5)] process_run_lock [OF assms(5)] jobs by (simp add: slots_of_def slots_ok_def)
  ultimately show ?thesis using i by (auto simp: slots_of_def slots_ok_def)
qed

text \<open>
  C2. No escalation over time: in a run in which no request is served for the Master, whatever the
  other keys do together and whatever runs between, no key ever holds a global right it did not
  hold at the start.\<close>

theorem rights_never_grow_without_master:
  assumes "process_run (\<lambda>caller. \<not> is_master caller) se t (st, fl, w) u (st', fl', w')"
    and "service_ok (se_backend se) (ig_ops (se_ingest se)) m (app_db (fs_app st))" "pin_cell (fs_pin st) = Some m"
  shows "global_rights (app_db (fs_app st')) \<subseteq> global_rights (app_db (fs_app st))"
  using rights_run.process_run [OF assms(1), of m "global_rights (app_db (fs_app st))"] assms(2,3) by simp

text \<open>
  C3. A signed request is served at most once per key: when it has been served, and anything at all
  has happened since, then sending it again before the window has passed is not served for the
  same key.\<close>

theorem signed_request_served_once:
  assumes "open_request se secs t rq req call st w = Some (Inr caller, st1, new, w1)"
    and "process_run P se t (st1, fl1, w1) u (st2, fl2, w2)" "u \<le> v" "v < t + window (fs_replay st)"
    and "open_request se secs' v rq' req call' st2 w2 = Some (r, st3, new', w3)"
  shows "\<forall>caller'. r = Inr caller' \<longrightarrow> key_id caller' \<noteq> key_id caller"
proof (intro allI impI notI)
  fix caller' assume r: "r = Inr caller'" and same: "key_id caller' = key_id caller"
  let ?au = "\<lambda>st. auth_env_of (se_crypto se) (se_nets se) (se_max_body se) st"
  obtain key digest where k: "check_signature (?au st) (app_db (fs_app st)) secs req = Inr (key, digest)" "key_id caller = key_id key"
    "check_and_record (fs_replay st) t (key_id key) digest = (True, fs_replay st1)"
    using assms(1) by (rule open_request_served)
  obtain key' digest' where k': "check_signature (?au st2) (app_db (fs_app st2)) secs' req = Inr (key', digest')" "key_id caller' = key_id key'"
    "check_and_record (fs_replay st2) v (key_id key') digest' = (True, fs_replay st3)"
    using assms(5) unfolding r by (rule open_request_served)
  have "digest' = digest" by (rule checked_digest [OF k(1) k'(1)]) (simp add: auth_env_of_def)
  moreover have "map_of (seen (fs_replay (fst (st2, fl2, w2)))) (SignatureId (key_id key) digest) = Some (t + window (fs_replay st))"
    by (rule process_run_entry [OF assms(2)]) (use entry_recorded [OF k(3)] assms(3,4) in simp_all)
  then have "\<not> fst (check_and_record (fs_replay st2) v (key_id key) digest)"
    using assms(4) by (intro entry_refused) simp_all
  ultimately show False using k'(2,3) k(2) same by simp
qed



section \<open>Witnesses\<close>

lemma open_plain:
  "(\<And>i. call \<noteq> TriggerGroupCall i) \<Longrightarrow> (\<And>i. call \<noteq> TriggerTaskCall i) \<Longrightarrow>
   open_request se secs t rq req call st w = map_option (\<lambda>(r, st', w'). (r, st', [], w')) (serve se secs t rq req call st w)"
  by (cases call) (auto simp: open_request_def serve_def open_call_def map_option.compositionality comp_def
      split: prod.splits sum.splits intro!: map_option_cong)

lemma daughter_opened:
  assumes "served_daughter = Some (r, st, w)"
  shows "open_request sample_se 1100 0 next_rq first_request create_daughter started idle_world = Some (r, st, [], w)"
  using assms by (simp add: open_plain create_daughter_def del: split_paired_Ex)

lemma open_read: "\<exists>x st' w'. open_request se secs t rq req (ReadCall r) st w = Some (x, st', [], w')"
  unfolding open_request_def by (simp add: open_call_def split: prod.split sum.split)

text \<open>A request for a new key, then a tick of the group, whose job is left in flight.\<close>

lemma sample_run:
  obtains st w g where "process_run (\<lambda>_. True) sample_se 0 (started, [], idle_world) 3 (st, [IngestFlight 6 IngestClaimed], w)"
    "map key_id (api_keys (app_db (fs_app st))) = [100, 200]"
    "find_group (app_db (fs_app st)) 6 = Some g" "group_is_active g" "group_cron_schedule g = ''0 0 * * *''"
proof -
  obtain caller st w g where run: "served_daughter = Some (Inr caller, st, w)" "map key_id (api_keys (app_db (fs_app st))) = [100, 200]"
      "find_group (app_db (fs_app st)) 6 = Some g" "group_is_active g" "group_cron_schedule g = ''0 0 * * *''"
    by (rule daughter_obtain)
  note req = daughter_opened [OF run(1)]
  have "process_run (\<lambda>_. True) sample_se 0 (started, [], idle_world) 0 (st, [] @ [], w)"
    by (rule proc_step [OF proc_start order_refl proc_request [OF req]]) simp
  moreover
  have "app_jobs (fs_app started) = \<lparr>running = {}, running_poisoned = False\<rparr>" by (rule started_state)
  then have "running (app_jobs (fs_app st)) = {}" "\<not> running_poisoned (app_jobs (fs_app st))"
    using open_request_slots [OF req] by auto
  then have "cron_tick (IngestGroup 6) (fs_app st) =
      ((fs_app st)\<lparr>app_jobs := (app_jobs (fs_app st))\<lparr>running := {6}\<rparr>\<rparr>, [IngestFlight 6 IngestClaimed])"
    by (simp add: cron_tick_def try_start_job_def)
  note proc_tick [where fl = "[]" and w = w and P = "\<lambda>_. True", OF this]
  ultimately have "process_run (\<lambda>_. True) sample_se 0 (started, [], idle_world) 3
      (st\<lparr>fs_app := (fs_app st)\<lparr>app_jobs := (app_jobs (fs_app st))\<lparr>running := {6}\<rparr>\<rparr>\<rparr>, [IngestFlight 6 IngestClaimed], w)"
    by (auto intro: proc_step)
  then show thesis by (rule that) (use run(2-5) in simp_all)
qed

theorem service_invariants_witness:
  "\<exists>st w. process_run (\<lambda>_. True) sample_se 0 (started, [], idle_world) 3 (st, [IngestFlight 6 IngestClaimed], w) \<and>
     map key_id (api_keys (app_db (fs_app st))) = [100, 200] \<and> running (app_jobs (fs_app st)) = {6} \<and>
     (\<exists>m. pin_cell (fs_pin st) = Some m \<and> service_ok table_backend token_ops m (app_db (fs_app st)))"
proof -
  obtain db' where boot: "first_start = (Inr (Some (first_secret, first_secret), started), db')" using started_eq by blast
  obtain st w where run: "process_run (\<lambda>_. True) sample_se 0 (started, [], idle_world) 3 (st, [IngestFlight 6 IngestClaimed], w)"
    "map key_id (api_keys (app_db (fs_app st))) = [100, 200]" by (rule sample_run)
  from service_invariants [OF _ empty_db_ok(1,2) _ run(1), unfolded sample_parts, OF boot empty_db_ok(3)]
  have "\<exists>m. pin_cell (fs_pin st) = Some m \<and> service_ok table_backend token_ops m (app_db (fs_app st))" "running (app_jobs (fs_app st)) = {6}"
    by auto
  note facts = run this(2,1)
  show ?thesis by (intro exI [of _ st] exI [of _ w] conjI) (fact facts)+
qed

theorem rights_never_grow_without_master_witness:
  "\<exists>st w. process_run (\<lambda>caller. \<not> is_master caller) sample_se 0 (started, [], idle_world) 5 (st, [], w) \<and>
     global_rights (app_db (fs_app st)) \<subseteq> global_rights (app_db (fs_app started))"
proof -
  obtain db where sweep: "sweeps (ig_earliest (se_ingest sample_se)) (se_sync_log_days sample_se) (se_audit_log_days sample_se) [0] (app_db (fs_app started)) = Some db"
    by (auto simp: sample_se_def sim_ingest_def purge_expired_sync_logs_def purge_expired_audit_logs_def purge_threshold_def day_ms_def)
  let ?st = "started\<lparr>fs_app := (fs_app started)\<lparr>app_db := db\<rparr>\<rparr>"
  have r: "process_run (\<lambda>caller. \<not> is_master caller) sample_se 0 (started, [], idle_world) 5 (?st, [], idle_world)"
    by (rule proc_step [OF proc_start _ proc_sweep [OF sweep]]) simp
  have "global_rights (app_db (fs_app ?st)) \<subseteq> global_rights (app_db (fs_app started))"
    by (rule started_state) (rule rights_never_grow_without_master [OF r, unfolded sample_parts])
  with r show ?thesis by (intro exI conjI) assumption+
qed

theorem signed_request_served_once_witness:
  "\<exists>caller st1 w1 r st3 w3. open_request sample_se 1100 0 next_rq first_request create_daughter started idle_world = Some (Inr caller, st1, [], w1) \<and>
     open_request sample_se 1100 1000 next_rq first_request (ReadCall ReadMe) st1 w1 = Some (r, st3, [], w3) \<and>
     (case r of Inl _ \<Rightarrow> True | Inr c \<Rightarrow> key_id c \<noteq> 100)"
proof -
  obtain caller st1 w1 where run: "served_daughter = Some (Inr caller, st1, w1)" "key_id caller = 100" by (rule daughter_obtain)
  note req = daughter_opened [OF run(1)]
  obtain r st3 w3 where again: "open_request sample_se 1100 1000 next_rq first_request (ReadCall ReadMe) st1 w1 = Some (r, st3, [], w3)"
    using open_read [of sample_se 1100 1000 next_rq first_request ReadMe st1 w1] by (elim exE)
  have w: "window (fs_replay started) = 300000" by (rule started_state)
  have "\<forall>c. r = Inr c \<longrightarrow> key_id c \<noteq> 100"
    using signed_request_served_once [OF req proc_start [of "\<lambda>_. True"] _ _ again] run(2) by (simp add: w)
  then have "case r of Inl _ \<Rightarrow> True | Inr c \<Rightarrow> key_id c \<noteq> 100" by (cases r) auto
  note facts = req again this
  show ?thesis by (intro exI conjI) (fact facts)+
qed



end
