(* ===== verification/Hazards.thy ===== *)
theory Hazards
  imports TaskApi
begin

text \<open>
  Two hazards of editing a sync task. \<open>upsert_task\<close> of \<open>src/scheduler.rs\<close> runs after the handler's
  transaction and awaits between taking the old cron job out and adding the new one, so two edits of
  one task can overlap there, which the atomic handlers of \<open>TaskApi\<close> do not show. And the handler
  of \<open>src/api/sync_tasks.rs\<close> keeps \<open>last_sync_at\<close> when the source of a task changes.
\<close>

section \<open>Overlapping edits\<close>

text \<open>The part of \<open>upsert_task\<close> after its first await.\<close>

definition register_task :: "('b, 'j) cron_backend \<Rightarrow> vault_sync_task \<Rightarrow> ('b, 'j) scheduler_handle \<Rightarrow> ('b, 'j) scheduler_handle" where
  "register_task bk t h =
     (if \<not> task_is_active t then h
      else let cron = normalize_cron (task_cron_schedule t) in
        case job_new bk cron of
          Inl _ \<Rightarrow> h
        | Inr _ \<Rightarrow>
           (case job_add bk cron (SyncTask (task_id t)) (backend h) of
              (Inr j, b) \<Rightarrow> h\<lparr>backend := b, task_jobs := put_in (task_id t) j (task_jobs h)\<rparr>
            | (Inl _, b) \<Rightarrow> h\<lparr>backend := b\<rparr>))"

lemma upsert_task_parts: "upsert_task bk t h = register_task bk t (remove_task bk (task_id t) h)"
  by (simp add: upsert_task_def register_task_def Let_def)

text \<open>Two edits of one task, each of which takes the old job out before either adds its own.\<close>

definition overlapping_upserts ::
  "('b, 'j) cron_backend \<Rightarrow> vault_sync_task \<Rightarrow> vault_sync_task \<Rightarrow> ('b, 'j) scheduler_handle \<Rightarrow> ('b, 'j) scheduler_handle" where
  "overlapping_upserts bk t1 t2 h =
     register_task bk t2 (register_task bk t1 (remove_task bk (task_id t2) (remove_task bk (task_id t1) h)))"

context reliable_backend
begin

lemma register_live:
  assumes "active_cron bk (task_is_active t) (task_cron_schedule t) = {c}" "task_jobs h = Some m"
  shows "\<exists>j. live (backend h) j = None \<and> live (backend (register_task bk t h)) = (live (backend h))(j \<mapsto> (SyncTask (task_id t), c)) \<and>
    task_jobs (register_task bk t h) = Some (m(task_id t \<mapsto> j))"
proof -
  have c: "task_is_active t" "job_new bk (normalize_cron (task_cron_schedule t)) = Inr ()" "normalize_cron (task_cron_schedule t) = c"
    using assms(1) by (auto simp: active_cron_def split: if_splits)
  obtain j b where add: "job_add bk c (SyncTask (task_id t)) (backend h) = (Inr j, b)"
    using add_total unfolding adds_succeed_def by blast
  from add_ok [OF this] add c assms(2) show ?thesis by (auto simp: register_task_def put_in_def)
qed

lemma overlap_live:
  assumes "tracked live h" "task_id t2 = task_id t1"
    and "active_cron bk (task_is_active t1) (task_cron_schedule t1) = {c1}" "active_cron bk (task_is_active t2) (task_cron_schedule t2) = {c2}"
  shows "schedule live (backend (overlapping_upserts bk t1 t2 h)) (SyncTask (task_id t1)) = {c1, c2} \<and>
    schedule live (backend (remove_task bk (task_id t1) (overlapping_upserts bk t1 t2 h))) (SyncTask (task_id t1)) = {c1}"
proof -
  let ?i = "task_id t1" and ?r = "SyncTask (task_id t1)"
  let ?h0 = "remove_task bk ?i (remove_task bk ?i h)"
  have tr: "tracked live ?h0" using assms(1) by (intro remove_task_tracked)
  then obtain m where m: "task_jobs ?h0 = Some m" by (auto simp: tracked_def track_def)
  have none: "live (backend ?h0) j \<noteq> Some (?r, c)" for j c
    by (simp add: remove_task_live [OF remove_task_tracked [OF assms(1)]])
  obtain j1 where j1: "live (backend ?h0) j1 = None"
      "live (backend (register_task bk t1 ?h0)) = (live (backend ?h0))(j1 \<mapsto> (?r, c1))" "task_jobs (register_task bk t1 ?h0) = Some (m(?i \<mapsto> j1))"
    using register_live [OF assms(3) m] by blast
  let ?h2 = "overlapping_upserts bk t1 t2 h"
  obtain j2 where j2: "live (backend (register_task bk t1 ?h0)) j2 = None"
      "live (backend ?h2) = (live (backend (register_task bk t1 ?h0)))(j2 \<mapsto> (?r, c2))" "task_jobs ?h2 = Some (m(?i \<mapsto> j2))"
    using register_live [OF assms(4) j1(3)] unfolding overlapping_upserts_def assms(2) by auto
  have ne: "j2 \<noteq> j1" using j2(1) j1(2) by auto
  have l: "live (backend ?h2) = (live (backend ?h0))(j1 \<mapsto> (?r, c1), j2 \<mapsto> (?r, c2))" using j2(2) j1(2) by simp
  have "backend (remove_task bk ?i ?h2) = snd (job_remove bk j2 (backend ?h2))"
    by (simp add: remove_task_def take_out_def j2(3) remove_job_def)
  then have "live (backend (remove_task bk ?i ?h2)) = (live (backend ?h2))(j2 := None)" using remove_known [of "backend ?h2" j2] l by simp
  with l ne none show ?thesis by (auto simp: schedule_def)
qed

end

section \<open>Properties\<close>

text \<open>
  C22. Overlapping edits of one task leave a stale cron job. When both take the old job out before
  either adds its own, the task runs under both expressions, and the handle remembers only the
  later job: deleting the task leaves the one of the first edit running. Likewise an edit whose
  registration comes after a deletion brings a job back for a task that is gone.\<close>

theorem overlapping_edits_leave_stale_job:
  assumes "reliable_backend bk jobs" "tracked jobs h" "task_id t2 = task_id t1"
    and "active_cron bk (task_is_active t1) (task_cron_schedule t1) = {c1}" "active_cron bk (task_is_active t2) (task_cron_schedule t2) = {c2}"
  shows "upsert_task bk t1 h = register_task bk t1 (remove_task bk (task_id t1) h) \<and>
    schedule jobs (backend (overlapping_upserts bk t1 t2 h)) (SyncTask (task_id t1)) = {c1, c2} \<and>
    schedule jobs (backend (remove_task bk (task_id t1) (overlapping_upserts bk t1 t2 h))) (SyncTask (task_id t1)) = {c1} \<and>
    schedule jobs (backend (upsert_task bk t1 (remove_task bk (task_id t1) h))) (SyncTask (task_id t1)) = {c1}"
  using reliable_backend.overlap_live [OF assms] upsert_task_parts [of bk t1 h] assms(4)
    reliable_backend.upserts_spec(2) [OF assms(1) job_backend.remove_task_tracked [OF reliable_backend.axioms(1) [OF assms(1)] assms(2)]]
  by simp


section \<open>Witnesses\<close>

theorem overlapping_edits_leave_stale_job_witness:
  "schedule table_live (backend (overlapping_upserts table_backend cron_task (cron_task\<lparr>task_cron_schedule := ''30 6 * * *''\<rparr>) (app_sched task_st)))
     (SyncTask 30) = {''0 0 0 * * *'', ''0 30 6 * * *''}"
proof -
  have tr: "tracked table_live (app_sched task_st)" using task_st_mirrors by (simp add: mirrors_def)
  have "active_cron table_backend (task_is_active cron_task) (task_cron_schedule cron_task) = {''0 0 0 * * *''}"
    "active_cron table_backend (task_is_active (cron_task\<lparr>task_cron_schedule := ''30 6 * * *''\<rparr>))
       (task_cron_schedule (cron_task\<lparr>task_cron_schedule := ''30 6 * * *''\<rparr>)) = {''0 30 6 * * *''}"
    "task_id cron_task = 30" by code_simp+
  with overlapping_edits_leave_stale_job [OF table_jobs.reliable_backend_axioms tr _ this(1,2)] show ?thesis by simp
qed

text \<open>The task of \<open>task_st\<close> as it is after a first run, moved to another source group.\<close>

definition synced_st :: "(job_store, nat) app_state" where
  "synced_st = task_st\<lparr>app_db := task_db0\<lparr>tasks := [cron_task\<lparr>task_last_sync_at := Some 9\<rparr>]\<rparr>\<rparr>"

definition retarget :: update_task_payload where
  "retarget = \<lparr>ut_name = None, ut_source_vault_id = Some 10, ut_source_group_name = Some ''other'', ut_target_group_name = None,
     ut_cron_schedule = None, ut_is_active = None, ut_skip_bogon_filtering = None, ut_targets = None\<rparr>"


end
