(* ===== verification/Replication.thy ===== *)
theory Replication
  imports VaultSync
begin

text \<open>
  \<open>src/jobs/vault_sync.rs\<close> over many runs of one task. The position a run leaves behind is the
  instant it started at, before it asked the source for its changes. Over a source that lists what
  has changed since an instant, the deltas of the successful runs then leave no gap: this is what
  the comment on \<open>run\<close> promises. The clock of the service and the instants of the source
  are compared with each other, so the argument rests on the two agreeing.
\<close>

section \<open>The source\<close>

text \<open>
  \<open>changes sv g w\<close> is what has happened in the source so far: an address and the instant its record
  was last written. A listing since \<open>s\<close> has every address written at \<open>s\<close> or after, and what
  is written later than \<open>w\<close> is stamped with an instant that is not before the clock at \<open>w\<close>.
\<close>

locale change_feed =
  fixes env :: "'w client_env"
    and changes :: "vault_endpoint \<Rightarrow> string \<Rightarrow> 'w \<Rightarrow> (instant \<times> string) set"
    and later :: "'w \<Rightarrow> 'w \<Rightarrow> bool"
  assumes covers: "get_ips_delta env sv g since True w = Some (Inr delta, w') \<Longrightarrow> (c, a) \<in> changes sv g w \<Longrightarrow>
      (\<And>s. since = Some s \<Longrightarrow> s \<le> c) \<Longrightarrow> a \<in> ir_target_address ` set delta"
    and appended: "later w w' \<Longrightarrow> (c, a) \<in> changes sv g w' \<Longrightarrow> (c, a) \<in> changes sv g w \<or> utc_now (env_world env) w \<le> c"
    and later_trans: "later w w' \<Longrightarrow> later w' w'' \<Longrightarrow> later w w''"

section \<open>The runs of one task\<close>

text \<open>What a task reads from: the vault, the group there, and the position.\<close>

definition sync_source :: "database \<Rightarrow> uuid \<Rightarrow> (vault_endpoint option \<times> string \<times> instant option) option" where
  "sync_source db i =
     map_option (\<lambda>t. (find_vault db (task_source_vault_id t), task_source_group_name t, task_last_sync_at t)) (find_task db i)"

text \<open>A successful execution: where and when it started, its task and targets, its delta, and where it ended.\<close>

type_synonym 'w delivery =
  "'w \<times> vault_sync_task \<times> (task_target \<times> vault_endpoint option) list \<times> ip_record list \<times> 'w"

definition delivered :: "'n ipnet_ops \<Rightarrow> 'w client_env \<Rightarrow> database \<Rightarrow> uuid \<Rightarrow> 'w \<Rightarrow> 'w delivery list" where
  "delivered nets env db i w =
     (case find_task db i of None \<Rightarrow> [] | Some task \<Rightarrow>
     (case find_vault db (task_source_vault_id task) of None \<Rightarrow> [] | Some sv \<Rightarrow>
     (case sync_execute nets env task (Some sv) (task_targets_of db i) w of
        Some ((_, True), w') \<Rightarrow>
          (case get_ips_delta env sv (task_source_group_name task) (task_last_sync_at task) True w of
             Some (Inr delta, _) \<Rightarrow> [(w, task, task_targets_of db i, delta, w')] | _ \<Rightarrow> [])
      | _ \<Rightarrow> [])))"

text \<open>
  A task that starts without a position; edits that leave what it reads from alone; and runs, one
  after the other, successful or not. The last argument lists the successful ones.
\<close>

inductive sync_history ::
  "'n ipnet_ops \<Rightarrow> 'w client_env \<Rightarrow> ('w \<Rightarrow> 'w \<Rightarrow> bool) \<Rightarrow> uuid \<Rightarrow> database \<Rightarrow> 'w \<Rightarrow> 'w delivery list \<Rightarrow> bool"
  for nets env later i where
  fresh_task: "sync_source db i = Some (src, g, None) \<Longrightarrow> sync_history nets env later i db w []"
| edited: "sync_history nets env later i db w ds \<Longrightarrow> sync_source db' i = sync_source db i \<Longrightarrow> sync_history nets env later i db' w ds"
| executed: "sync_history nets env later i db w ds \<Longrightarrow> later w w1 \<Longrightarrow> sync_run nets env log_id i db w1 = Some ((r, db'), w2) \<Longrightarrow>
     sync_history nets env later i db' w1 (delivered nets env db i w1 @ ds)"

lemma sync_run_source:
  assumes "sync_run nets env log_id i db w = Some ((r, db'), w')"
  obtains (kept) "sync_source db' i = sync_source db i"
  | (moved) task sv delta targets w2 where "sync_source db i = Some (Some sv, task_source_group_name task, task_last_sync_at task)"
      "get_ips_delta env sv (task_source_group_name task) (task_last_sync_at task) True w = Some (Inr delta, w2)"
      "delivered nets env db i w = [(w, task, targets, delta, w')]"
      "sync_source db' i = Some (Some sv, task_source_group_name task, Some (utc_now (env_world env) w))"
proof (cases "find_task db i")
  case None
  then have "db' = db" using assms by (simp add: sync_run_def Let_def)
  then show thesis using kept by simp
next
  case (Some task)
  let ?now = "utc_now (env_world env) w"
  obtain sm ok where exec: "sync_execute nets env task (find_vault db (task_source_vault_id task)) (task_targets_of db i) w = Some ((sm, ok), w')"
    and run: "try_h (sql (write_sync_log log_id ''VAULT_SYNC'' i (task_name task) sm ?now db)) db (\<lambda>db1.
      if ok then try_h (sql (update_task (task\<lparr>task_last_sync_at := Some ?now\<rparr>) db1)) db1 (\<lambda>db2. (Inr sm, db2)) else (Inr sm, db1)) = (r, db')"
    using assms Some by (auto simp: sync_run_def Let_def split: option.splits)
  have logged: "sync_source db1 i = sync_source db i" "tasks db1 = tasks db" "vaults db1 = vaults db"
    if "write_sync_log log_id ''VAULT_SYNC'' i (task_name task) sm ?now db = Inr db1" for db1
    using that by (auto simp: write_sync_log_def insert_sync_log_def sync_source_def find_task_def find_vault_def)
  show thesis
  proof (cases "sync_source db' i = sync_source db i")
    case False
    then obtain db1 where log: "write_sync_log log_id ''VAULT_SYNC'' i (task_name task) sm ?now db = Inr db1"
      and upd: "update_task (task\<lparr>task_last_sync_at := Some ?now\<rparr>) db1 = Inr db'" and ok: ok
      using run logged(1) by (auto simp: try_h_def sql_def split: sum.splits if_splits)
    obtain sv delta w2 where d: "find_vault db (task_source_vault_id task) = Some sv"
      "get_ips_delta env sv (task_source_group_name task) (task_last_sync_at task) True w = Some (Inr delta, w2)"
      using exec ok by (auto simp: sync_execute_def Let_def split: option.splits sum.splits prod.splits)
    have t: "task_id task = i" "task \<in> set (tasks db)" using find_task_Some [OF Some] by simp_all
    then have known: "i \<in> task_id ` set (tasks db)" by blast
    have tb: "tasks db' = replace_row task_id (task\<lparr>task_last_sync_at := Some ?now\<rparr>) (tasks db)" "vaults db' = vaults db"
      using upd logged(2,3) [OF log] by (auto simp: update_task_def split: if_splits)
    have "find_task db' i = Some (task\<lparr>task_last_sync_at := Some ?now\<rparr>)"
      using find_replace_row [of task_id "task\<lparr>task_last_sync_at := Some ?now\<rparr>" "tasks db" i] t(1) known by (simp add: find_task_def tb)
    moreover have "find_vault db' v = find_vault db v" for v by (simp add: find_vault_def tb)
    ultimately have "sync_source db' i = Some (Some sv, task_source_group_name task, Some ?now)" using d(1) by (simp add: sync_source_def)
    moreover have "delivered nets env db i w = [(w, task, task_targets_of db i, delta, w')]"
      using Some d exec ok by (simp add: delivered_def)
    ultimately show thesis using moved d Some by (simp add: sync_source_def)
  qed (rule kept)
qed

lemma delivered_executes:
  assumes "(wk, task, targets, delta, w2) \<in> set (delivered nets env db i w)"
  shows "\<exists>sv summary w1. sync_execute nets env task (Some sv) targets wk = Some ((summary, True), w2) \<and>
    get_ips_delta env sv (task_source_group_name task) (task_last_sync_at task) True wk = Some (Inr delta, w1)"
  using assms by (auto simp: delivered_def split: option.splits prod.splits bool.splits sum.splits) metis

lemma history_executes:
  assumes "sync_history nets env later i db w ds" "(wk, task, targets, delta, w2) \<in> set ds"
  shows "\<exists>sv summary w1. sync_execute nets env task (Some sv) targets wk = Some ((summary, True), w2) \<and>
    get_ips_delta env sv (task_source_group_name task) (task_last_sync_at task) True wk = Some (Inr delta, w1)"
  using assms
proof (induction rule: sync_history.induct)
  case (executed db w ds w1 log_id r db' w2')
  from executed.prems consider "(wk, task, targets, delta, w2) \<in> set (delivered nets env db i w1)" | "(wk, task, targets, delta, w2) \<in> set ds"
    by auto
  then show ?case by cases (rule delivered_executes executed.IH; assumption)+
qed simp_all

context change_feed
begin

lemma no_gap:
  assumes "sync_history nets env later i db w ds" "sync_source db i = Some (Some sv, g, Some s)"
    and "later w w'" "(c, a) \<in> changes sv g w'" "c < s"
  shows "\<exists>(wk, task, targets, delta, w2) \<in> set ds. (c, a) \<in> changes sv g wk \<and> a \<in> ir_target_address ` set delta"
  using assms
proof (induction arbitrary: s w' rule: sync_history.induct)
  case (executed db w ds w1 log_id r db' w2)
  from executed.hyps(3) show ?case
  proof (cases rule: sync_run_source)
    case kept
    from executed.IH [OF executed.prems(1) [unfolded kept] later_trans [OF executed.hyps(2) executed.prems(2)] executed.prems(3,4)]
    show ?thesis unfolding set_append bex_Un by (rule disjI2)
  next
    case (moved task sv' delta targets w3)
    then have eq: "sv' = sv" "task_source_group_name task = g" "s = utc_now (env_world env) w1" using executed.prems(1) by simp_all
    have seen: "(c, a) \<in> changes sv g w1" using appended [OF executed.prems(2,3)] executed.prems(4) eq(3) by auto
    show ?thesis
    proof (cases "\<exists>p. task_last_sync_at task = Some p \<and> c < p")
      case True
      then obtain p where p: "task_last_sync_at task = Some p" "c < p" by blast
      have "sync_source db i = Some (Some sv, g, Some p)" using moved(1) eq p(1) by simp
      from executed.IH [OF this executed.hyps(2) seen p(2)] show ?thesis unfolding set_append bex_Un by (rule disjI2)
    next
      case False
      have "a \<in> ir_target_address ` set delta"
        by (rule covers [OF moved(2)]) (use seen eq False in auto)
      with seen moved(3) show ?thesis by simp
    qed
  qed
next
  case (edited db w ds db')
  from edited.IH [OF edited.prems(1) [unfolded edited.hyps(2)] edited.prems(2-4)] show ?case .
qed simp

end

section \<open>Properties\<close>


section \<open>Witnesses\<close>

definition sim_changes :: "vault_endpoint \<Rightarrow> string \<Rightarrow> sim_world \<Rightarrow> (instant \<times> string) set" where
  "sim_changes sv g w = (if sv = sim_endpoint then {(-1, ''8.8.8.8'')} else {})"

interpretation sim_feed: change_feed sim_env sim_changes "\<lambda>_ _. True"
  by unfold_locales (auto simp: sim_changes_def sim_delta sim_listing_def split: if_splits)


end
