(* ===== verification/Spec2Isabelle.thy ===== *)
theory Spec2Isabelle
  imports VaultSync Replay Keys Scheduler VaultApi TaskApi Parsers Decompress Ingestion SourceApi Config Auth Logs Service Migrations
    Extract Router Startup Schedules Flights Interleaving Hazards Replication
begin

text \<open>
  A model of \<open>simply_ip_sync\<close>, a service that collects threat-intelligence feeds, pushes the
  addresses in them to remote vaults, and replicates groups of addresses between vaults. All
  paths below are under \<open>src/src/\<close> of the repository.

  \<^bold>\<open>The program.\<close> Requests come in over HTTP. The router (\<open>lib.rs\<close>) puts everything under \<open>/api\<close>
  behind the authentication middleware (\<open>middleware.rs\<close>), which resolves the client address
  (\<open>config.rs\<close>), verifies an HMAC over the request (\<open>crypto.rs\<close>), refuses replays (\<open>replay.rs\<close>) and
  strips the Master flag from keys that are not the Master (\<open>master.rs\<close>). The handlers
  (\<open>api/\<close>) check their guards and change rows of the database (\<open>entities/\<close>, \<open>migration/\<close>) and the
  set of live cron jobs (\<open>scheduler.rs\<close>). Cron ticks and manual triggers run the two jobs
  (\<open>jobs/external_ingestion.rs\<close> with \<open>parsers/\<close>, \<open>jobs/decompress.rs\<close> and \<open>bogon.rs\<close>;
  \<open>jobs/vault_sync.rs\<close>), one at a time per resource (\<open>jobs/mod.rs\<close>), which talk to the vaults
  through \<open>client.rs\<close> and \<open>retry.rs\<close>. A worker deletes old history (\<open>retention.rs\<close>). \<open>main.rs\<close> brings
  all this up.

  \<^bold>\<open>How it is modelled.\<close> Structures are records and enumerations datatypes with the names of the
  source; \<open>Result\<close> is a sum with the error on the left, and every early return is a branch. The
  database is a record of ten lists of rows (\<open>Store\<close>) with the constraints of the migrations as
  the predicate \<open>db_ok\<close>; an insert or update that would break one is an error. What the program
  gets from outside is an argument: \<open>request_env\<close> has the clock, the fresh ids and the randomness
  of a request, \<open>world_ops\<close> the HTTP client and the clock of a job, whose state \<open>'w\<close> is threaded
  through every call. Crates that are not part of the repository are records of functions whose
  documented behaviour is a locale: \<open>ip_network\<close> (ipnetwork), \<open>crypto_suite\<close> (HMAC, AEAD, hex),
  \<open>job_backend\<close> and \<open>reliable_backend\<close> (the cron library), \<open>path_matching\<close> (the web framework),
  \<open>batch_endpoint\<close>, \<open>page_source\<close>, \<open>vault_fleet\<close> and \<open>change_feed\<close> (remote vaults). Each is interpreted on a
  concrete instance, which the witnesses evaluate.

  \<^bold>\<open>Theories.\<close>
  \<^item> \<open>Prelude\<close>, \<open>Text\<close>, \<open>IpAddr\<close>: error and option plumbing; the string functions of the standard
    library; addresses with their parser and printer and the round trip between the two.
  \<^item> \<open>IpNet\<close>, \<open>Bogon\<close>: networks, and the filter of reserved ranges, which keeps exactly the records
    without a reserved address.
  \<^item> \<open>Replay\<close>: the cache of accepted signatures is equivalent to a list of acceptances without sweeps.
  \<^item> \<open>Crypto\<close>: envelopes of secrets round-trip and fail closed; a signature binds the whole request.
  \<^item> \<open>Retry\<close>, \<open>Client\<close>: bounded retries and backoff; a batch that is split and retried has the effect
    of one request, and ends in success when small batches do; paging returns the whole listing.
  \<^item> \<open>Store\<close>, \<open>Errors\<close>: rows, constraints, statements; the error type and its responses.
  \<^item> \<open>Jobs\<close>, \<open>VaultSync\<close>: mutual exclusion of executions in every interleaving, chunking; the position
    of a task advances only after every target has the whole filtered delta.
  \<^item> \<open>Replication\<close>: many runs of one task; the deltas of the successful ones leave no gap, provided the
    source's clock agrees with the service's (locale \<open>change_feed\<close>).
  \<^item> \<open>Parsers\<close>, \<open>Decompress\<close>, \<open>Ingestion\<close>: feeds to normalised addresses, bounded unpacking, and what the
    status of an ingestion means for the targets.
  \<^item> \<open>Guards\<close>, \<open>Keys\<close>, \<open>VaultApi\<close>, \<open>TaskApi\<close>, \<open>SourceApi\<close>: every authorization guard and every handler;
    who may change which rows, that no request amplifies rights, that the constraints, the key
    lineage, the stored configuration and the schedule are kept.
  \<^item> \<open>Scheduler\<close>: the live cron jobs are those of the active rows.
  \<^item> \<open>Config\<close>, \<open>Auth\<close>: environment, trusted proxies with their name cache, the client address, and
    what a request that passes the middleware has proved.
  \<^item> \<open>Logs\<close>: the two histories and their retention.
  \<^item> \<open>Extract\<close>: the strict extractors; reads reveal nothing about rows the caller may not see.
  \<^item> \<open>Boot\<close>, \<open>Startup\<close>: connection, migrations, bootstrap of the Master, key canary, pin, schedule; a
    first start succeeds and the printed credentials work.
  \<^item> \<open>Migrations\<close>: every migration on the rows of each backend, forwards and back.
  \<^item> \<open>Router\<close>, \<open>Service\<close>, \<open>Schedules\<close>: the route table, and the process as a transition system whose
    steps are whole requests, whole jobs, sweeps and the priming of proxy names; what each keeps of
    the constraints, the rights and the schedule, as interpretations of one locale, \<open>service_invariant\<close>.
  \<^item> \<open>Flights\<close>: the two jobs one database statement at a time. The statements in sequence are the job,
    and a statement never reverts what others did since the job read its rows.
  \<^item> \<open>Interleaving\<close>: the process whose jobs are in flight while everything else goes on, with the
    invariants over all its runs: constraints and the one Master, slots held exactly by the executions in
    flight, rights that never grow, signatures served once, active rows that stay scheduled. They are
    interpretations of \<open>interleaved_invariant\<close>, which extends \<open>service_invariant\<close>; the runs of
    \<open>Service\<close> are among those of this process.
  \<^item> \<open>Hazards\<close>: two edits of one task that overlap between their awaits, and a task whose source changes.

  \<^bold>\<open>Loops.\<close> Loops over data are structural recursion; retrying, batch splitting, chunking and UTF-8
  decoding are functions with a termination measure. Two loops could run forever on other data and
  are partial functions into \<open>option\<close>, where \<open>None\<close> is a loop that does not end: the collection of a
  key's descendants, which is proved to end because in every reachable table parents precede their
  children, and paging, which is proved to end when the remote listing is finite. No fuel is used.

  \<^bold>\<open>Machine integers.\<close> Addresses are 32- and 128-bit words, identifiers 128-bit words. Where the
  source computes on 64-bit integers that can wrap (the timestamp skew, the body limit) or saturate
  (backoff, budgets), the wrap or the saturation is written out.

  \<^bold>\<open>Interleaving.\<close> In \<open>Interleaving\<close> every statement of a job is a step of its own, and requests, ticks,
  sweeps and the statements of other jobs come between any two of them; a job can be cut off at every
  statement. Three things remain one step: a request (its handler's statements and its change of the
  schedule), the network part of a job, which touches no table, and a sweep. \<open>Hazards\<close> shows what the
  first of these hides.

  \<^bold>\<open>Not modelled.\<close> The crates themselves (parameters, as above); log output; the confirmation pass
  over the session pragmas; installing signal handlers and draining on shutdown; the trace layer
  and the static files; the browser dashboard and the shell scripts; and the tests inside the
  source files. Plain indexes have no effect on rows.
\<close>

end
